(* ===== verification/Prelude.thy ===== *)
theory Prelude
  imports Main "HOL-Library.Word" "HOL-Library.Monad_Syntax" "HOL-Library.Multiset"
begin

text \<open>
  Shared vocabulary of the development: the C integer types, the kernel's wrap-around
  time comparison, byte order, and the list walks (update, remove, ordered insert) that
  the module's linked-list code is made of, with the lemmas every component uses.
  The locales at the end are the interface of a table kept in key order and of the
  prefix search that the code runs on such a table.
\<close>

unbundle bit_operations_syntax

section \<open>Integer types\<close>

type_synonym u8 = "8 word"
type_synonym u16 = "16 word"
type_synonym u32 = "32 word"
type_synonym u64 = "64 word"

named_theorems frame_simps "fields an operation leaves alone"
named_theorems inv_intros "preservation of the components' invariants"

section \<open>Wrap-around time\<close>

text \<open>
  The kernel's \<open>time_before(a, b)\<close> is \<open>(long)a - (long)b < 0\<close>; every caller casts the
  64-bit millisecond times to \<open>unsigned long\<close>, which has 32 bits on the i386 and arm
  targets of the README, before it compares them.
\<close>

definition ulong :: "u64 \<Rightarrow> u32" where
  "ulong t = ucast t"

definition time_before :: "u64 \<Rightarrow> u64 \<Rightarrow> bool" where
  "time_before a b \<longleftrightarrow> sint (ulong a - ulong b) < 0"

definition time_after :: "u64 \<Rightarrow> u64 \<Rightarrow> bool" where
  "time_after a b \<longleftrightarrow> time_before b a"

lemma time_before_irrefl [simp]: "\<not> time_before a a"
  by (simp add: time_before_def)

lemma time_after_irrefl [simp]: "\<not> time_after a a"
  by (simp add: time_after_def)

lemma sint_neg_iff32: "sint (w :: u32) < 0 \<longleftrightarrow> 2 ^ 31 \<le> uint w"
proof -
  have b: "0 \<le> uint w" "uint w < 2 ^ 32" using uint_bounded [of w] by simp_all
  have "bit w 31 \<longleftrightarrow> odd (uint w div 2 ^ 31)"
    by (metis bit_iff_odd bit_uint_iff bit_imp_le_length)
  moreover have "odd (uint w div 2 ^ 31) \<longleftrightarrow> 2 ^ 31 \<le> uint w"
  proof (cases "2 ^ 31 \<le> uint w")
    case True
    then have "uint w div 2 ^ 31 = (uint w - 2 ^ 31) div 2 ^ 31 + 1"
      by (simp add: div_pos_geq)
    also have "(uint w - 2 ^ 31) div 2 ^ 31 = 0"
      using b True by (intro div_pos_pos_trivial) auto
    finally show ?thesis using True by simp
  next
    case False
    then show ?thesis using b by simp
  qed
  ultimately show ?thesis
    using bit_last_iff [of w] by simp
qed

lemma uint_ulong_diff: "uint (ulong a - ulong b) = (uint a - uint b) mod 2 ^ 32"
  by (simp add: ulong_def uint_word_ariths unsigned_ucast_eq take_bit_eq_mod mod_diff_eq)

lemma time_before_window:
  assumes "\<bar>uint a - uint b\<bar> < 2 ^ 31"
  shows "time_before a b \<longleftrightarrow> a < b"
proof (cases "uint a < uint b")
  case True
  have "(uint a - uint b) mod 2 ^ 32 = uint a - uint b + 2 ^ 32"
    using assms True by (subst mod_add_self2 [symmetric], intro mod_pos_pos_trivial) auto
  then show ?thesis
    using assms True unfolding time_before_def sint_neg_iff32 uint_ulong_diff
    by (simp add: word_less_def)
next
  case False
  have "(uint a - uint b) mod 2 ^ 32 = uint a - uint b"
    using assms False by (intro mod_pos_pos_trivial) auto
  then show ?thesis
    using assms False unfolding time_before_def sint_neg_iff32 uint_ulong_diff
    by (simp add: word_less_def)
qed

text \<open>Times of one half-window after a base compare as numbers.\<close>

definition in_window :: "u64 \<Rightarrow> u64 \<Rightarrow> bool" where
  "in_window base t \<longleftrightarrow> uint base \<le> uint t \<and> uint t < uint base + 2 ^ 31"

lemma in_window_before:
  "in_window base a \<Longrightarrow> in_window base b \<Longrightarrow> time_before a b \<longleftrightarrow> a < b"
  by (rule time_before_window) (auto simp: in_window_def)

lemma in_window_after:
  "in_window base a \<Longrightarrow> in_window base b \<Longrightarrow> time_after a b \<longleftrightarrow> b < a"
  by (simp add: time_after_def in_window_before)

lemma in_window_self [simp]: "in_window t t"
  by (simp add: in_window_def)

section \<open>Byte order\<close>

text \<open>
  \<open>htonl\<close>/\<open>ntohl\<close> and \<open>htons\<close>/\<open>ntohs\<close> on the little-endian targets: the bytes reversed.
\<close>

definition htonl :: "u32 \<Rightarrow> u32" where
  "htonl w = push_bit 24 (take_bit 8 w) OR push_bit 16 (take_bit 8 (drop_bit 8 w))
     OR push_bit 8 (take_bit 8 (drop_bit 16 w)) OR take_bit 8 (drop_bit 24 w)"

definition ntohl :: "u32 \<Rightarrow> u32" where
  "ntohl w = htonl w"

definition htons :: "u16 \<Rightarrow> u16" where
  "htons w = push_bit 8 (take_bit 8 w) OR take_bit 8 (drop_bit 8 w)"

definition ntohs :: "u16 \<Rightarrow> u16" where
  "ntohs w = htons w"

lemma bit_htonl:
  "bit (htonl w) n \<longleftrightarrow>
     (if n < 8 then bit w (24 + n) else if n < 16 then bit w (8 + n)
      else if n < 24 then bit w (n - 8) else n < 32 \<and> bit w (n - 24))"
  by (simp add: htonl_def bit_simps) linarith?

lemma ntohl_htonl [simp]: "ntohl (htonl w) = w"
  unfolding ntohl_def
proof (rule bit_word_eqI)
  fix n assume "n < LENGTH(32)"
  then consider "n < 8" | "8 \<le> n" "n < 16" | "16 \<le> n" "n < 24" | "24 \<le> n" "n < 32"
    by fastforce
  then show "bit (htonl (htonl w)) n \<longleftrightarrow> bit w n"
    by cases (auto simp: bit_htonl dest!: le_Suc_ex)
qed

lemma htonl_ntohl [simp]: "htonl (ntohl w) = w"
  using ntohl_htonl [of w] by (simp add: ntohl_def)

lemma ntohs_htons [simp]: "ntohs (htons w) = w"
  unfolding ntohs_def
proof (rule bit_word_eqI)
  fix n assume "n < LENGTH(16)"
  then consider "n < 8" | "8 \<le> n" "n < 16" by fastforce
  then show "bit (htons (htons w)) n \<longleftrightarrow> bit w n"
    by cases (auto simp: htons_def bit_simps dest!: le_Suc_ex)
qed

lemma htonl_inject [simp]: "htonl a = htonl b \<longleftrightarrow> a = b"
  by (metis ntohl_htonl)

section \<open>List walks\<close>

text \<open>
  The module's tables are linked lists. A loop that finds the first node with a property
  and changes it, unlinks it, or links a new node in front of it, is one of these.
\<close>

fun update_first :: "('a \<Rightarrow> bool) \<Rightarrow> ('a \<Rightarrow> 'a) \<Rightarrow> 'a list \<Rightarrow> 'a list" where
  "update_first P f [] = []"
| "update_first P f (x # xs) = (if P x then f x # xs else x # update_first P f xs)"

fun remove_first :: "('a \<Rightarrow> bool) \<Rightarrow> 'a list \<Rightarrow> 'a list" where
  "remove_first P [] = []"
| "remove_first P (x # xs) = (if P x then xs else x # remove_first P xs)"

lemma length_update_first [simp]: "length (update_first P f xs) = length xs"
  by (induction xs) auto

lemma map_update_first:
  "(\<And>x. g (f x) = g x) \<Longrightarrow> map g (update_first P f xs) = map g xs"
  by (induction xs) auto

lemma update_first_id: "\<forall>x\<in>set xs. \<not> P x \<Longrightarrow> update_first P f xs = xs"
  by (induction xs) auto

lemma set_update_first: "set (update_first P f xs) \<subseteq> set xs \<union> f ` {x \<in> set xs. P x}"
  by (induction xs) auto

lemma find_update_first:
  "(\<And>x. P (f x) = P x) \<Longrightarrow> List.find P (update_first P f xs) = map_option f (List.find P xs)"
  by (induction xs) auto

lemma set_remove_first: "set (remove_first P xs) \<subseteq> set xs"
  by (induction xs) auto

lemma remove_first_id: "\<forall>x\<in>set xs. \<not> P x \<Longrightarrow> remove_first P xs = xs"
  by (induction xs) auto

lemma count_remove_first:
  "length (filter P (remove_first P xs)) = length (filter P xs) - 1"
  by (induction xs) auto

lemma count_remove_first_other:
  "(\<And>x. P x \<Longrightarrow> \<not> Q x) \<Longrightarrow> filter Q (remove_first P xs) = filter Q xs"
  by (induction xs) auto

lemma in_remove_firstD: "x \<in> set (remove_first P xs) \<Longrightarrow> x \<in> set xs"
  using set_remove_first by fast

lemma sorted_wrt_remove_first:
  "sorted_wrt R xs \<Longrightarrow> sorted_wrt R (remove_first P xs)"
  by (induction xs) (auto dest: in_remove_firstD)

lemma sorted_remove_first:
  "sorted (map k xs) \<Longrightarrow> sorted (map k (remove_first P xs))"
  by (induction xs) (auto dest: in_remove_firstD)

lemma distinct_remove_first:
  "distinct (map k xs) \<Longrightarrow> distinct (map k (remove_first P xs))"
  by (induction xs) (auto dest: in_remove_firstD)

lemma sorted_update_first:
  "(\<And>x. k (f x) = k x) \<Longrightarrow> sorted (map k (update_first P f xs)) = sorted (map k xs)"
  by (simp add: map_update_first)

section \<open>Tables kept in key order\<close>

text \<open>
  The interface of the module's ordered tables: a new entry is linked in front of the
  first entry whose key is not smaller. Everything a client needs follows.
\<close>

locale ordered_table =
  fixes key :: "'a \<Rightarrow> 'k :: linorder"
    and ins :: "'a \<Rightarrow> 'a list \<Rightarrow> 'a list"
  assumes ins_split:
    "ins x xs = takeWhile (\<lambda>y. key y < key x) xs @ x # dropWhile (\<lambda>y. key y < key x) xs"
begin

lemma set_ins [simp]: "set (ins x xs) = insert x (set xs)"
proof -
  have "set xs = set (takeWhile (\<lambda>y. key y < key x) xs) \<union> set (dropWhile (\<lambda>y. key y < key x) xs)"
    by (metis set_append takeWhile_dropWhile_id)
  then show ?thesis by (simp add: ins_split)
qed

lemma length_ins [simp]: "length (ins x xs) = Suc (length xs)"
  using takeWhile_dropWhile_id [of "\<lambda>y. key y < key x" xs]
  by (metis (no_types, lifting) add_Suc_right ins_split length_Cons length_append)

lemma mset_ins: "mset (ins x xs) = add_mset x (mset xs)"
  using takeWhile_dropWhile_id [of "\<lambda>y. key y < key x" xs]
  by (metis (no_types, lifting) ins_split mset.simps(2) mset_append union_mset_add_mset_right)

lemma sorted_ins: "sorted (map key xs) \<Longrightarrow> sorted (map key (ins x xs))"
proof (induction xs)
  case Nil
  then show ?case by (simp add: ins_split)
next
  case (Cons y ys)
  have eq: "ins x (y # ys) = (if key y < key x then y # ins x ys else x # y # ys)"
    by (simp add: ins_split)
  from Cons show ?case
    by (auto simp: eq)
qed

lemma filter_ins_other: "\<not> P x \<Longrightarrow> filter P (ins x xs) = filter P xs"
  using takeWhile_dropWhile_id [of "\<lambda>y. key y < key x" xs]
  by (metis (no_types, lifting) filter.simps(2) filter_append ins_split)

lemma ins_not_Nil [simp]: "ins x xs \<noteq> []"
  by (simp add: ins_split)

end

text \<open>
  A search of such a table: skip the smaller keys, then look among the entries of the key.
\<close>

locale ordered_search =
  fixes key :: "'a \<Rightarrow> 'k :: linorder"
    and look :: "'k \<Rightarrow> ('a \<Rightarrow> bool) \<Rightarrow> 'a list \<Rightarrow> 'a option"
  assumes look_segment:
    "look k P xs = List.find P (takeWhile (\<lambda>y. key y = k) (dropWhile (\<lambda>y. key y < k) xs))"
begin

lemma look_sorted:
  "sorted (map key xs) \<Longrightarrow> look k P xs = List.find (\<lambda>y. key y = k \<and> P y) xs"
proof (induction xs)
  case Nil
  then show ?case by (simp add: look_segment)
next
  case (Cons y ys)
  show ?case
  proof (cases "key y < k")
    case True
    then have "key y \<noteq> k" by simp
    with Cons True show ?thesis by (simp add: look_segment)
  next
    case ge: False
    show ?thesis
    proof (cases "key y = k")
      case True
      have "dropWhile (\<lambda>y. key y < k) ys = ys"
        using Cons.prems True by (cases ys) auto
      with Cons True show ?thesis by (auto simp: look_segment)
    next
      case False
      with ge Cons.prems have "\<forall>z\<in>set (y # ys). key z \<noteq> k" by fastforce
      then have "List.find (\<lambda>z. key z = k \<and> P z) (y # ys) = None"
        by (auto simp: find_None_iff)
      moreover have "look k P (y # ys) = None"
        using ge False by (simp add: look_segment)
      ultimately show ?thesis by simp
    qed
  qed
qed

lemma look_None_iff:
  "sorted (map key xs) \<Longrightarrow> look k P xs = None \<longleftrightarrow> (\<forall>y\<in>set xs. key y = k \<longrightarrow> \<not> P y)"
  by (auto simp: look_sorted find_None_iff)

lemma look_SomeD: "look k P xs = Some y \<Longrightarrow> y \<in> set xs \<and> key y = k \<and> P y"
  unfolding look_segment
  by (auto simp: find_Some_iff)
    (meson nth_mem set_dropWhileD set_takeWhileD)+

end

end
