(* ===== verification/Freshness.thy ===== *)
theory Freshness
  imports Prelude
begin

text \<open>
  The contract that the gateway list and the reverse routes share: an entry carries a
  sequence number and a cost, an advertisement replaces them when it is fresher, or as
  fresh and cheaper. The pairs are ordered by that, as an instance of \<open>linorder\<close>, and an entry
  that has been offered an advertisement holds the greater of the two. The two tables differ
  in what else they take over on equal cost, which the contract leaves open.
\<close>

datatype rank = Rank (rank_stamp: u32) (rank_cost: u32)

instantiation rank :: linorder
begin

definition less_eq_rank :: "rank \<Rightarrow> rank \<Rightarrow> bool" where
  "less_eq_rank a b \<longleftrightarrow> rank_stamp a < rank_stamp b \<or> (rank_stamp a = rank_stamp b \<and> rank_cost b \<le> rank_cost a)"

definition less_rank :: "rank \<Rightarrow> rank \<Rightarrow> bool" where
  "less_rank a b \<longleftrightarrow> rank_stamp a < rank_stamp b \<or> (rank_stamp a = rank_stamp b \<and> rank_cost b < rank_cost a)"

instance
proof
  fix a b c :: rank
  show "(a < b) = (a \<le> b \<and> \<not> b \<le> a)" by (auto simp: less_eq_rank_def less_rank_def)
  show "a \<le> a" by (simp add: less_eq_rank_def)
  show "a \<le> b \<Longrightarrow> b \<le> c \<Longrightarrow> a \<le> c" by (auto simp: less_eq_rank_def)
  show "a \<le> b \<Longrightarrow> b \<le> a \<Longrightarrow> a = b" by (auto simp: less_eq_rank_def rank.expand)
  show "a \<le> b \<or> b \<le> a" by (auto simp: less_eq_rank_def)
qed

end

lemma Rank_less [simp]: "Rank n m < Rank n' m' \<longleftrightarrow> n < n' \<or> (n = n' \<and> m' < m)"
  by (simp add: less_rank_def)

lemma Rank_le [simp]: "Rank n m \<le> Rank n' m' \<longleftrightarrow> n < n' \<or> (n = n' \<and> m' \<le> m)"
  by (simp add: less_eq_rank_def)

locale freshness =
  fixes rank :: "'e \<Rightarrow> rank"
    and offer :: "u32 \<times> u32 \<times> 'x \<Rightarrow> 'e \<Rightarrow> 'e"
  assumes offer_rank: "rank (offer (n, m, x) e) = max (rank e) (Rank n m)"
begin

text \<open>After any advertisements the entry has the best rank of them all, and of itself.\<close>

lemma offers_rank: "rank (fold offer os e) = Max (insert (rank e) ((\<lambda>(n, m, x). Rank n m) ` set os))"
proof (induction os arbitrary: e)
  case (Cons a os)
  obtain n m x where a: "a = (n, m, x)" by (cases a)
  show ?case
    by (cases "os = []") (simp_all add: a Cons offer_rank insert_commute Max_insert max.assoc max.commute)
qed simp

end

end
