(* ===== verification/Net_Utils.thy ===== *)
theory Net_Utils
  imports Prelude
begin

text \<open>
  The helpers of \<open>utils.c\<close>: subnet tests, the millisecond clock, the address printer and
  parser, netmask and prefix arithmetic, sequence comparison and nominal rates. Text is a
  \<open>string\<close> that ends where the C string has its NUL.
\<close>

section \<open>Clock and subnet tests\<close>

record timeval =
  tv_sec :: u32
  tv_usec :: u32

definition getcurrtime :: "timeval \<Rightarrow> u64" where
  "getcurrtime tv = ucast (tv_sec tv) * 1000 + ucast (tv_usec tv) div 1000"

definition same_subnet :: "u32 \<Rightarrow> u32 \<Rightarrow> u32 \<Rightarrow> bool" where
  "same_subnet ip netmask dest_ip \<longleftrightarrow> ip AND netmask = dest_ip AND netmask"

section \<open>Printing and parsing addresses\<close>

definition ip_byte :: "u32 \<Rightarrow> nat \<Rightarrow> nat" where
  "ip_byte ina i = unat (take_bit 8 (drop_bit (8 * i) ina))"

fun show_nat :: "nat \<Rightarrow> string" where
  "show_nat n = (if n < 10 then [char_of (48 + n)]
     else show_nat (n div 10) @ [char_of (48 + n mod 10)])"

declare show_nat.simps [simp del]

definition inet_ntoa :: "u32 \<Rightarrow> string" where
  "inet_ntoa ina =
     show_nat (ip_byte ina 0) @ ''.'' @ show_nat (ip_byte ina 1) @ ''.'' @
     show_nat (ip_byte ina 2) @ ''.'' @ show_nat (ip_byte ina 3)"

definition isdigit :: "char \<Rightarrow> bool" where
  "isdigit c \<longleftrightarrow> 48 \<le> (of_char c :: nat) \<and> (of_char c :: nat) \<le> 57"

definition islower :: "char \<Rightarrow> bool" where
  "islower c \<longleftrightarrow> 97 \<le> (of_char c :: nat) \<and> (of_char c :: nat) \<le> 122"

definition isxdigit :: "char \<Rightarrow> bool" where
  "isxdigit c \<longleftrightarrow> isdigit c \<or> 97 \<le> (of_char c :: nat) \<and> (of_char c :: nat) \<le> 102
     \<or> 65 \<le> (of_char c :: nat) \<and> (of_char c :: nat) \<le> 70"

definition isspace :: "char \<Rightarrow> bool" where
  "isspace c \<longleftrightarrow> of_char c = (32 :: nat) \<or> 9 \<le> (of_char c :: nat) \<and> (of_char c :: nat) \<le> 13"

definition isascii :: "char \<Rightarrow> bool" where
  "isascii c \<longleftrightarrow> (of_char c :: nat) < 128"

text \<open>The base prefix: \<open>0x\<close> is hexadecimal, a leading \<open>0\<close> octal, anything else decimal.\<close>

definition scan_base :: "string \<Rightarrow> u32 \<times> string" where
  "scan_base cp =
     (case cp of
        [] \<Rightarrow> (10, cp)
      | c # cs \<Rightarrow>
          if c = CHR ''0'' then
            (case cs of
               [] \<Rightarrow> (8, cs)
             | d # ds \<Rightarrow> if d = CHR ''x'' \<or> d = CHR ''X'' then (16, ds) else (8, cs))
          else (10, cp))"

fun scan_num :: "u32 \<Rightarrow> u32 \<Rightarrow> string \<Rightarrow> u32 \<times> string" where
  "scan_num base val [] = (val, [])"
| "scan_num base val (c # cs) =
     (if isascii c \<and> isdigit c then scan_num base (val * base + (of_char c - 48)) cs
      else if base = 16 \<and> isascii c \<and> isxdigit c
      then scan_num base (push_bit 4 val + (of_char c + 10 - (if islower c then 97 else 65))) cs
      else (val, c # cs))"

function scan_parts :: "u32 list \<Rightarrow> string \<Rightarrow> (u32 list \<times> u32 \<times> string) option" where
  "scan_parts parts cp =
     (let (base, cp1) = scan_base cp; (val, cp2) = scan_num base 0 cp1
      in case cp2 of
           [] \<Rightarrow> Some (parts, val, cp2)
         | c # cp3 \<Rightarrow>
             if c = CHR ''.'' then
               if 3 \<le> length parts \<or> 0xff < val then None
               else scan_parts (parts @ [val]) cp3
             else Some (parts, val, cp2))"
  by pat_completeness auto
termination
  by (relation "measure (\<lambda>(parts, cp). 4 - length parts)") auto

declare scan_parts.simps [simp del]

definition inet_aton :: "string \<Rightarrow> u32 option" where
  "inet_aton cp =
     (case scan_parts [] cp of
        None \<Rightarrow> None
      | Some (parts, val, rest) \<Rightarrow>
          if (case rest of [] \<Rightarrow> False | c # _ \<Rightarrow> \<not> isascii c \<or> \<not> isspace c) then None
          else if length parts = 0 then Some (htonl val)
          else if length parts = 1 then
            if 0xffffff < val then None
            else Some (htonl (val OR push_bit 24 (parts ! 0)))
          else if length parts = 2 then
            if 0xffff < val then None
            else Some (htonl (val OR (push_bit 24 (parts ! 0) OR push_bit 16 (parts ! 1))))
          else if length parts = 3 then
            if 0xff < val then None
            else Some (htonl (val OR (push_bit 24 (parts ! 0) OR push_bit 16 (parts ! 1)
                                      OR push_bit 8 (parts ! 2))))
          else Some (htonl val))"

section \<open>Netmasks, sequence numbers, rates\<close>

fun netmask_loop :: "nat \<Rightarrow> u32 \<Rightarrow> u32" where
  "netmask_loop 0 final = final"
| "netmask_loop (Suc n) final = netmask_loop n (push_bit 1 (final + 1))"

definition calculate_netmask :: "int \<Rightarrow> u32" where
  "calculate_netmask t = NOT (netmask_loop (nat (32 - t)) 0 + 1)"

definition low_bit :: "u32 \<Rightarrow> nat" where
  "low_bit t = (LEAST n. bit t n)"

lemma low_bit_set: "t \<noteq> 0 \<Longrightarrow> bit t (low_bit t)"
proof -
  assume "t \<noteq> 0"
  have "\<exists>n. bit t n"
  proof (rule ccontr)
    assume "\<not> (\<exists>n. bit t n)"
    then have "t = 0" by (intro bit_word_eqI) simp
    with \<open>t \<noteq> 0\<close> show False by simp
  qed
  then show ?thesis unfolding low_bit_def by (rule LeastI_ex)
qed

lemma low_bit_less: "t \<noteq> 0 \<Longrightarrow> low_bit t < 32"
  using low_bit_set [of t] bit_imp_le_length by fastforce

lemma low_bit_shift:
  assumes "push_bit 1 t \<noteq> 0"
  shows "Suc (low_bit t) \<le> low_bit (push_bit 1 t)"
proof -
  let ?n = "low_bit (push_bit 1 t)"
  have "bit (push_bit 1 t) ?n" using assms by (rule low_bit_set)
  then have "1 \<le> ?n \<and> bit t (?n - 1)" unfolding bit_push_bit_iff by blast
  then have n: "0 < ?n" "bit t (?n - 1)" by simp_all
  then have "low_bit t \<le> ?n - 1"
    unfolding low_bit_def [of t] by (intro Least_le)
  with n(1) show ?thesis by simp
qed

function prefix_loop :: "u32 \<Rightarrow> int \<Rightarrow> int" where
  "prefix_loop t i = (if t \<noteq> 0 then prefix_loop (push_bit 1 t) (i + 1) else i)"
  by pat_completeness auto
termination
proof (relation "measure (\<lambda>(t, i). if t = 0 then 0 else 32 - low_bit t)", goal_cases)
  case (2 t i)
  then show ?case
    using low_bit_less [of t] low_bit_shift [of t] by auto
qed simp

declare prefix_loop.simps [simp del]

definition calculate_prefix :: "u32 \<Rightarrow> int" where
  "calculate_prefix t = prefix_loop t 1"

definition seq_less_or_equal :: "u32 \<Rightarrow> u32 \<Rightarrow> bool" where
  "seq_less_or_equal seq_one seq_two \<longleftrightarrow> \<not> 0 < sint (seq_one - seq_two)"

definition seq_greater :: "u32 \<Rightarrow> u32 \<Rightarrow> bool" where
  "seq_greater seq_one seq_two \<longleftrightarrow> \<not> sint (seq_one - seq_two) < 0"

definition char_compar :: "u8 \<Rightarrow> u8 \<Rightarrow> int" where
  "char_compar tos1 tos2 = (if tos1 > tos2 then 1 else if tos1 = tos2 then 0 else -1)"

definition nominal_rates :: "int list" where
  "nominal_rates = [10, 20, 55, 110, 60, 90, 120, 180, 240, 360, 480, 540]"

definition get_nominalrate :: "int \<Rightarrow> int" where
  "get_nominalrate rate = (if rate \<in> set nominal_rates then rate else 0)"

section \<open>The printed form parses back\<close>

lemma of_char_digit: "n < 10 \<Longrightarrow> (of_char (char_of (48 + n) :: char) :: nat) = 48 + n"
  by (simp add: of_char_of)

lemma isdigit_show: "n < 10 \<Longrightarrow> isdigit (char_of (48 + n :: nat)) \<and> isascii (char_of (48 + n :: nat))"
  by (simp add: isdigit_def isascii_def of_char_digit)

lemma show_nat_digits: "\<forall>c\<in>set (show_nat n). isdigit c \<and> isascii c"
proof (induction n rule: show_nat.induct)
  case (1 n)
  then show ?case
    by (subst show_nat.simps) (auto simp: isdigit_show)
qed

lemma scan_num_digits_append:
  "\<forall>c\<in>set ds. isdigit c \<and> isascii c \<Longrightarrow>
     scan_num base v (ds @ rest) = scan_num base (fst (scan_num base v ds)) rest"
  by (induction ds arbitrary: v) auto

lemma scan_num_digits_all:
  "\<forall>c\<in>set ds. isdigit c \<and> isascii c \<Longrightarrow> snd (scan_num base v ds) = []"
  by (induction ds arbitrary: v) auto

lemma of_char_digit_word:
  "n < 10 \<Longrightarrow> (of_char (char_of (48 + n :: nat) :: char) :: u32) = 48 + of_nat n"
  using of_char_digit [of n]
  by (metis of_nat_add of_nat_numeral of_nat_of_char)

lemma scan_num_show_nat: "fst (scan_num 10 0 (show_nat n)) = of_nat n"
proof (induction n rule: show_nat.induct)
  case (1 n)
  show ?case
  proof (cases "n < 10")
    case True
    then show ?thesis
      by (subst show_nat.simps) (simp add: isdigit_show of_char_digit_word)
  next
    case False
    with 1 have "fst (scan_num 10 0 (show_nat (n div 10))) = of_nat (n div 10)" by simp
    moreover have "(of_nat (n div 10) * 10 + of_nat (n mod 10) :: u32) = of_nat n"
      by (metis div_mult_mod_eq of_nat_add of_nat_mult of_nat_numeral)
    ultimately show ?thesis
      using False show_nat_digits [of "n div 10"]
      by (subst show_nat.simps)
        (simp add: scan_num_digits_append isdigit_show of_char_digit_word)
  qed
qed

lemma show_nat_hd_nonzero: "0 < n \<Longrightarrow> \<exists>c cs. show_nat n = c # cs \<and> c \<noteq> CHR ''0''"
proof (induction n rule: show_nat.induct)
  case (1 n)
  show ?case
  proof (cases "n < 10")
    case True
    have "(of_char (CHR ''0'') :: nat) = 48" by simp
    then have "char_of (48 + n) \<noteq> CHR ''0''"
      using "1.prems" True of_char_digit [of n] by (metis add_cancel_right_right not_gr_zero)
    with True show ?thesis by (subst show_nat.simps) simp
  next
    case False
    with 1 obtain c cs where "show_nat (n div 10) = c # cs" "c \<noteq> CHR ''0''"
      by (metis div_greater_zero_iff not_less zero_less_numeral)
    with False show ?thesis by (subst show_nat.simps) simp
  qed
qed

lemma scan_field:
  assumes "rest = [] \<or> (\<exists>r. rest = CHR ''.'' # r)"
  shows "(let (b, cp1) = scan_base (show_nat n @ rest) in scan_num b 0 cp1) = (of_nat n, rest)"
proof (cases "n = 0")
  case True
  moreover have "show_nat 0 = ''0''" by code_simp
  ultimately have "show_nat n = ''0''" by simp
  with assms True show ?thesis
    by (auto simp: scan_base_def isdigit_def isascii_def)
next
  case False
  then obtain c cs where c: "show_nat n = c # cs" "c \<noteq> CHR ''0''"
    using show_nat_hd_nonzero by blast
  then have "scan_base (show_nat n @ rest) = (10, show_nat n @ rest)"
    by (simp add: scan_base_def)
  moreover have "scan_num 10 0 (show_nat n @ rest) = scan_num 10 (of_nat n) rest"
    by (simp add: scan_num_digits_append show_nat_digits scan_num_show_nat)
  moreover have "scan_num 10 (of_nat n) rest = (of_nat n, rest)"
    using assms by (auto simp: isdigit_def isascii_def)
  ultimately show ?thesis by simp
qed

lemma scan_parts_dot:
  "scan_parts ps (show_nat n @ CHR ''.'' # r) =
     (if 3 \<le> length ps \<or> 0xff < (of_nat n :: u32) then None
      else scan_parts (ps @ [of_nat n]) r)"
  using scan_field [of "CHR ''.'' # r" n]
  by (subst scan_parts.simps) (auto simp: Let_def split: prod.splits)

lemma scan_parts_last: "scan_parts ps (show_nat n) = Some (ps, of_nat n, [])"
  using scan_field [of "[]" n]
  by (subst scan_parts.simps) (auto simp: Let_def split: prod.splits)

lemma ip_byte_word: "of_nat (ip_byte ina i) = take_bit 8 (drop_bit (8 * i) ina)"
  by (simp add: ip_byte_def)

lemma take_bit_8_le: "take_bit 8 (w :: u32) \<le> 0xff"
  using take_bit_nat_less_exp [of 8 "unat w"]
  by (simp add: word_le_nat_alt unsigned_take_bit_eq)

text \<open>C34: The address parser reads back exactly what the address printer writes, for all
  \<open>2 ^ 32\<close> addresses.\<close>

theorem inet_aton_inet_ntoa: "inet_aton (inet_ntoa ina) = Some ina"
proof -
  have parts: "scan_parts [] (inet_ntoa ina) =
     Some ([take_bit 8 ina, take_bit 8 (drop_bit 8 ina), take_bit 8 (drop_bit 16 ina)],
           take_bit 8 (drop_bit 24 ina), [])"
    by (simp add: inet_ntoa_def scan_parts_dot scan_parts_last ip_byte_word
        linorder_not_less [THEN iffD2, OF take_bit_8_le])
  have "htonl (take_bit 8 (drop_bit 24 ina) OR (push_bit 24 (take_bit 8 ina)
      OR push_bit 16 (take_bit 8 (drop_bit 8 ina)) OR push_bit 8 (take_bit 8 (drop_bit 16 ina))))
      = htonl (htonl ina)"
    by (simp add: htonl_def ac_simps)
  also have "\<dots> = ina" using ntohl_htonl [of ina] by (simp add: ntohl_def)
  finally show ?thesis
    by (simp add: inet_aton_def parts linorder_not_less [THEN iffD2, OF take_bit_8_le])
qed

section \<open>Netmasks and prefixes\<close>

lemma netmask_loop_mask: "netmask_loop n (2 * mask k) = 2 * mask (k + n)"
proof (induction n arbitrary: k)
  case (Suc n)
  have "push_bit 1 (2 * mask k + 1 :: u32) = 2 * mask (Suc k)"
    by (simp add: mask_Suc_rec push_bit_eq_mult)
  then show ?case using Suc.IH [of "Suc k"] by simp
qed simp

lemma calculate_netmask_bits:
  "bit (calculate_netmask t) n \<longleftrightarrow> n < 32 \<and> Suc (nat (32 - t)) \<le> n"
proof -
  have "calculate_netmask t = NOT (mask (Suc (nat (32 - t))))"
    using netmask_loop_mask [of "nat (32 - t)" 0]
    by (simp add: calculate_netmask_def mask_Suc_rec)
  then show ?thesis by (auto simp: bit_simps)
qed

lemma low_bit_shift_eq:
  assumes "push_bit 1 t \<noteq> 0"
  shows "low_bit (push_bit 1 t) = Suc (low_bit t)"
proof -
  have "Suc (low_bit t) \<le> low_bit (push_bit 1 t)" using assms by (rule low_bit_shift)
  moreover have "low_bit (push_bit 1 t) < 32" using assms by (rule low_bit_less)
  moreover have "t \<noteq> 0" using assms by auto
  ultimately have "bit (push_bit 1 t) (Suc (low_bit t))"
    unfolding bit_push_bit_iff using low_bit_set [of t] by simp
  then have "low_bit (push_bit 1 t) \<le> Suc (low_bit t)"
    unfolding low_bit_def [of "push_bit 1 t"] by (rule Least_le)
  with \<open>Suc (low_bit t) \<le> _\<close> show ?thesis by simp
qed

lemma low_bit_last:
  assumes "t \<noteq> 0" and "push_bit 1 t = 0"
  shows "low_bit t = 31"
proof -
  have "\<not> bit (push_bit 1 t) (Suc (low_bit t))" using assms(2) by simp
  then have "\<not> Suc (low_bit t) < 32"
    unfolding bit_push_bit_iff using low_bit_set [OF assms(1)] by simp
  with low_bit_less [OF assms(1)] show ?thesis by simp
qed

lemma prefix_loop_eq:
  "prefix_loop t i = (if t = 0 then i else i + 32 - int (low_bit t))"
proof (induction t i rule: prefix_loop.induct)
  case (1 t i)
  show ?case
  proof (cases "t = 0")
    case True
    then show ?thesis by (simp add: prefix_loop.simps)
  next
    case False
    then have "prefix_loop t i = prefix_loop (push_bit 1 t) (i + 1)"
      by (subst prefix_loop.simps) simp
    with 1 False low_bit_shift_eq [of t] low_bit_last [of t] show ?thesis by auto
  qed
qed

text \<open>\<open>calculate_prefix\<close> inverts \<open>calculate_netmask\<close> on every prefix length from 1 to
  32, although neither is the textbook function: the mask of \<open>t\<close> has \<open>t - 1\<close> leading ones
  and the counter starts at 1.\<close>

theorem prefix_netmask_roundtrip:
  assumes "1 \<le> t" and "t \<le> 32"
  shows "calculate_prefix (calculate_netmask t) = t"
proof (cases "t = 1")
  case True
  have "calculate_netmask 1 = 0"
    by (rule bit_word_eqI) (simp add: calculate_netmask_bits)
  with True show ?thesis by (simp add: calculate_prefix_def prefix_loop_eq)
next
  case False
  let ?k = "Suc (nat (32 - t))"
  have "bit (calculate_netmask t) ?k"
    using False assms by (simp add: calculate_netmask_bits)
  moreover have "\<And>n. bit (calculate_netmask t) n \<Longrightarrow> ?k \<le> n"
    by (simp add: calculate_netmask_bits)
  ultimately have "low_bit (calculate_netmask t) = ?k" and "calculate_netmask t \<noteq> 0"
    unfolding low_bit_def by (auto intro: Least_equality)
  then show ?thesis
    using assms by (simp add: calculate_prefix_def prefix_loop_eq)
qed

theorem prefix_netmask_roundtrip_witness:
  "(1 :: int) \<le> 24 \<and> (24 :: int) \<le> 32 \<and> calculate_prefix (calculate_netmask 24) = 24"
  using prefix_netmask_roundtrip [of 24] by simp

end
