(* ===== verification/Aodv_Types.thy ===== *)
theory Aodv_Types
  imports Net_Utils
begin

text \<open>
  The data of \<open>aodv.h\<close>: constants, wire messages, table entries, and the state of one node
  (the module's globals in one record). Bit-fields of one bit are \<open>bool\<close>; the padding of the
  probe messages, which nothing reads, is left out. What the kernel answers (allocation,
  netlink sockets, socket buffer space, random bytes, stale memory) is a function in the
  configuration, indexed by how often it was asked.
\<close>

section \<open>Constants\<close>

abbreviation "ACTIVE_ROUTE_TIMEOUT \<equiv> (4800 :: u64)"
abbreviation "BRK_LINK_TIMEOUT \<equiv> (60000 :: u64)"
abbreviation "ALLOWED_HELLO_LOSS \<equiv> (3 :: u64)"
abbreviation "HELLO_INTERVAL \<equiv> (1000 :: u64)"
abbreviation "DELETE_PERIOD \<equiv> (3000 :: u64)" \<comment> \<open>\<open>ALLOWED_HELLO_LOSS * HELLO_INTERVAL\<close>\<close>
abbreviation "NET_DIAMETER \<equiv> (10 :: u8)"
abbreviation "NODE_TRAVERSAL_TIME \<equiv> (40 :: u32)"
abbreviation "NET_TRAVERSAL_TIME \<equiv> (800 :: u64)" \<comment> \<open>\<open>2 * NODE_TRAVERSAL_TIME * NET_DIAMETER\<close>\<close>
abbreviation "RREQ_RETRIES \<equiv> (2 :: u8)"
abbreviation "DTTL \<equiv> (15 :: u8)"
abbreviation "ST_INTERVAL \<equiv> (10000 :: u64)"
abbreviation "ACTIVE_GWROUTE_TIMEOUT \<equiv> (21000 :: u64)"
abbreviation "ETT_INTERVAL \<equiv> (60000 :: u64)"
abbreviation "ETT_FAST_INTERVAL \<equiv> (20000 :: u64)"
abbreviation "ETT_PROBES_MAX \<equiv> (10 :: u8)"
abbreviation "ETT_PROBES_MIN \<equiv> (3 :: u8)"
abbreviation "ETT_RANGE \<equiv> (50 :: u32)"
abbreviation "ALLOWED_ETT_LOSS \<equiv> (2 :: u64)"
abbreviation "PROBE_PACKET \<equiv> (11776 :: u32)"
abbreviation "PROBE_PACKET_SIZE \<equiv> (61740 :: u32)"
abbreviation "DEFAULT_ETT_METRIC \<equiv> (1000000 :: u32)"
abbreviation "HOPS \<equiv> (0 :: u8)"
abbreviation "ETT \<equiv> (1 :: u8)"
abbreviation "WCIM \<equiv> (2 :: u8)"
abbreviation "NUM_TOS \<equiv> (9 :: nat)"
abbreviation "NO_TOS \<equiv> (0 :: u8)"
abbreviation "DEFAULT_ROUTE_TABLE \<equiv> (254 :: int)"
abbreviation "MAX_ROUTE_TABLES \<equiv> (252 :: int)"
abbreviation "NEIGHBOR_2H_TIMEOUT \<equiv> (10000 :: u64)"
abbreviation "RREP_TIMER \<equiv> (100 :: u64)"
abbreviation "UNDEFINED_LOAD \<equiv> (200 :: u8)"
abbreviation "NEIGH_TABLESIZE \<equiv> (32 :: nat)"

abbreviation "AODVPORT \<equiv> (5002 :: u16)"
abbreviation "DTNREGISTER \<equiv> (9999 :: u16)"
abbreviation "DTNPORT \<equiv> (10000 :: u16)"
abbreviation "GET_DTN_HELLO \<equiv> (10001 :: u16)"
abbreviation "RE_DTN_HELLO \<equiv> (10002 :: u16)"
abbreviation "DTN_LOCATION_PORT \<equiv> (10003 :: u16)"
abbreviation "AODV_LOCATION_PORT \<equiv> (10004 :: u16)"
abbreviation "DHCP1 \<equiv> (67 :: u16)"
abbreviation "DHCP2 \<equiv> (68 :: u16)"

text \<open>Route and link states.\<close>

abbreviation "INVALID \<equiv> (0 :: u8)"
abbreviation "REPLIED \<equiv> (1 :: u8)"
abbreviation "ACTIVE \<equiv> (2 :: u8)"

text \<open>Tasks. A received message of type \<open>t\<close> is a task of the same number.\<close>

abbreviation "TASK_HELLO \<equiv> (102 :: int)"
abbreviation "TASK_NEIGHBOR \<equiv> (103 :: int)"
abbreviation "TASK_CLEANUP \<equiv> (104 :: int)"
abbreviation "TASK_ROUTE_CLEANUP \<equiv> (105 :: int)"
abbreviation "TASK_ST \<equiv> (106 :: int)"
abbreviation "TASK_GW_CLEANUP \<equiv> (107 :: int)"
abbreviation "TASK_SEND_ETT \<equiv> (109 :: int)"
abbreviation "TASK_RECV_S_ETT \<equiv> (110 :: int)"
abbreviation "TASK_RECV_L_ETT \<equiv> (111 :: int)"
abbreviation "TASK_ETT_CLEANUP \<equiv> (112 :: int)"
abbreviation "TASK_NEIGHBOR_2H \<equiv> (113 :: int)"
abbreviation "TASK_RECV_RREQ \<equiv> (116 :: int)"
abbreviation "TASK_RESEND_RREQ \<equiv> (119 :: int)"
abbreviation "TASK_DTN_HELLO \<equiv> (121 :: int)"
abbreviation "TASK_RECV_RCVP \<equiv> (122 :: int)"
abbreviation "TASK_RECV_RRDP \<equiv> (123 :: int)"
abbreviation "TASK_ETT_INFO \<equiv> (124 :: int)"
abbreviation "TASK_SEND_RREP \<equiv> (125 :: int)"
abbreviation "TASK_RECV_RERR \<equiv> (126 :: int)"
abbreviation "TASK_RECV_STRREQ \<equiv> (128 :: int)"
abbreviation "TASK_RECV_HELLO \<equiv> (129 :: int)"
abbreviation "TASK_RECV_RREP \<equiv> (130 :: int)"
abbreviation "TASK_UPDATE_LOAD \<equiv> (131 :: int)"
abbreviation "TASK_GEN_RREQ \<equiv> (132 :: int)"

abbreviation "ETT_S_MESSAGE \<equiv> (110 :: u8)"
abbreviation "ETT_L_MESSAGE \<equiv> (111 :: u8)"
abbreviation "RREQ_MESSAGE \<equiv> (116 :: u8)"
abbreviation "RCVP_MESSAGE \<equiv> (122 :: u8)"
abbreviation "RRDP_MESSAGE \<equiv> (123 :: u8)"
abbreviation "ETT_INFO_MSG \<equiv> (124 :: u8)"
abbreviation "RERR_MESSAGE \<equiv> (126 :: u8)"
abbreviation "ST_RREQ_MESSAGE \<equiv> (128 :: u8)"
abbreviation "HELLO_MESSAGE \<equiv> (129 :: u8)"
abbreviation "RREP_MESSAGE \<equiv> (130 :: u8)"

section \<open>Wire messages\<close>

record rreq_st =
  gs_type :: u8
  gs_reserved :: u8
  gs_u :: bool
  gs_d :: bool
  gs_g :: bool
  gs_r :: bool
  gs_j :: bool
  gs_second_reserved :: u8
  gs_num_hops :: u8
  gs_gw_ip :: u32
  gs_dst_id :: u32
  gs_path_metric :: u32
  gs_dttl :: u8

record rreq =
  rq_type :: u8
  rq_reserved :: u8
  rq_u :: bool
  rq_d :: bool
  rq_g :: bool
  rq_r :: bool
  rq_j :: bool
  rq_tos :: u8
  rq_num_hops :: u8
  rq_gateway :: u32
  rq_dst_ip :: u32
  rq_src_ip :: u32
  rq_dst_id :: u32
  rq_path_metric :: u32
  rq_dttl :: u8

record rrep =
  rp_type :: u8
  rp_reserved1 :: u8
  rp_q :: bool
  rp_a :: bool
  rp_tos :: u8
  rp_num_hops :: u8
  rp_dst_ip :: u32
  rp_src_ip :: u32
  rp_dst_id :: u32
  rp_gateway :: u32
  rp_path_metric :: u32
  rp_src_id :: u32
  rp_dttl :: u8
  rp_x :: u32
  rp_y :: u32

record rerr =
  re_type :: u8
  re_num_hops :: u8
  re_reserved :: u8
  re_n :: bool
  re_dst_count :: u8
  re_dst_ip :: u32
  re_dst_id :: u32
  re_last_avail_ip :: u32
  re_src_ip :: u32

record hello_extension =
  hx_ip :: u32
  hx_count :: u8
  hx_load :: u8
  hx_load_seq :: u16

record hello =
  he_type :: u8
  he_reserved1 :: u8
  he_neigh_count :: u8
  he_num_hops :: u8
  he_load :: u8
  he_load_seq :: u16

record rcvp =
  rc_type :: u8
  rc_num_hops :: u8
  rc_dst_ip :: u32
  rc_dst_id :: u32
  rc_src_ip :: u32
  rc_last_avail_ip :: u32

record rrdp =
  rd_type :: u8
  rd_num_hops :: u8
  rd_reserved :: u8
  rd_n :: bool
  rd_dst_count :: u8
  rd_dst_ip :: u32
  rd_src_ip :: u32
  rd_tos :: u8

record s_probe =
  sp_type :: u8
  sp_n_probe :: u8
  sp_dst_ip :: u32
  sp_src_ip :: u32
  sp_sec :: u32
  sp_usec :: u32

record l_probe =
  lp_type :: u8
  lp_n_probe :: u8
  lp_my_rate :: u16
  lp_dst_ip :: u32
  lp_src_ip :: u32
  lp_sec :: u32
  lp_usec :: u32
  lp_last_meas_delay :: u32

record ett_info =
  ei_type :: u8
  ei_fixed_rate :: u8
  ei_my_rate :: u16
  ei_last_meas_delay :: u32

datatype msg =
    M_STRREQ rreq_st
  | M_RREQ rreq
  | M_RREP rrep
  | M_RERR rerr
  | M_HELLO hello "hello_extension list"
  | M_RCVP rcvp
  | M_RRDP rrdp
  | M_SPROBE s_probe
  | M_LPROBE l_probe
  | M_ETTINFO ett_info

text \<open>
  \<open>sizeof\<close> of the structures with the natural alignment of the i386 and arm targets, the
  \<open>DTN\<close> and \<open>DTN_HELLO\<close> fields included. A HELLO carries its extensions behind it.
\<close>

fun msg_size :: "msg \<Rightarrow> nat" where
  "msg_size (M_STRREQ m) = 20"
| "msg_size (M_RREQ m) = 28"
| "msg_size (M_RREP m) = 40"
| "msg_size (M_RERR m) = 20"
| "msg_size (M_HELLO m xs) = 8 + 8 * length xs"
| "msg_size (M_RCVP m) = 20"
| "msg_size (M_RRDP m) = 16"
| "msg_size (M_SPROBE m) = 120"
| "msg_size (M_LPROBE m) = 1464"
| "msg_size (M_ETTINFO m) = 8"

fun msg_type :: "msg \<Rightarrow> u8" where
  "msg_type (M_STRREQ m) = gs_type m"
| "msg_type (M_RREQ m) = rq_type m"
| "msg_type (M_RREP m) = rp_type m"
| "msg_type (M_RERR m) = re_type m"
| "msg_type (M_HELLO m xs) = he_type m"
| "msg_type (M_RCVP m) = rc_type m"
| "msg_type (M_RRDP m) = rd_type m"
| "msg_type (M_SPROBE m) = sp_type m"
| "msg_type (M_LPROBE m) = lp_type m"
| "msg_type (M_ETTINFO m) = ei_type m"

section \<open>Table entries\<close>

text \<open>A task; its payload is \<open>None\<close> for the NULL \<open>data\<close> pointer.\<close>

record task =
  tk_type :: int
  tk_time :: u64
  tk_dst_ip :: u32
  tk_src_ip :: u32
  tk_ttl :: u8
  tk_retries :: u16
  tk_tos :: u8
  tk_data :: "msg option"

text \<open>
  A route. \<open>rt_addr\<close> is the address \<open>kmalloc\<close> gave the node: routes are handed around by
  pointer, and the table may hold several entries of one source, destination and ToS.
\<close>

record aodv_route =
  rt_addr :: nat
  rt_netmask :: u32
  rt_num_hops :: u8
  rt_next_hop :: u32
  rt_lifetime :: u64
  rt_last_hop :: u32
  rt_dst_ip :: u32
  rt_src_ip :: u32
  rt_dst_id :: u32
  rt_path_metric :: u32
  rt_tos :: u8
  rt_load :: u8
  rt_neigh_route :: bool
  rt_self_route :: bool
  rt_state :: u8

record brk_link =
  bl_addr :: nat
  bl_lifetime :: u64
  bl_last_hop :: u32
  bl_dst_ip :: u32
  bl_src_ip :: u32
  bl_dst_id :: u32
  bl_state :: u8
  bl_last_avail_ip :: u32

text \<open>A neighbour, with \<open>etx_params\<close>, \<open>ett_params\<close> and \<open>load_params\<close> inlined.\<close>

record aodv_neigh =
  ng_ip :: u32
  ng_lifetime :: u64
  etx_count :: u8
  etx_send :: u8
  etx_recv :: u8
  ett_count_rcv :: u8
  ett_last_count :: u8
  ett_window :: u8
  ett_sec :: u64
  ett_usec :: u64
  ett_meas_delay :: u32
  ett_recv_delays :: "u32 list"
  ett_reset :: u8
  ett_interval :: u16
  ett_fixed_rate :: u16
  ng_load_seq :: u16
  ng_load :: u8
  ng_neigh_tx :: "u32 list"
  ng_recv_rate :: u16
  ng_send_rate :: u16
  ng_etx_metric :: u8

record gw_entry =
  gw_ip :: u32
  gw_lifetime :: u64
  gw_metric :: u32
  gw_num_hops :: u8
  gw_dst_id :: u32

record aodv_neigh_2h =
  n2_ip :: u32
  n2_lifetime :: u64
  n2_load :: u8
  n2_load_seq :: u16

record src_list_entry =
  sl_ip :: u32
  sl_rt_table :: int
  sl_num_routes :: int

record flow_type =
  fl_tos :: u8
  fl_avg_size :: u16
  fl_avg_rate :: u16

text \<open>
  A packet that netfilter handed over, with its header (\<open>skb\<close>) and its devices (\<open>entry\<close>), and the
  copy of its address fields (\<open>rt_info\<close>) that the queue is searched by. \<open>skb_sk\<close> says that the packet
  belongs to a socket of the node; the pointer of a packet in transit is null.
\<close>

record ipq_element =
  iq_id :: nat
  skb_saddr :: u32
  skb_daddr :: u32
  skb_tos :: u8
  skb_sk :: bool
  iq_saddr :: u32
  iq_daddr :: u32
  iq_tos :: u8
  iq_indev :: "u32 option"
  iq_outdev :: "u32 option"

text \<open>
  The packet queue; the element added last is the head of \<open>ipq_list\<close>. In the node, \<open>None\<close> is the
  static pointer \<open>q\<close> when it is null or what it points to was freed.
\<close>

record ipq_queue =
  ipq_len :: int
  ipq_maxlen :: int
  ipq_flushing :: bool
  ipq_terminate :: bool
  ipq_list :: "ipq_element list"

section \<open>What the module hands to the kernel\<close>

datatype verdict = NF_DROP | NF_ACCEPT | NF_QUEUE

record nl_route =
  nlr_new :: bool
  nlr_dst :: u32
  nlr_dst_len :: nat
  nlr_oif :: int
  nlr_gateway :: u32
  nlr_priority :: int
  nlr_link_scope :: bool

record nl_rule =
  nlu_new :: bool
  nlu_src :: "u32 option"
  nlu_src_len :: nat
  nlu_dst :: "u32 option"
  nlu_dst_len :: nat
  nlu_iif_lo :: bool
  nlu_priority :: int
  nlu_table :: u8

datatype effect =
    Bcast u8 msg
  | Ucast u32 u8 msg
  | ToDtn "u32 list" u16
  | ToLocation string u16
  | NlRoute nl_route
  | NlRule nl_rule
  | SetRoute ipq_element int
  | Reinject ipq_element verdict
  | IcmpUnreach ipq_element
  | SockInit u32 u16 string
  | SockRelease
  | RegisterHook string
  | UnregisterHook string

section \<open>The state of a node\<close>

record config =
  g_mesh_ip :: u32
  g_mesh_netmask :: u32
  g_broadcast_ip :: u32
  g_null_ip :: u32
  g_aodv_gateway :: u8
  g_routing_metric :: u8
  g_fixed_rate :: u16
  dtn_hello_ip :: u32
  aodv_blacklist_ip :: "u32 list"
  dtn_blacklist_ip :: "u32 list"
  dev_index :: int
  alloc_ok :: "nat \<Rightarrow> bool"
  nl_sock_rc :: "nat \<Rightarrow> int"
  nl_send_rc :: "nat \<Rightarrow> int"
  sock_wspace :: "nat \<Rightarrow> nat"
  sock_rc :: "nat \<Rightarrow> int"
  route_output :: "nat \<Rightarrow> u32 \<Rightarrow> u32 \<Rightarrow> u8 \<Rightarrow> int"
  rnd_bytes :: "nat \<Rightarrow> u32"
  junk :: u64
  hz :: u32

record node =
  cfg :: config
  now :: timeval
  allocs :: nat
  nlreqs :: nat
  sends :: nat
  rands :: nat
  dtn_register :: bool
  longitude :: u32
  latitude :: u32
  route_table :: "aodv_route list"
  local_route :: nat
  mesh_load :: u8
  mesh_load_seq :: u16
  src_list :: "src_list_entry list"
  neigh_list :: "aodv_neigh list"
  neigh_list_2h :: "aodv_neigh_2h list"
  gw_list :: "gw_entry list"
  default_gw :: u32
  brk_list :: "brk_link list"
  timer_queue :: "task list"
  aodv_timer :: "u32 option"
  task_queue :: "task list"
  flow_type_table :: "flow_type list"
  ipq :: "ipq_queue option"
  hello_count :: int
  count_send :: u8
  out :: "effect list"

abbreviation "mesh_ip s \<equiv> g_mesh_ip (cfg s)"
abbreviation "null_ip s \<equiv> g_null_ip (cfg s)"
abbreviation "metric s \<equiv> g_routing_metric (cfg s)"
abbreviation "is_gateway s \<equiv> g_aodv_gateway (cfg s) \<noteq> 0"
abbreviation "currtime s \<equiv> getcurrtime (now s)"

section \<open>Kernel services\<close>

definition kmalloc :: "node \<Rightarrow> nat option \<times> node" where
  "kmalloc s =
     ((if alloc_ok (cfg s) (allocs s) then Some (Suc (allocs s)) else None),
      s\<lparr>allocs := Suc (allocs s)\<rparr>)"

definition get_random_bytes :: "node \<Rightarrow> u32 \<times> node" where
  "get_random_bytes s = (rnd_bytes (cfg s) (rands s), s\<lparr>rands := Suc (rands s)\<rparr>)"

definition emit :: "effect \<Rightarrow> node \<Rightarrow> node" where
  "emit e s = s\<lparr>out := out s @ [e]\<rparr>"

lemma kmalloc_simps [simp]:
  "kmalloc s = (r, t) \<Longrightarrow> t = s\<lparr>allocs := Suc (allocs s)\<rparr>"
  by (simp add: kmalloc_def)

lemma snd_kmalloc [simp]: "snd (kmalloc s) = s\<lparr>allocs := Suc (allocs s)\<rparr>"
  by (simp add: kmalloc_def)

section \<open>A sample node\<close>

text \<open>
  The node of the witnesses: address 1 in the network 1..255, the kernel grants what it is
  asked, the clock stands at 100 s.
\<close>

definition sample_cfg :: config where
  "sample_cfg =
     \<lparr>g_mesh_ip = 1, g_mesh_netmask = 0xFFFFFF00, g_broadcast_ip = 0xFF, g_null_ip = 0,
      g_aodv_gateway = 0, g_routing_metric = HOPS, g_fixed_rate = 0, dtn_hello_ip = 0x7F7F7F7F,
      aodv_blacklist_ip = [], dtn_blacklist_ip = [], dev_index = 3, alloc_ok = (\<lambda>n. True),
      nl_sock_rc = (\<lambda>n. 0), nl_send_rc = (\<lambda>n. 0), sock_wspace = (\<lambda>n. 100000), sock_rc = (\<lambda>n. 0),
      route_output = (\<lambda>n src_ip dst_ip tos. 1),
      rnd_bytes = (\<lambda>n. 5),
      junk = 0xA5A5A5A5A5A5A5A5, hz = 100\<rparr>"

definition sample_node :: node where
  "sample_node =
     \<lparr>cfg = sample_cfg, now = \<lparr>tv_sec = 100, tv_usec = 0\<rparr>, allocs = 0, nlreqs = 0, sends = 0, rands = 0,
      dtn_register = False, longitude = 0, latitude = 0, route_table = [], local_route = 0,
      mesh_load = 0, mesh_load_seq = 0, src_list = [], neigh_list = [], neigh_list_2h = [],
      gw_list = [], default_gw = 0, brk_list = [], timer_queue = [], aodv_timer = None,
      task_queue = [], flow_type_table = [],
      ipq = Some \<lparr>ipq_len = 0, ipq_maxlen = 1024, ipq_flushing = False, ipq_terminate = False, ipq_list = []\<rparr>,
      hello_count = 0, count_send = 0, out = []\<rparr>"

lemma sample_simps:
  "cfg sample_node = sample_cfg" "alloc_ok sample_cfg n" "currtime sample_node = 100000"
  "nl_sock_rc sample_cfg n = 0" "nl_send_rc sample_cfg n = 0"
  by (simp_all add: sample_node_def sample_cfg_def getcurrtime_def)

end
