(* ===== verification/Task_Queue.thy ===== *)
theory Task_Queue
  imports Aodv_Types
begin

text \<open>
  The task queue of \<open>task_queue.c\<close>, twice. The specification is a list of tasks, the next one
  to be served first, from which a control task overtakes the others. The implementation is
  the code's: nodes with \<open>next\<close>, \<open>prev\<close> and \<open>prev_control\<close> pointers in a heap and the four
  anchors \<open>task_q\<close>, \<open>task_end\<close>, \<open>sub_q\<close>, \<open>sub_end\<close>; \<open>None\<close> as the result of an operation is
  the dereference of a NULL or freed pointer. The refinement lemmas discharge the locale
  \<open>control_queue\<close>, from which the order in which a queue drains follows.
\<close>

section \<open>Which tasks are control tasks\<close>

definition is_control_task :: "int \<Rightarrow> bool" where
  "is_control_task type \<longleftrightarrow>
     type \<in> {TASK_HELLO, TASK_NEIGHBOR, TASK_CLEANUP, TASK_ROUTE_CLEANUP, TASK_RECV_RREQ,
       TASK_RESEND_RREQ, TASK_RECV_RERR, TASK_RECV_HELLO, TASK_RECV_RREP, TASK_SEND_RREP,
       TASK_ST, TASK_GW_CLEANUP, TASK_RECV_STRREQ, TASK_ETT_CLEANUP, TASK_NEIGHBOR_2H,
       TASK_UPDATE_LOAD, TASK_RECV_RCVP, TASK_RECV_RRDP, TASK_DTN_HELLO, TASK_GEN_RREQ}"

section \<open>Specification: a list in which control tasks overtake\<close>

fun take_first :: "('a \<Rightarrow> bool) \<Rightarrow> 'a list \<Rightarrow> 'a option \<times> 'a list" where
  "take_first P [] = (None, [])"
| "take_first P (x # xs) =
     (if P x then (Some x, xs) else (case take_first P xs of (r, ys) \<Rightarrow> (r, x # ys)))"

definition dequeue :: "('a \<Rightarrow> bool) \<Rightarrow> 'a list \<Rightarrow> 'a option \<times> 'a list" where
  "dequeue ctl xs =
     (if \<exists>x\<in>set xs. ctl x then take_first ctl xs
      else (case xs of [] \<Rightarrow> (None, []) | x # ys \<Rightarrow> (Some x, ys)))"

lemma take_first_split:
  "\<forall>x\<in>set xs. \<not> P x \<Longrightarrow> P a \<Longrightarrow> take_first P (xs @ a # ys) = (Some a, xs @ ys)"
  by (induction xs) auto

lemma dequeue_control:
  "\<forall>x\<in>set xs. \<not> ctl x \<Longrightarrow> ctl a \<Longrightarrow> dequeue ctl (xs @ a # ys) = (Some a, xs @ ys)"
  by (simp add: dequeue_def take_first_split)

lemma dequeue_plain: "\<forall>x\<in>set (x # xs). \<not> ctl x \<Longrightarrow> dequeue ctl (x # xs) = (Some x, xs)"
  by (simp add: dequeue_def)

lemma dequeue_Nil [simp]: "dequeue ctl [] = (None, [])"
  by (simp add: dequeue_def)

lemma take_first_None: "(fst (take_first P xs) = None) = (\<forall>x\<in>set xs. \<not> P x)"
  by (induction xs) (auto split: prod.splits)

lemma dequeue_None_iff: "fst (dequeue ctl xs) = None \<longleftrightarrow> xs = []"
  by (auto simp: dequeue_def take_first_None split: list.splits)

lemma take_first_mset: "take_first P xs = (Some x, ys) \<Longrightarrow> mset xs = add_mset x (mset ys)"
  by (induction xs arbitrary: ys) (auto split: if_splits prod.splits)

lemma dequeue_mset: "dequeue ctl xs = (Some x, ys) \<Longrightarrow> mset xs = add_mset x (mset ys)"
  by (auto simp: dequeue_def take_first_mset split: if_splits list.splits)

lemma dequeue_filter:
  assumes "dequeue ctl xs = (Some x, ys)"
  shows "filter ctl xs @ filter (\<lambda>a. \<not> ctl a) xs
       = x # filter ctl ys @ filter (\<lambda>a. \<not> ctl a) ys"
proof (cases "\<exists>a\<in>set xs. ctl a")
  case True
  then obtain ps a qs where "xs = ps @ a # qs" "ctl a" "\<forall>p\<in>set ps. \<not> ctl p"
    by (metis split_list_first_propE)
  with assms show ?thesis by (auto simp: dequeue_control)
next
  case False
  with assms show ?thesis
    by (cases xs) (auto simp: dequeue_def filter_empty_conv)
qed

datatype 'a qop = Enq 'a | EnqFront 'a | Deq

fun spec_run :: "('a \<Rightarrow> bool) \<Rightarrow> 'a qop list \<Rightarrow> 'a list \<Rightarrow> 'a option list" where
  "spec_run ctl [] xs = []"
| "spec_run ctl (Enq x # ops) xs = spec_run ctl ops (xs @ [x])"
| "spec_run ctl (EnqFront x # ops) xs = spec_run ctl ops (x # xs)"
| "spec_run ctl (Deq # ops) xs = fst (dequeue ctl xs) # spec_run ctl ops (snd (dequeue ctl xs))"

text \<open>A task is never queued while it is queued.\<close>

fun ops_ok :: "('a \<Rightarrow> bool) \<Rightarrow> 'a qop list \<Rightarrow> 'a list \<Rightarrow> bool" where
  "ops_ok ctl [] xs = True"
| "ops_ok ctl (Enq x # ops) xs = (x \<notin> set xs \<and> ops_ok ctl ops (xs @ [x]))"
| "ops_ok ctl (EnqFront x # ops) xs = (x \<notin> set xs \<and> ops_ok ctl ops (x # xs))"
| "ops_ok ctl (Deq # ops) xs = ops_ok ctl ops (snd (dequeue ctl xs))"

text \<open>The interface of a queue that implements the specification.\<close>

locale control_queue =
  fixes rel :: "'q \<Rightarrow> 'a list \<Rightarrow> bool"
    and ctl :: "'a \<Rightarrow> bool"
    and ready :: "'q \<Rightarrow> 'a \<Rightarrow> bool"
    and enq :: "'a \<Rightarrow> 'q \<Rightarrow> 'q option"
    and enq_front :: "'a \<Rightarrow> 'q \<Rightarrow> 'q option"
    and deq :: "'q \<Rightarrow> ('a option \<times> 'q) option"
  assumes enq_refines:
      "rel q xs \<Longrightarrow> ready q x \<Longrightarrow> x \<notin> set xs \<Longrightarrow>
         \<exists>q'. enq x q = Some q' \<and> rel q' (xs @ [x]) \<and> ready q' = ready q"
    and enq_front_refines:
      "rel q xs \<Longrightarrow> ready q x \<Longrightarrow> x \<notin> set xs \<Longrightarrow>
         \<exists>q'. enq_front x q = Some q' \<and> rel q' (x # xs) \<and> ready q' = ready q"
    and deq_refines:
      "rel q xs \<Longrightarrow>
         \<exists>q'. deq q = Some (fst (dequeue ctl xs), q') \<and> rel q' (snd (dequeue ctl xs)) \<and> ready q' = ready q"
begin

text \<open>Any run of the three operations, against the specification.\<close>

fun run :: "'a qop list \<Rightarrow> 'q \<Rightarrow> 'a option list option" where
  "run [] q = Some []"
| "run (Enq x # ops) q = Option.bind (enq x q) (run ops)"
| "run (EnqFront x # ops) q = Option.bind (enq_front x q) (run ops)"
| "run (Deq # ops) q = Option.bind (deq q) (\<lambda>(r, q'). map_option ((#) r) (run ops q'))"

lemma run_refines:
  "rel q xs \<Longrightarrow> ops_ok ctl ops xs \<Longrightarrow> \<forall>x. Enq x \<in> set ops \<or> EnqFront x \<in> set ops \<longrightarrow> ready q x \<Longrightarrow>
     run ops q = Some (spec_run ctl ops xs)"
proof (induction ops arbitrary: q xs)
  case Nil
  then show ?case by simp
next
  case (Cons op ops)
  show ?case
  proof (cases op)
    case (Enq x)
    with enq_refines [of q xs x] Cons.prems
    obtain q' where "enq x q = Some q'" "rel q' (xs @ [x])" "ready q' = ready q" by auto
    with Enq Cons.IH [of q' "xs @ [x]"] Cons.prems show ?thesis by simp
  next
    case (EnqFront x)
    with enq_front_refines [of q xs x] Cons.prems
    obtain q' where "enq_front x q = Some q'" "rel q' (x # xs)" "ready q' = ready q" by auto
    with EnqFront Cons.IH [of q' "x # xs"] Cons.prems show ?thesis by simp
  next
    case Deq
    with deq_refines [of q xs] Cons.prems
    obtain q' where "deq q = Some (fst (dequeue ctl xs), q')" "rel q' (snd (dequeue ctl xs))"
      "ready q' = ready q" by auto
    with Deq Cons.IH [of q' "snd (dequeue ctl xs)"] Cons.prems show ?thesis by simp
  qed
qed

end

section \<open>Implementation: linked nodes\<close>

record tnode =
  tn_type :: int
  tn_next :: "nat option"
  tn_prev :: "nat option"
  tn_ctl :: "nat option" \<comment> \<open>\<open>prev_control\<close>\<close>

record tq =
  tq_heap :: "nat \<Rightarrow> tnode option"
  task_q :: "nat option"
  task_end :: "nat option"
  sub_q :: "nat option"
  sub_end :: "nat option"

text \<open>Reading a node through a pointer, and changing one.\<close>

definition deref :: "tq \<Rightarrow> nat option \<Rightarrow> tnode option" where
  "deref q p = Option.bind p (tq_heap q)"

definition upd :: "nat option \<Rightarrow> (tnode \<Rightarrow> tnode) \<Rightarrow> tq \<Rightarrow> tq option" where
  "upd p f q =
     (case p of
        None \<Rightarrow> None
      | Some a \<Rightarrow> (case tq_heap q a of
          None \<Rightarrow> None
        | Some n \<Rightarrow> Some (q\<lparr>tq_heap := (tq_heap q)(a \<mapsto> f n)\<rparr>)))"

definition init_task_queue :: "tq \<Rightarrow> tq" where
  "init_task_queue q = q\<lparr>task_q := None, task_end := None, sub_q := None, sub_end := None\<rparr>"

definition queue_aodv_task_ptr :: "nat \<Rightarrow> tq \<Rightarrow> tq option" where
  "queue_aodv_task_ptr a q0 = do {
     q1 \<leftarrow> upd (Some a) (\<lambda>n. n\<lparr>tn_next := task_q q0, tn_prev := None\<rparr>) q0;
     q2 \<leftarrow> (if task_q q1 \<noteq> None then upd (task_q q1) (\<lambda>n. n\<lparr>tn_prev := Some a\<rparr>) q1
            else Some q1);
     let q3 = (if task_end q2 = None then q2\<lparr>task_end := Some a\<rparr> else q2);
     let q4 = q3\<lparr>task_q := Some a\<rparr>;
     n \<leftarrow> deref q4 (Some a);
     if is_control_task (tn_type n) then
       if sub_q q4 = None \<and> sub_end q4 = None
       then Some (q4\<lparr>sub_q := Some a, sub_end := Some a\<rparr>)
       else do {
         q5 \<leftarrow> upd (sub_q q4) (\<lambda>n. n\<lparr>tn_ctl := Some a\<rparr>) q4;
         Some (q5\<lparr>sub_q := Some a\<rparr>)
       }
     else Some q4
   }"

definition queue_control_task_at_front_ptr :: "nat \<Rightarrow> tq \<Rightarrow> tq option" where
  "queue_control_task_at_front_ptr a q0 = do {
     q1 \<leftarrow> upd (Some a) (\<lambda>n. n\<lparr>tn_next := None, tn_prev := task_end q0\<rparr>) q0;
     q2 \<leftarrow> (if task_end q1 \<noteq> None then upd (task_end q1) (\<lambda>n. n\<lparr>tn_next := Some a\<rparr>) q1
            else Some q1);
     let q3 = (if task_q q2 = None then q2\<lparr>task_q := Some a\<rparr> else q2);
     let q4 = q3\<lparr>task_end := Some a\<rparr>;
     n \<leftarrow> deref q4 (Some a);
     if is_control_task (tn_type n) then
       if sub_q q4 = None \<and> sub_end q4 = None
       then Some (q4\<lparr>sub_q := Some a, sub_end := Some a\<rparr>)
       else do {
         q5 \<leftarrow> upd (Some a) (\<lambda>n. n\<lparr>tn_ctl := sub_end q4\<rparr>) q4;
         Some (q5\<lparr>sub_end := Some a\<rparr>)
       }
     else Some q4
   }"

text \<open>The three ways \<open>get_task\<close> takes the node \<open>sub_end\<close> out of the doubly linked queue.\<close>

definition unlink_middle :: "nat option \<Rightarrow> tq \<Rightarrow> tq option" where
  "unlink_middle p q0 = do {
     n \<leftarrow> deref q0 p;
     q1 \<leftarrow> upd (tn_prev n) (\<lambda>m. m\<lparr>tn_next := tn_next n\<rparr>) q0;
     upd (tn_next n) (\<lambda>m. m\<lparr>tn_prev := tn_prev n\<rparr>) q1
   }"

definition pop_end :: "tq \<Rightarrow> tq option" where
  "pop_end q = do { n \<leftarrow> deref q (task_end q); Some (q\<lparr>task_end := tn_prev n\<rparr>) }"

definition pop_begin :: "tq \<Rightarrow> tq option" where
  "pop_begin q0 = do {
     n \<leftarrow> deref q0 (task_q q0);
     let q1 = q0\<lparr>task_q := tn_next n\<rparr>;
     upd (task_q q1) (\<lambda>m. m\<lparr>tn_prev := None\<rparr>) q1
   }"

definition get_task_ptr :: "tq \<Rightarrow> (nat option \<times> tq) option" where
  "get_task_ptr q0 =
     (if sub_end q0 \<noteq> None then
        let tmp = sub_end q0 in
        if sub_end q0 = sub_q q0 then do {
          q1 \<leftarrow>
            (if task_end q0 = task_q q0 \<and> task_end q0 = sub_end q0
             then Some (q0\<lparr>task_q := None, task_end := None\<rparr>)
             else if task_end q0 = sub_end q0 then pop_end q0
             else if task_q q0 = sub_q q0 then pop_begin q0
             else unlink_middle tmp q0);
          Some (tmp, q1\<lparr>sub_q := None, sub_end := None\<rparr>)
        }
        else do {
          q1 \<leftarrow> (if task_end q0 = sub_end q0 then pop_end q0 else unlink_middle tmp q0);
          n \<leftarrow> deref q1 (sub_end q1);
          Some (tmp, q1\<lparr>sub_end := tn_ctl n\<rparr>)
        }
      else if task_end q0 \<noteq> None then
        let tmp = task_end q0 in
        if task_end q0 = task_q q0 then Some (tmp, q0\<lparr>task_q := None, task_end := None\<rparr>)
        else do { q1 \<leftarrow> pop_end q0; Some (tmp, q1) }
      else Some (None, q0))"

text \<open>
  \<open>kfree\<close> of a node takes it out of the heap. \<open>cleanup_task_queue\<close> follows \<open>next\<close> from \<open>task_q\<close>
  and frees every node it reaches: \<open>None\<close> would be a walk without end, \<open>Inl\<close> is the touch of
  a node that is not allocated.
\<close>

datatype fault = Use_after_free

definition kfree_task :: "nat \<Rightarrow> tq \<Rightarrow> tq" where
  "kfree_task a q = q\<lparr>tq_heap := (tq_heap q)(a := None)\<rparr>"

partial_function (option) free_chain :: "nat option \<Rightarrow> tq \<Rightarrow> (fault + tq) option" where
  "free_chain p q =
     (case p of
        None \<Rightarrow> Some (Inr q)
      | Some a \<Rightarrow>
          (case tq_heap q a of
             None \<Rightarrow> Some (Inl Use_after_free)
           | Some n \<Rightarrow> free_chain (tn_next n) (kfree_task a q)))"

definition cleanup_task_queue_ptr :: "tq \<Rightarrow> (fault + tq) option" where
  "cleanup_task_queue_ptr q = free_chain (task_q q) (q\<lparr>task_q := None\<rparr>)"

fun run_ptr :: "nat qop list \<Rightarrow> tq \<Rightarrow> nat option list option" where
  "run_ptr [] q = Some []"
| "run_ptr (Enq a # ops) q = Option.bind (queue_aodv_task_ptr a q) (run_ptr ops)"
| "run_ptr (EnqFront a # ops) q = Option.bind (queue_control_task_at_front_ptr a q) (run_ptr ops)"
| "run_ptr (Deq # ops) q =
     Option.bind (get_task_ptr q) (\<lambda>(r, q'). map_option ((#) r) (run_ptr ops q'))"

section \<open>Refinement\<close>

definition prv :: "tq \<Rightarrow> nat \<Rightarrow> nat option" where
  "prv q a = Option.bind (tq_heap q a) tn_prev"

definition nxt :: "tq \<Rightarrow> nat \<Rightarrow> nat option" where
  "nxt q a = Option.bind (tq_heap q a) tn_next"

definition cpt :: "tq \<Rightarrow> nat \<Rightarrow> nat option" where
  "cpt q a = Option.bind (tq_heap q a) tn_ctl"

definition kind_of :: "tq \<Rightarrow> nat \<Rightarrow> int option" where
  "kind_of q a = map_option tn_type (tq_heap q a)"

lemmas node_fields = prv_def nxt_def cpt_def kind_of_def

definition hd_opt :: "'a list \<Rightarrow> 'a option" where
  "hd_opt xs = (case xs of [] \<Rightarrow> None | x # _ \<Rightarrow> Some x)"

definition last_opt :: "'a list \<Rightarrow> 'a option" where
  "last_opt xs = (if xs = [] then None else Some (last xs))"

lemma hd_opt_simps [simp]: "hd_opt [] = None" "hd_opt (x # xs) = Some x"
  "xs \<noteq> [] \<Longrightarrow> hd_opt (xs @ ys) = hd_opt xs" "hd_opt xs = None \<longleftrightarrow> xs = []"
  by (simp_all add: hd_opt_def split: list.splits)

lemma hd_opt_snoc [simp]: "hd_opt (xs @ x # y # ys) = hd_opt (xs @ [x])"
  by (cases xs) simp_all

lemma last_opt_cons_snoc [simp]: "last_opt (xs @ y # ys) = last_opt (y # ys)"
  by (simp add: last_opt_def)

lemma last_opt_simps [simp]: "last_opt [] = None" "last_opt (xs @ [x]) = Some x"
  "ys \<noteq> [] \<Longrightarrow> last_opt (xs @ ys) = last_opt ys" "last_opt xs = None \<longleftrightarrow> xs = []"
  "xs \<noteq> [] \<Longrightarrow> last_opt (x # xs) = last_opt xs" "last_opt [x] = Some x"
  by (simp_all add: last_opt_def)

text \<open>\<open>linked f as\<close>: the pointer \<open>f\<close> leads from each element of \<open>as\<close> to the next.\<close>

fun linked :: "('a \<Rightarrow> 'a option) \<Rightarrow> 'a list \<Rightarrow> bool" where
  "linked f [] = True"
| "linked f [a] = True"
| "linked f (a # b # xs) = (f a = Some b \<and> linked f (b # xs))"

lemma linked_Cons: "linked f (a # xs) \<longleftrightarrow> (xs \<noteq> [] \<longrightarrow> f a = hd_opt xs) \<and> linked f xs"
  by (cases xs) auto

lemma linked_append:
  "linked f (xs @ ys) \<longleftrightarrow>
     linked f xs \<and> linked f ys \<and> (xs \<noteq> [] \<and> ys \<noteq> [] \<longrightarrow> f (last xs) = hd_opt ys)"
  by (induction xs) (auto simp: linked_Cons)

lemma linked_cong:
  "(\<And>a. a \<in> set (butlast xs) \<Longrightarrow> f a = g a) \<Longrightarrow> linked f xs = linked g xs"
proof (induction xs)
  case (Cons x xs)
  then show ?case by (cases xs) auto
qed simp

lemma linked_upd_last:
  "distinct (xs @ [a]) \<Longrightarrow> linked (f(a := v)) (xs @ [a]) = linked f (xs @ [a])"
  by (rule linked_cong) auto

lemma linked_upd_notin: "a \<notin> set xs \<Longrightarrow> linked (f(a := v)) xs = linked f xs"
  by (rule linked_cong) (auto dest: in_set_butlastD)

text \<open>
  The queue proper, and the chain of control tasks through it. \<open>\<tau>\<close> gives the type of the
  task at an address. Nothing is said of \<open>next\<close> at the end that is served first: the code
  leaves a stale pointer there.
\<close>

definition q_core :: "(nat \<Rightarrow> int) \<Rightarrow> tq \<Rightarrow> nat list \<Rightarrow> bool" where
  "q_core \<tau> q as \<longleftrightarrow>
     distinct as \<and> (\<forall>a\<in>set as. kind_of q a = Some (\<tau> a)) \<and>
     task_end q = hd_opt as \<and> task_q q = last_opt as \<and>
     linked (prv q) as \<and> linked (nxt q) (rev as)"

definition q_sub :: "tq \<Rightarrow> nat list \<Rightarrow> bool" where
  "q_sub q cs \<longleftrightarrow> sub_end q = hd_opt cs \<and> sub_q q = last_opt cs \<and> linked (cpt q) cs"

abbreviation ctl_at :: "(nat \<Rightarrow> int) \<Rightarrow> nat \<Rightarrow> bool" where
  "ctl_at \<tau> a \<equiv> is_control_task (\<tau> a)"

definition tq_rel :: "(nat \<Rightarrow> int) \<Rightarrow> tq \<Rightarrow> nat list \<Rightarrow> bool" where
  "tq_rel \<tau> q as \<longleftrightarrow> q_core \<tau> q as \<and> q_sub q (filter (ctl_at \<tau>) as)"

definition tq_ready :: "(nat \<Rightarrow> int) \<Rightarrow> tq \<Rightarrow> nat \<Rightarrow> bool" where
  "tq_ready \<tau> q a \<longleftrightarrow> kind_of q a = Some (\<tau> a)"

text \<open>One store through a valid pointer, seen through the field functions.\<close>

lemma upd_fields:
  assumes "kind_of q a = Some t"
  obtains n where "tq_heap q a = Some n" "tn_type n = t"
  using assms by (auto simp: kind_of_def)

lemma upd_both:
  assumes "kind_of q a = Some t"
  shows "\<exists>q'. upd (Some a) (\<lambda>n. n\<lparr>tn_next := x, tn_prev := y\<rparr>) q = Some q' \<and> kind_of q' = kind_of q
     \<and> cpt q' = cpt q \<and> prv q' = (prv q)(a := y) \<and> nxt q' = (nxt q)(a := x)
     \<and> task_q q' = task_q q \<and> task_end q' = task_end q \<and> sub_q q' = sub_q q \<and> sub_end q' = sub_end q"
  using assms by (auto simp: upd_def node_fields fun_eq_iff)

lemma upd_prev:
  assumes "kind_of q a = Some t"
  shows "\<exists>q'. upd (Some a) (\<lambda>n. n\<lparr>tn_prev := y\<rparr>) q = Some q' \<and> kind_of q' = kind_of q
     \<and> cpt q' = cpt q \<and> prv q' = (prv q)(a := y) \<and> nxt q' = nxt q
     \<and> task_q q' = task_q q \<and> task_end q' = task_end q \<and> sub_q q' = sub_q q \<and> sub_end q' = sub_end q"
  using assms by (auto simp: upd_def node_fields fun_eq_iff)

lemma upd_next:
  assumes "kind_of q a = Some t"
  shows "\<exists>q'. upd (Some a) (\<lambda>n. n\<lparr>tn_next := x\<rparr>) q = Some q' \<and> kind_of q' = kind_of q
     \<and> cpt q' = cpt q \<and> prv q' = prv q \<and> nxt q' = (nxt q)(a := x)
     \<and> task_q q' = task_q q \<and> task_end q' = task_end q \<and> sub_q q' = sub_q q \<and> sub_end q' = sub_end q"
  using assms by (auto simp: upd_def node_fields fun_eq_iff)

lemma upd_ctl:
  assumes "kind_of q a = Some t"
  shows "\<exists>q'. upd (Some a) (\<lambda>n. n\<lparr>tn_ctl := p\<rparr>) q = Some q' \<and> kind_of q' = kind_of q
     \<and> cpt q' = (cpt q)(a := p) \<and> prv q' = prv q \<and> nxt q' = nxt q
     \<and> task_q q' = task_q q \<and> task_end q' = task_end q \<and> sub_q q' = sub_q q \<and> sub_end q' = sub_end q"
  using assms by (auto simp: upd_def node_fields fun_eq_iff)

lemma deref_fields:
  assumes "kind_of q a = Some t"
  shows "\<exists>n. deref q (Some a) = Some n \<and> tn_type n = t \<and> tn_prev n = prv q a
     \<and> tn_next n = nxt q a \<and> tn_ctl n = cpt q a"
  using assms by (auto simp: deref_def node_fields)

lemma anchors [simp]:
  "kind_of (q\<lparr>task_q := x\<rparr>) = kind_of q" "kind_of (q\<lparr>task_end := x\<rparr>) = kind_of q"
  "kind_of (q\<lparr>sub_q := x\<rparr>) = kind_of q" "kind_of (q\<lparr>sub_end := x\<rparr>) = kind_of q"
  "prv (q\<lparr>task_q := x\<rparr>) = prv q" "prv (q\<lparr>task_end := x\<rparr>) = prv q"
  "prv (q\<lparr>sub_q := x\<rparr>) = prv q" "prv (q\<lparr>sub_end := x\<rparr>) = prv q"
  "nxt (q\<lparr>task_q := x\<rparr>) = nxt q" "nxt (q\<lparr>task_end := x\<rparr>) = nxt q"
  "nxt (q\<lparr>sub_q := x\<rparr>) = nxt q" "nxt (q\<lparr>sub_end := x\<rparr>) = nxt q"
  "cpt (q\<lparr>task_q := x\<rparr>) = cpt q" "cpt (q\<lparr>task_end := x\<rparr>) = cpt q"
  "cpt (q\<lparr>sub_q := x\<rparr>) = cpt q" "cpt (q\<lparr>sub_end := x\<rparr>) = cpt q"
  by (simp_all add: node_fields fun_eq_iff)

lemma q_sub_append_ctl:
  assumes "q_sub q cs" "cs \<noteq> []" "distinct (cs @ [a])"
    and "cpt q' = (cpt q)(last cs := Some a)" "sub_end q' = sub_end q" "sub_q q' = Some a"
  shows "q_sub q' (cs @ [a])"
proof -
  have "linked (cpt q') cs"
    using assms linked_upd_last [of "butlast cs" "last cs" "cpt q"] by (simp add: q_sub_def)
  then show ?thesis using assms by (simp add: q_sub_def linked_append)
qed

lemma queue_aodv_task_refines:
  assumes rel: "tq_rel \<tau> q as" and ready: "tq_ready \<tau> q a" and new: "a \<notin> set as"
  shows "\<exists>q'. queue_aodv_task_ptr a q = Some q' \<and> tq_rel \<tau> q' (as @ [a])
     \<and> tq_ready \<tau> q' = tq_ready \<tau> q"
proof -
  let ?cs = "filter (ctl_at \<tau>) as"
  from rel have core: "q_core \<tau> q as" and sub: "q_sub q ?cs" by (simp_all add: tq_rel_def)
  have ka: "kind_of q a = Some (\<tau> a)" using ready by (simp add: tq_ready_def)
  obtain q1 where q1: "upd (Some a) (\<lambda>n. n\<lparr>tn_next := task_q q, tn_prev := None\<rparr>) q = Some q1"
    "kind_of q1 = kind_of q" "cpt q1 = cpt q" "prv q1 = (prv q)(a := None)"
    "nxt q1 = (nxt q)(a := task_q q)" "task_q q1 = task_q q" "task_end q1 = task_end q"
    "sub_q q1 = sub_q q" "sub_end q1 = sub_end q"
    using upd_both [OF ka] by blast
  obtain q2 where q2: "(if task_q q1 \<noteq> None then upd (task_q q1) (\<lambda>n. n\<lparr>tn_prev := Some a\<rparr>) q1
        else Some q1) = Some q2"
    "kind_of q2 = kind_of q" "cpt q2 = cpt q" "nxt q2 = nxt q1"
    "prv q2 = (if as = [] then prv q1 else (prv q1)(last as := Some a))"
    "task_q q2 = task_q q" "task_end q2 = task_end q" "sub_q q2 = sub_q q" "sub_end q2 = sub_end q"
  proof (cases "as = []")
    case True
    with that [of q1] core q1 show ?thesis by (simp add: q_core_def)
  next
    case False
    then have "kind_of q1 (last as) = Some (\<tau> (last as))" using core q1(2) by (simp add: q_core_def)
    from upd_prev [OF this, of "Some a"]
    show ?thesis using that core q1 False by (auto simp: q_core_def last_opt_def)
  qed
  define q4 where "q4 = (if task_end q2 = None then q2\<lparr>task_end := Some a\<rparr> else q2)\<lparr>task_q := Some a\<rparr>"
  have q4: "kind_of q4 = kind_of q" "cpt q4 = cpt q" "nxt q4 = nxt q2" "prv q4 = prv q2"
    "sub_q q4 = sub_q q" "sub_end q4 = sub_end q"
    using q2 by (simp_all add: q4_def)
  have core4: "q_core \<tau> q4 (as @ [a])"
  proof (cases as rule: rev_cases)
    case Nil
    with core ka q1 q2 show ?thesis by (simp add: q_core_def q4_def)
  next
    case (snoc ys l)
    have pr: "linked (prv q4) (ys @ [l])"
      using core new q4 q2 q1 snoc linked_upd_last [of ys l "(prv q)(a := None)"]
      by (simp add: q_core_def linked_upd_notin)
    have nx: "linked (nxt q4) (l # rev ys)"
      using core new q4 q2 q1 snoc by (simp add: q_core_def linked_upd_notin)
    have "task_end q4 = hd_opt as" "task_q q4 = Some a" "prv q4 l = Some a" "nxt q4 a = Some l"
      using core q4 q2 q1 new snoc by (simp_all add: q4_def q_core_def)
    with pr nx show ?thesis
      using core ka new q4(1) snoc by (simp add: q_core_def linked_append linked_Cons)
  qed
  obtain n where n: "deref q4 (Some a) = Some n" "tn_type n = \<tau> a"
    using deref_fields [of q4 a "\<tau> a"] ka q4 by auto
  have step: "queue_aodv_task_ptr a q =
     (if ctl_at \<tau> a then
        if sub_q q4 = None \<and> sub_end q4 = None then Some (q4\<lparr>sub_q := Some a, sub_end := Some a\<rparr>)
        else Option.bind (upd (sub_q q4) (\<lambda>n. n\<lparr>tn_ctl := Some a\<rparr>) q4) (\<lambda>q5. Some (q5\<lparr>sub_q := Some a\<rparr>))
      else Some q4)"
    using q1(1) q2(1) n by (simp add: queue_aodv_task_ptr_def q4_def Let_def)
  show ?thesis
  proof (cases "ctl_at \<tau> a")
    case False
    with step core4 sub q4 show ?thesis by (auto simp: tq_rel_def q_sub_def tq_ready_def [abs_def])
  next
    case True
    show ?thesis
    proof (cases "?cs = []")
      case Nil: True
      with True step core4 sub q4 show ?thesis
        by (auto simp: tq_rel_def q_sub_def q_core_def tq_ready_def [abs_def])
    next
      case False
      then have "kind_of q4 (last ?cs) = Some (\<tau> (last ?cs))"
        using core q4(1) last_in_set [OF False] by (auto simp: q_core_def)
      then obtain q5 where q5: "upd (Some (last ?cs)) (\<lambda>n. n\<lparr>tn_ctl := Some a\<rparr>) q4 = Some q5"
        "kind_of q5 = kind_of q4" "cpt q5 = (cpt q4)(last ?cs := Some a)" "prv q5 = prv q4"
        "nxt q5 = nxt q4" "task_q q5 = task_q q4" "task_end q5 = task_end q4"
        "sub_q q5 = sub_q q4" "sub_end q5 = sub_end q4"
        using upd_ctl by blast
      have "q_sub (q5\<lparr>sub_q := Some a\<rparr>) (?cs @ [a])"
        using core new q5 q4 False
        by (intro q_sub_append_ctl [OF sub False]) (auto simp: q_core_def)
      moreover have "q_core \<tau> (q5\<lparr>sub_q := Some a\<rparr>) (as @ [a])"
        using core4 q5 by (simp add: q_core_def)
      moreover have "sub_q q4 = Some (last ?cs)" using sub q4 False by (simp add: q_sub_def last_opt_def)
      ultimately show ?thesis
        using step True q5(1,2) q4(1) by (simp add: tq_rel_def tq_ready_def [abs_def])
    qed
  qed
qed

lemma queue_control_task_at_front_refines:
  assumes rel: "tq_rel \<tau> q as" and ready: "tq_ready \<tau> q a" and new: "a \<notin> set as"
  shows "\<exists>q'. queue_control_task_at_front_ptr a q = Some q' \<and> tq_rel \<tau> q' (a # as)
     \<and> tq_ready \<tau> q' = tq_ready \<tau> q"
proof -
  let ?cs = "filter (ctl_at \<tau>) as"
  from rel have core: "q_core \<tau> q as" and sub: "q_sub q ?cs" by (simp_all add: tq_rel_def)
  have ka: "kind_of q a = Some (\<tau> a)" using ready by (simp add: tq_ready_def)
  obtain q1 where q1: "upd (Some a) (\<lambda>n. n\<lparr>tn_next := None, tn_prev := task_end q\<rparr>) q = Some q1"
    "kind_of q1 = kind_of q" "cpt q1 = cpt q" "prv q1 = (prv q)(a := task_end q)"
    "nxt q1 = (nxt q)(a := None)" "task_q q1 = task_q q" "task_end q1 = task_end q"
    "sub_q q1 = sub_q q" "sub_end q1 = sub_end q"
    using upd_both [OF ka] by blast
  obtain q2 where q2: "(if task_end q1 \<noteq> None then upd (task_end q1) (\<lambda>n. n\<lparr>tn_next := Some a\<rparr>) q1
        else Some q1) = Some q2"
    "kind_of q2 = kind_of q" "cpt q2 = cpt q" "prv q2 = prv q1"
    "nxt q2 = (if as = [] then nxt q1 else (nxt q1)(hd as := Some a))"
    "task_q q2 = task_q q" "task_end q2 = task_end q" "sub_q q2 = sub_q q" "sub_end q2 = sub_end q"
  proof (cases as)
    case Nil
    with that [of q1] core q1 show ?thesis by (simp add: q_core_def)
  next
    case (Cons b bs)
    then have "kind_of q1 b = Some (\<tau> b)" using core q1(2) by (simp add: q_core_def)
    from upd_next [OF this, of "Some a"]
    show ?thesis using that core q1 Cons by (auto simp: q_core_def)
  qed
  define q4 where "q4 = (if task_q q2 = None then q2\<lparr>task_q := Some a\<rparr> else q2)\<lparr>task_end := Some a\<rparr>"
  have q4: "kind_of q4 = kind_of q" "cpt q4 = cpt q" "nxt q4 = nxt q2" "prv q4 = prv q2"
    "sub_q q4 = sub_q q" "sub_end q4 = sub_end q"
    using q2 by (simp_all add: q4_def)
  have core4: "q_core \<tau> q4 (a # as)"
  proof (cases as)
    case Nil
    with core ka q1 q2 show ?thesis by (simp add: q_core_def q4_def)
  next
    case (Cons b bs)
    have pr: "linked (prv q4) (b # bs)"
      using core new q4 q2 q1 Cons by (simp add: q_core_def linked_upd_notin)
    have nx: "linked (nxt q4) (rev bs @ [b])"
      using core new q4 q2 q1 Cons linked_upd_last [of "rev bs" b "(nxt q)(a := None)"]
      by (simp add: q_core_def linked_upd_notin)
    have "task_q q4 = last_opt as" "task_end q4 = Some a" "prv q4 a = Some b" "nxt q4 b = Some a"
      using core q4 q2 q1 new Cons by (simp_all add: q4_def q_core_def)
    with pr nx show ?thesis
      using core ka new q4(1) Cons by (simp add: q_core_def linked_append linked_Cons)
  qed
  obtain n where n: "deref q4 (Some a) = Some n" "tn_type n = \<tau> a"
    using deref_fields [of q4 a "\<tau> a"] ka q4 by auto
  have step: "queue_control_task_at_front_ptr a q =
     (if ctl_at \<tau> a then
        if sub_q q4 = None \<and> sub_end q4 = None then Some (q4\<lparr>sub_q := Some a, sub_end := Some a\<rparr>)
        else Option.bind (upd (Some a) (\<lambda>n. n\<lparr>tn_ctl := sub_end q4\<rparr>) q4)
          (\<lambda>q5. Some (q5\<lparr>sub_end := Some a\<rparr>))
      else Some q4)"
    using q1(1) q2(1) n by (simp add: queue_control_task_at_front_ptr_def q4_def Let_def)
  show ?thesis
  proof (cases "ctl_at \<tau> a")
    case False
    with step core4 sub q4 show ?thesis by (auto simp: tq_rel_def q_sub_def tq_ready_def [abs_def])
  next
    case True
    show ?thesis
    proof (cases "?cs = []")
      case Nil: True
      with True step core4 sub q4 show ?thesis
        by (auto simp: tq_rel_def q_sub_def q_core_def tq_ready_def [abs_def])
    next
      case False
      have "kind_of q4 a = Some (\<tau> a)" using ka q4(1) by simp
      then obtain q5 where q5: "upd (Some a) (\<lambda>n. n\<lparr>tn_ctl := sub_end q4\<rparr>) q4 = Some q5"
        "kind_of q5 = kind_of q4" "cpt q5 = (cpt q4)(a := sub_end q4)" "prv q5 = prv q4"
        "nxt q5 = nxt q4" "task_q q5 = task_q q4" "task_end q5 = task_end q4"
        "sub_q q5 = sub_q q4" "sub_end q5 = sub_end q4"
        using upd_ctl by blast
      have "q_sub (q5\<lparr>sub_end := Some a\<rparr>) (a # ?cs)"
        using sub new q5 q4 False by (simp add: q_sub_def linked_Cons linked_upd_notin)
      moreover have "q_core \<tau> (q5\<lparr>sub_end := Some a\<rparr>) (a # as)"
        using core4 q5 by (simp add: q_core_def)
      moreover have "sub_q q4 \<noteq> None" using sub q4 False by (simp add: q_sub_def)
      ultimately show ?thesis
        using step True q5(1,2) q4(1) by (auto simp: tq_rel_def tq_ready_def [abs_def])
    qed
  qed
qed

text \<open>The chain of control tasks does not see how the queue itself is unlinked.\<close>

definition same_sub :: "tq \<Rightarrow> tq \<Rightarrow> bool" where
  "same_sub q q' \<longleftrightarrow> kind_of q' = kind_of q \<and> cpt q' = cpt q \<and> sub_q q' = sub_q q \<and> sub_end q' = sub_end q"

lemma pop_end_core:
  assumes core: "q_core \<tau> q (a # ys)" and ne: "ys \<noteq> []"
  shows "\<exists>q'. pop_end q = Some q' \<and> q_core \<tau> q' ys \<and> same_sub q q'"
proof -
  have ka: "kind_of q a = Some (\<tau> a)" and te: "task_end q = Some a"
    using core by (simp_all add: q_core_def)
  obtain n where n: "deref q (Some a) = Some n" "tn_prev n = prv q a"
    using deref_fields [OF ka] by blast
  have "prv q a = hd_opt ys" using core ne by (simp add: q_core_def linked_Cons)
  with n te core ne show ?thesis
    by (simp add: pop_end_def same_sub_def q_core_def linked_Cons linked_append)
qed

lemma pop_begin_core:
  assumes core: "q_core \<tau> q (xs @ [a])" and ne: "xs \<noteq> []"
  shows "\<exists>q'. pop_begin q = Some q' \<and> q_core \<tau> q' xs \<and> same_sub q q'"
proof -
  obtain ys l where xs: "xs = ys @ [l]" using ne by (cases xs rule: rev_cases) auto
  have ka: "kind_of q a = Some (\<tau> a)" and tl: "task_q q = Some a"
    using core by (simp_all add: q_core_def)
  obtain n where n: "deref q (Some a) = Some n" "tn_next n = nxt q a"
    using deref_fields [OF ka] by blast
  have nx: "nxt q a = Some l" using core xs by (simp add: q_core_def)
  have "kind_of (q\<lparr>task_q := Some l\<rparr>) l = Some (\<tau> l)" using core xs by (simp add: q_core_def)
  then obtain q' where q': "upd (Some l) (\<lambda>n. n\<lparr>tn_prev := None\<rparr>) (q\<lparr>task_q := Some l\<rparr>) = Some q'"
    "kind_of q' = kind_of q" "cpt q' = cpt q" "prv q' = (prv q)(l := None)" "nxt q' = nxt q"
    "task_q q' = Some l" "task_end q' = task_end q" "sub_q q' = sub_q q" "sub_end q' = sub_end q"
    using upd_prev by fastforce
  have "linked (prv q') (ys @ [l])"
    using core q'(4) xs linked_upd_last [of ys l "prv q"] by (simp add: q_core_def linked_append)
  with n nx tl q' core xs show ?thesis
    by (simp add: pop_begin_def same_sub_def q_core_def linked_append linked_Cons Let_def)
qed

lemma unlink_middle_core:
  assumes core: "q_core \<tau> q (xs @ a # ys)" and ne: "xs \<noteq> []" "ys \<noteq> []"
  shows "\<exists>q'. unlink_middle (Some a) q = Some q' \<and> q_core \<tau> q' (xs @ ys) \<and> same_sub q q'"
proof -
  obtain us l where xs: "xs = us @ [l]" using ne(1) by (cases xs rule: rev_cases) auto
  obtain h vs where ys: "ys = h # vs" using ne(2) by (cases ys) auto
  have ka: "kind_of q a = Some (\<tau> a)" using core by (simp add: q_core_def)
  obtain n where n: "deref q (Some a) = Some n" "tn_prev n = prv q a" "tn_next n = nxt q a"
    using deref_fields [OF ka] by blast
  have pn: "prv q a = Some h" "nxt q a = Some l"
    using core xs ys by (simp_all add: q_core_def linked_append)
  have "kind_of q h = Some (\<tau> h)" using core ys by (simp add: q_core_def)
  then obtain q1 where q1: "upd (Some h) (\<lambda>m. m\<lparr>tn_next := Some l\<rparr>) q = Some q1"
    "kind_of q1 = kind_of q" "cpt q1 = cpt q" "prv q1 = prv q" "nxt q1 = (nxt q)(h := Some l)"
    "task_q q1 = task_q q" "task_end q1 = task_end q" "sub_q q1 = sub_q q" "sub_end q1 = sub_end q"
    using upd_next by blast
  have "kind_of q1 l = Some (\<tau> l)" using core q1(2) xs by (simp add: q_core_def)
  then obtain q2 where q2: "upd (Some l) (\<lambda>m. m\<lparr>tn_prev := Some h\<rparr>) q1 = Some q2"
    "kind_of q2 = kind_of q" "cpt q2 = cpt q" "prv q2 = (prv q)(l := Some h)"
    "nxt q2 = (nxt q)(h := Some l)" "task_q q2 = task_q q" "task_end q2 = task_end q"
    "sub_q q2 = sub_q q" "sub_end q2 = sub_end q"
    using upd_prev q1 by metis
  have d: "distinct (us @ [l]) " "distinct (rev vs @ [h])" "l \<notin> set (h # vs)" "h \<notin> set (us @ [l])"
    using core xs ys by (auto simp: q_core_def)
  have "linked (prv q2) (us @ [l])" "linked (nxt q2) (rev vs @ [h])"
    using core xs ys q2(4,5) linked_upd_last [OF d(1), of "prv q"] linked_upd_last [OF d(2), of "nxt q"]
    by (simp_all add: q_core_def linked_append)
  moreover have "linked (prv q2) (h # vs)" "linked (nxt q2) (l # rev us)"
    using core xs ys q2(4,5) d(3,4) linked_upd_notin [of l "h # vs" "prv q"]
      linked_upd_notin [of h "l # rev us" "nxt q"]
    by (simp_all add: q_core_def linked_append linked_Cons)
  ultimately have "q_core \<tau> q2 (xs @ ys)"
    using core xs ys q2 by (simp add: q_core_def linked_append linked_Cons)
  with n pn q1(1) q2 show ?thesis by (simp add: unlink_middle_def same_sub_def)
qed

lemma q_core_anchors [simp]:
  "q_core \<tau> (q\<lparr>sub_q := x\<rparr>) = q_core \<tau> q" "q_core \<tau> (q\<lparr>sub_end := x\<rparr>) = q_core \<tau> q"
  by (simp_all add: q_core_def fun_eq_iff)

lemma q_core_end_neq_begin:
  "q_core \<tau> q (a # ys) \<Longrightarrow> ys \<noteq> [] \<Longrightarrow> task_end q \<noteq> task_q q"
  by (auto simp: q_core_def last_opt_def)

lemma get_task_plain:
  assumes core: "q_core \<tau> q as" and sub: "q_sub q []" and no: "\<forall>x\<in>set as. \<not> ctl_at \<tau> x"
  shows "\<exists>q'. get_task_ptr q = Some (fst (dequeue (ctl_at \<tau>) as), q')
     \<and> tq_rel \<tau> q' (snd (dequeue (ctl_at \<tau>) as)) \<and> kind_of q' = kind_of q"
proof (cases as)
  case Nil
  with core sub show ?thesis by (simp add: get_task_ptr_def q_core_def q_sub_def tq_rel_def)
next
  case (Cons a ys)
  have dq: "dequeue (ctl_at \<tau>) as = (Some a, ys)" using no Cons by (simp add: dequeue_plain)
  have nosub: "filter (ctl_at \<tau>) ys = []" using no Cons by simp
  show ?thesis
  proof (cases "ys = []")
    case True
    with core sub Cons dq show ?thesis
      by (simp add: get_task_ptr_def q_core_def q_sub_def tq_rel_def)
  next
    case False
    obtain q' where "pop_end q = Some q'" "q_core \<tau> q' ys" "same_sub q q'"
      using pop_end_core core Cons False by blast
    moreover have "task_end q = Some a" using core Cons by (simp add: q_core_def)
    ultimately show ?thesis
      using core sub Cons dq False nosub q_core_end_neq_begin [of \<tau> q a ys]
      by (simp add: get_task_ptr_def q_sub_def tq_rel_def same_sub_def)
  qed
qed

lemma get_task_single_control:
  assumes core: "q_core \<tau> q (xs @ c # ys)" and sub: "q_sub q [c]"
  shows "\<exists>q'. get_task_ptr q = Some (Some c, q') \<and> q_core \<tau> q' (xs @ ys) \<and> q_sub q' [] \<and> kind_of q' = kind_of q"
proof -
  have anch: "sub_end q = Some c" "sub_q q = Some c" using sub by (simp_all add: q_sub_def)
  have d: "distinct (xs @ c # ys)" using core by (simp add: q_core_def)
  have te: "task_end q = hd_opt (xs @ c # ys)" "task_q q = last_opt (c # ys)"
    using core by (simp_all add: q_core_def)
  show ?thesis
  proof (cases xs)
    case Nil
    show ?thesis
    proof (cases "ys = []")
      case True
      with Nil core anch te show ?thesis by (simp add: get_task_ptr_def q_core_def q_sub_def)
    next
      case False
      obtain q' where "pop_end q = Some q'" "q_core \<tau> q' ys" "same_sub q q'"
        using pop_end_core core Nil False by fastforce
      moreover have "c \<noteq> last ys" using d last_in_set [OF False] by auto
      ultimately show ?thesis
        using Nil anch te False by (simp add: get_task_ptr_def same_sub_def q_sub_def last_opt_def)
    qed
  next
    case (Cons b bs)
    have ne: "task_end q \<noteq> Some c" using te Cons d by auto
    show ?thesis
    proof (cases "ys = []")
      case True
      obtain q' where "pop_begin q = Some q'" "q_core \<tau> q' xs" "same_sub q q'"
        using pop_begin_core [of \<tau> q xs c] core True Cons by auto
      then show ?thesis
        using anch te True ne by (simp add: get_task_ptr_def same_sub_def q_sub_def)
    next
      case False
      obtain q' where "unlink_middle (Some c) q = Some q'" "q_core \<tau> q' (xs @ ys)" "same_sub q q'"
        using unlink_middle_core [of \<tau> q xs c ys] core False Cons by auto
      moreover have "task_q q \<noteq> Some c" using te False d last_in_set [OF False] by (auto simp: last_opt_def)
      ultimately show ?thesis
        using anch ne by (auto simp: get_task_ptr_def same_sub_def q_sub_def)
    qed
  qed
qed

lemma get_task_more_control:
  assumes core: "q_core \<tau> q (xs @ c # ys)" and sub: "q_sub q (c # cs)" and cs: "cs \<noteq> []" "set cs \<subseteq> set ys"
  shows "\<exists>q'. get_task_ptr q = Some (Some c, q') \<and> q_core \<tau> q' (xs @ ys) \<and> q_sub q' cs \<and> kind_of q' = kind_of q"
proof -
  have d: "distinct (xs @ c # ys)" using core by (simp add: q_core_def)
  have anch: "sub_end q = Some c" "sub_q q = Some (last cs)"
    using sub cs(1) by (simp_all add: q_sub_def last_opt_def)
  have "last cs \<in> set ys" using cs last_in_set by blast
  then have ne: "last cs \<noteq> c" using d by auto
  have ys: "ys \<noteq> []" using cs by auto
  have te: "task_end q = hd_opt (xs @ c # ys)" using core by (simp add: q_core_def)
  have kc: "kind_of q c = Some (\<tau> c)" using core by (simp add: q_core_def)
  have cc: "cpt q c = hd_opt cs" using sub cs(1) by (simp add: q_sub_def linked_Cons)
  obtain q' where q': "(if task_end q = sub_end q then pop_end q else unlink_middle (sub_end q) q) = Some q'"
    "q_core \<tau> q' (xs @ ys)" "same_sub q q'"
  proof (cases xs)
    case Nil
    with that te anch pop_end_core [of \<tau> q c ys] core ys show ?thesis by auto
  next
    case (Cons b bs)
    with that te anch d unlink_middle_core [of \<tau> q xs c ys] core ys show ?thesis by auto
  qed
  obtain n where "deref q' (Some c) = Some n" "tn_ctl n = hd_opt cs"
    using deref_fields [of q' c "\<tau> c"] q'(3) kc cc by (auto simp: same_sub_def)
  moreover have "linked (cpt q) cs" using sub cs(1) by (simp add: q_sub_def linked_Cons)
  moreover have "get_task_ptr q = do {
      q1 \<leftarrow> (if task_end q = sub_end q then pop_end q else unlink_middle (sub_end q) q);
      n \<leftarrow> deref q1 (sub_end q1);
      Some (Some c, q1\<lparr>sub_end := tn_ctl n\<rparr>)
    }"
    using anch ne by (simp add: get_task_ptr_def Let_def)
  ultimately show ?thesis
    using q' anch cs(1) by (simp add: q_sub_def same_sub_def last_opt_def)
qed

lemma get_task_refines:
  assumes "tq_rel \<tau> q as"
  shows "\<exists>q'. get_task_ptr q = Some (fst (dequeue (ctl_at \<tau>) as), q')
     \<and> tq_rel \<tau> q' (snd (dequeue (ctl_at \<tau>) as)) \<and> kind_of q' = kind_of q"
proof (cases "\<exists>x\<in>set as. ctl_at \<tau> x")
  case False
  with assms get_task_plain show ?thesis by (simp add: tq_rel_def filter_empty_conv)
next
  case True
  then obtain xs c ys where as: "as = xs @ c # ys" and c: "ctl_at \<tau> c" and xs: "\<forall>x\<in>set xs. \<not> ctl_at \<tau> x"
    using split_list_first_prop [OF True] by blast
  let ?cs = "filter (ctl_at \<tau>) ys"
  have f: "filter (ctl_at \<tau>) (xs @ c # ys) = c # ?cs" "filter (ctl_at \<tau>) (xs @ ys) = ?cs"
    using c xs by simp_all
  have core: "q_core \<tau> q (xs @ c # ys)" and sub: "q_sub q (c # ?cs)"
    using assms as f by (simp_all add: tq_rel_def)
  have "\<exists>q'. get_task_ptr q = Some (Some c, q') \<and> q_core \<tau> q' (xs @ ys) \<and> q_sub q' ?cs
     \<and> kind_of q' = kind_of q"
  proof (cases "?cs = []")
    case True
    with get_task_single_control [OF core] sub show ?thesis by simp
  next
    case False
    with core sub get_task_more_control [of \<tau> q xs c ys ?cs] show ?thesis by auto
  qed
  with as f dequeue_control [of xs "ctl_at \<tau>" c ys] xs c show ?thesis by (simp add: tq_rel_def)
qed

lemma tq_ready_cong: "kind_of q' = kind_of q \<Longrightarrow> tq_ready \<tau> q' = tq_ready \<tau> q"
  by (simp add: tq_ready_def [abs_def])

interpretation tq: control_queue "tq_rel \<tau>" "ctl_at \<tau>" "tq_ready \<tau>"
    queue_aodv_task_ptr queue_control_task_at_front_ptr get_task_ptr for \<tau>
proof (unfold_locales, goal_cases)
  case (1 q as a)
  then show ?case by (rule queue_aodv_task_refines)
next
  case (2 q as a)
  then show ?case by (rule queue_control_task_at_front_refines)
next
  case (3 q as)
  then show ?case using get_task_refines [of \<tau> q as] tq_ready_cong by blast
qed

lemma run_ptr_eq: "run_ptr ops q = tq.run ops q"
proof (induction ops arbitrary: q)
  case (Cons op ops)
  then have "run_ptr ops = tq.run ops" by (simp add: fun_eq_iff)
  then show ?case by (cases op) simp_all
qed simp

lemma tq_rel_init: "tq_rel \<tau> (init_task_queue q) []"
  by (simp add: tq_rel_def q_core_def q_sub_def init_task_queue_def)

lemma tq_ready_init [simp]: "tq_ready \<tau> (init_task_queue q) a \<longleftrightarrow> kind_of q a = Some (\<tau> a)"
  by (simp add: tq_ready_def kind_of_def init_task_queue_def)

lemma spec_run_enq: "spec_run ctl (map Enq ys @ ops) xs = spec_run ctl ops (xs @ ys)"
  by (induction ys arbitrary: xs) simp_all

lemma spec_run_drain:
  "n = length xs \<Longrightarrow>
     spec_run ctl (replicate n Deq) xs = map Some (filter ctl xs @ filter (\<lambda>a. \<not> ctl a) xs)"
proof (induction n arbitrary: xs)
  case (Suc n)
  obtain r ys where d: "dequeue ctl xs = (r, ys)" by fastforce
  then obtain x where x: "r = Some x" using Suc.prems dequeue_None_iff [of ctl xs] by (cases r) auto
  have "length xs = Suc (length ys)"
    using dequeue_mset d x by (metis size_add_mset size_mset)
  then show ?case
    using Suc d x dequeue_filter [of ctl xs x ys] by simp
qed simp

lemma ops_ok_deq: "ops_ok ctl (replicate n Deq) xs"
  by (induction n arbitrary: xs) simp_all

lemma ops_ok_enq: "distinct (xs @ ys) \<Longrightarrow> ops_ok ctl (map Enq ys @ replicate n Deq) xs"
  by (induction ys arbitrary: xs) (simp_all add: ops_ok_deq)

text \<open>
  C17: whatever tasks are queued, at either end, and served, in any order, the linked queue of
  \<open>task_queue.c\<close> never follows a bad pointer and returns what the specification returns:
  the oldest control task, or the oldest task when no control task waits.
\<close>

theorem task_queue_trace:
  assumes "ops_ok (\<lambda>a. is_control_task (\<tau> a)) ops []"
    and "\<forall>x. Enq x \<in> set ops \<or> EnqFront x \<in> set ops \<longrightarrow> kind_of q x = Some (\<tau> x)"
  shows "run_ptr ops (init_task_queue q) = Some (spec_run (\<lambda>a. is_control_task (\<tau> a)) ops [])"
  using tq.run_refines [OF tq_rel_init assms(1), of q] assms(2) by (simp add: run_ptr_eq)

definition sample_heap :: tq where
  "sample_heap =
     \<lparr>tq_heap = [10 \<mapsto> \<lparr>tn_type = TASK_SEND_ETT, tn_next = None, tn_prev = None, tn_ctl = None\<rparr>,
                20 \<mapsto> \<lparr>tn_type = TASK_HELLO, tn_next = None, tn_prev = None, tn_ctl = None\<rparr>,
                30 \<mapsto> \<lparr>tn_type = TASK_RECV_RREQ, tn_next = None, tn_prev = None, tn_ctl = None\<rparr>],
      task_q = None, task_end = None, sub_q = None, sub_end = None\<rparr>"

abbreviation sample_type :: "nat \<Rightarrow> int" where
  "sample_type a \<equiv> (if a = 10 then TASK_SEND_ETT else if a = 20 then TASK_HELLO else TASK_RECV_RREQ)"

lemma task_queue_trace_witness:
  "run_ptr [Enq 10, Enq 20, Deq, EnqFront 30, Deq, Deq, Deq] (init_task_queue sample_heap)
     = Some [Some 20, Some 30, Some 10, None]"
  using task_queue_trace [of sample_type "[Enq 10, Enq 20, Deq, EnqFront 30, Deq, Deq, Deq]" sample_heap]
  by (simp add: sample_heap_def kind_of_def is_control_task_def dequeue_def del: run_ptr.simps)

text \<open>
  A queue filled in the order \<open>as\<close> is emptied with every control task first, and within
  the control tasks and within the others in the order they came: nothing is lost,
  duplicated or starved.
\<close>

theorem task_queue_drain:
  assumes "distinct as" and "\<forall>a\<in>set as. kind_of q a = Some (\<tau> a)"
  shows "run_ptr (map Enq as @ replicate (length as) Deq) (init_task_queue q)
       = Some (map Some (filter (\<lambda>a. is_control_task (\<tau> a)) as
                         @ filter (\<lambda>a. \<not> is_control_task (\<tau> a)) as))"
proof -
  have "ops_ok (ctl_at \<tau>) (map Enq as @ replicate (length as) Deq) []"
    using assms(1) ops_ok_enq [of "[]" as] by simp
  from tq.run_refines [OF tq_rel_init this, of q] assms(2) show ?thesis
    by (auto simp: run_ptr_eq spec_run_enq spec_run_drain)
qed

lemma task_queue_drain_witness:
  "run_ptr [Enq 10, Enq 20, Enq 30, Deq, Deq, Deq] (init_task_queue sample_heap)
     = Some [Some 20, Some 30, Some 10]"
  using task_queue_drain [of "[10, 20, 30]" sample_heap sample_type]
  by (simp add: sample_heap_def kind_of_def is_control_task_def del: run_ptr.simps)

section \<open>Cleaning the queue up\<close>

lemma free_chain_None [simp]: "free_chain None q = Some (Inr q)"
  by (subst free_chain.simps) simp

lemma free_chain_Some:
  "free_chain (Some a) q = (case tq_heap q a of None \<Rightarrow> Some (Inl Use_after_free)
     | Some n \<Rightarrow> free_chain (tn_next n) (kfree_task a q))"
  by (subst free_chain.simps) simp

lemma nxt_kfree: "b \<noteq> a \<Longrightarrow> nxt (kfree_task a q) b = nxt q b"
  by (simp add: nxt_def kfree_task_def)

lemma free_chain_walk:
  "distinct (c # cs) \<Longrightarrow> \<forall>a\<in>set (c # cs). tq_heap q a \<noteq> None \<Longrightarrow> linked (nxt q) (c # cs) \<Longrightarrow>
     free_chain (Some c) q
     = free_chain (nxt q (last (c # cs))) (q\<lparr>tq_heap := (tq_heap q) |` (- set (c # cs))\<rparr>)"
proof (induction cs arbitrary: c q)
  case Nil
  then show ?case
    by (auto simp: free_chain_Some nxt_def kfree_task_def restrict_map_def fun_eq_iff
        intro!: arg_cong2 [of _ _ _ _ free_chain])
next
  case (Cons d cs)
  let ?q = "kfree_task c q"
  obtain n where n: "tq_heap q c = Some n" using Cons.prems(2) by auto
  have nd: "tn_next n = Some d" using Cons.prems(3) n by (simp add: nxt_def)
  have lk: "linked (nxt ?q) (d # cs)"
  proof -
    have "linked (nxt q) (d # cs)" using Cons.prems(3) by simp
    moreover have "\<And>a. a \<in> set (butlast (d # cs)) \<Longrightarrow> nxt ?q a = nxt q a"
      using Cons.prems(1) by (metis distinct.simps(2) in_set_butlastD nxt_kfree)
    ultimately show ?thesis using linked_cong by metis
  qed
  have "free_chain (Some d) ?q
      = free_chain (nxt ?q (last (d # cs))) (?q\<lparr>tq_heap := (tq_heap ?q) |` (- set (d # cs))\<rparr>)"
    using Cons.prems lk by (intro Cons.IH) (auto simp: kfree_task_def)
  moreover have "nxt ?q (last (d # cs)) = nxt q (last (d # cs))"
    using Cons.prems(1) last_in_set [of "d # cs"] by (intro nxt_kfree) auto
  moreover have "?q\<lparr>tq_heap := (tq_heap ?q) |` (- set (d # cs))\<rparr>
      = q\<lparr>tq_heap := (tq_heap q) |` (- set (c # d # cs))\<rparr>"
    by (auto simp: kfree_task_def restrict_map_def fun_eq_iff)
  ultimately show ?case using n nd by (simp add: free_chain_Some)
qed

lemma cleanup_walk:
  assumes "q_core \<tau> q as" "as \<noteq> []"
  shows "cleanup_task_queue_ptr q
       = free_chain (nxt q (hd as)) (q\<lparr>task_q := None, tq_heap := (tq_heap q) |` (- set as)\<rparr>)"
proof -
  obtain c cs where r: "rev as = c # cs" using assms(2) by (cases "rev as") auto
  have "last as = c" "last (c # cs) = hd as" "set as = set (c # cs)"
    using r assms(2) by (metis hd_rev list.sel(1), metis last_rev, metis set_rev)
  with r assms free_chain_walk [of c cs "q\<lparr>task_q := None\<rparr>"] show ?thesis
    by (auto simp: cleanup_task_queue_ptr_def q_core_def kind_of_def last_opt_def)
qed

lemma restrict_UNIV [simp]: "m |` UNIV = m"
  by (simp add: restrict_map_def)

text \<open>Two probes in the queue, the one at 10 to be served first.\<close>

definition sample_queue :: tq where
  "sample_queue =
     \<lparr>tq_heap = [10 \<mapsto> \<lparr>tn_type = TASK_SEND_ETT, tn_next = None, tn_prev = Some 20, tn_ctl = None\<rparr>,
                20 \<mapsto> \<lparr>tn_type = TASK_SEND_ETT, tn_next = Some 10, tn_prev = None, tn_ctl = None\<rparr>],
      task_q = Some 20, task_end = Some 10, sub_q = None, sub_end = None\<rparr>"

lemma sample_queue_rel: "tq_rel (\<lambda>a. TASK_SEND_ETT) sample_queue [10, 20]"
  by (simp add: tq_rel_def q_core_def q_sub_def sample_queue_def node_fields is_control_task_def)

text \<open>
  When the node that is served first has no \<open>next\<close>, as it has before anything is taken from
  the queue, the clean-up frees every queued task, each once, and touches nothing else.
\<close>

theorem cleanup_task_queue_frees:
  assumes "tq_rel \<tau> q as" and "as \<noteq> [] \<longrightarrow> nxt q (hd as) = None"
  shows "cleanup_task_queue_ptr q
       = Some (Inr (q\<lparr>task_q := None, tq_heap := (tq_heap q) |` (- set as)\<rparr>))"
proof (cases "as = []")
  case True
  with assms(1) have "task_q q = None" by (simp add: tq_rel_def q_core_def)
  with True show ?thesis by (cases q) (simp add: cleanup_task_queue_ptr_def)
next
  case False
  with assms cleanup_walk [of \<tau> q as] show ?thesis by (simp add: tq_rel_def)
qed

lemma cleanup_task_queue_frees_witness:
  "\<exists>q. cleanup_task_queue_ptr sample_queue = Some (Inr q) \<and> tq_heap q = Map.empty"
  using cleanup_task_queue_frees [OF sample_queue_rel]
  by (auto simp: sample_queue_def node_fields restrict_map_def fun_eq_iff)

text \<open>
  Once a task has been served from the end of the queue and freed by the thread, while
  another still waits, the clean-up runs into the freed task: \<open>get_task\<close> does not clear the
  \<open>next\<close> of the new \<open>task_end\<close>.
\<close>

lemma cleanup_after_get_task_faults:
  assumes rel: "tq_rel \<tau> q (a # b # as)" and first: "\<forall>x\<in>set (a # b # as). \<not> is_control_task (\<tau> x)"
  shows "\<exists>q'. get_task_ptr q = Some (Some a, q') \<and>
     cleanup_task_queue_ptr (kfree_task a q') = Some (Inl Use_after_free)"
proof -
  have core: "q_core \<tau> q (a # b # as)" using rel by (simp add: tq_rel_def)
  obtain n where n: "deref q (task_end q) = Some n" "tn_prev n = Some b" and te: "task_end q = Some a"
    using core deref_fields [of q a "\<tau> a"] by (auto simp: q_core_def)
  define q' where "q' = q\<lparr>task_end := Some b\<rparr>"
  have "sub_end q = None" using rel first by (simp add: tq_rel_def q_sub_def)
  moreover have "task_end q \<noteq> task_q q" using q_core_end_neq_begin [OF core] by simp
  ultimately have get: "get_task_ptr q = Some (Some a, q')"
    using n te by (simp add: get_task_ptr_def pop_end_def q'_def)
  let ?q = "kfree_task a q'"
  have stale: "nxt ?q b = Some a"
    using core by (simp add: q_core_def linked_append nxt_kfree q'_def)
  have a: "a \<notin> set (b # as)" using core by (simp add: q_core_def)
  have frame: "\<And>x. x \<in> set (b # as) \<Longrightarrow> nxt ?q x = nxt q x \<and> prv ?q x = prv q x \<and> kind_of ?q x = kind_of q x"
    using a by (auto simp: node_fields kfree_task_def q'_def)
  have "linked (prv ?q) (b # as) = linked (prv q) (b # as)"
    by (rule linked_cong) (use frame in_set_butlastD in metis)
  moreover have "linked (nxt ?q) (rev (b # as)) = linked (nxt q) (rev (b # as))"
    by (rule linked_cong) (use frame in_set_butlastD set_rev in metis)
  ultimately have "q_core \<tau> ?q (b # as)"
    using core frame by (auto simp: q_core_def linked_append linked_Cons kfree_task_def q'_def)
  from cleanup_walk [OF this] stale get show ?thesis
    by (simp add: free_chain_Some kfree_task_def)
qed

lemma cleanup_after_get_task_faults_witness:
  "\<exists>q. get_task_ptr sample_queue = Some (Some 10, q) \<and>
     cleanup_task_queue_ptr (kfree_task 10 q) = Some (Inl Use_after_free)"
  using cleanup_after_get_task_faults [OF sample_queue_rel] by (simp add: is_control_task_def)

section \<open>The task queue of a node\<close>

text \<open>
  In the state of a node the queue is the specification's list. A task that could not be
  allocated is the NULL pointer of \<open>create_task\<close>.
\<close>

definition create_task :: "int \<Rightarrow> node \<Rightarrow> task option \<times> node" where
  "create_task type s =
     (case kmalloc s of
        (None, s) \<Rightarrow> (None, s)
      | (Some _, s) \<Rightarrow>
          (Some \<lparr>tk_type = type, tk_time = currtime s, tk_dst_ip = 0, tk_src_ip = 0, tk_ttl = 0,
                 tk_retries = 0, tk_tos = 0, tk_data = None\<rparr>, s))"

definition queue_aodv_task :: "task \<Rightarrow> node \<Rightarrow> node" where
  "queue_aodv_task t s = s\<lparr>task_queue := task_queue s @ [t]\<rparr>"

definition queue_control_task_at_front :: "task \<Rightarrow> node \<Rightarrow> node" where
  "queue_control_task_at_front t s = s\<lparr>task_queue := t # task_queue s\<rparr>"

definition get_task :: "node \<Rightarrow> task option \<times> node" where
  "get_task s =
     (case dequeue (\<lambda>t. is_control_task (tk_type t)) (task_queue s) of
        (r, q) \<Rightarrow> (r, s\<lparr>task_queue := q\<rparr>))"

text \<open>\<open>ENOMEM\<close> is 12. A packet is its addresses, its TTL and its payload.\<close>

definition insert_task :: "int \<Rightarrow> u32 \<Rightarrow> u32 \<Rightarrow> u8 \<Rightarrow> msg \<Rightarrow> node \<Rightarrow> int \<times> node" where
  "insert_task type saddr daddr ttl payload s =
     (case create_task type s of
        (None, s) \<Rightarrow> (-12, s)
      | (Some t, s) \<Rightarrow>
          (case kmalloc s of
             (None, s) \<Rightarrow> (-12, s)
           | (Some _, s) \<Rightarrow>
               (0, queue_aodv_task
                     (t\<lparr>tk_src_ip := saddr, tk_dst_ip := daddr, tk_ttl := ttl,
                        tk_data := Some payload\<rparr>) s)))"

definition insert_task_at_front :: "task option \<Rightarrow> node \<Rightarrow> int \<times> node" where
  "insert_task_at_front t s =
     (case t of None \<Rightarrow> (-12, s) | Some t \<Rightarrow> (0, queue_control_task_at_front t s))"

definition insert_task_from_timer :: "task option \<Rightarrow> node \<Rightarrow> int \<times> node" where
  "insert_task_from_timer t s =
     (case t of None \<Rightarrow> (-12, s) | Some t \<Rightarrow> (1, queue_aodv_task t s))"

lemma get_task_None: "get_task s = (None, s') \<Longrightarrow> task_queue s = [] \<and> s' = s"
  using dequeue_None_iff [of "\<lambda>t. is_control_task (tk_type t)" "task_queue s"]
  by (auto simp: get_task_def split: prod.splits)

lemma get_task_Some:
  "get_task s = (Some t, s') \<Longrightarrow>
     s' = s\<lparr>task_queue := task_queue s'\<rparr> \<and> mset (task_queue s) = add_mset t (mset (task_queue s'))"
  by (auto simp: get_task_def dequeue_mset split: prod.splits)

end
