(* ===== verification/Timer_Queue.thy ===== *)
theory Timer_Queue
  imports Task_Queue
begin

text \<open>
  The timers of \<open>timer_queue.c\<close>: tasks in the order of their times, compared by the kernel's
  wrap-around comparison, moved to the task queue when they are due. The locale
  \<open>timer_service\<close> is what the protocol relies on when it refreshes a timer by cancelling it
  and arming it again.
\<close>

section \<open>Operations\<close>

definition init_timer_queue :: "node \<Rightarrow> int \<times> node" where
  "init_timer_queue s = (0, s\<lparr>aodv_timer := None, timer_queue := []\<rparr>)"

text \<open>\<open>unsigned long\<close> has 32 bits; \<open>HZ\<close> is the kernel's clock rate.\<close>

definition tvtojiffies :: "u32 \<Rightarrow> u32 \<Rightarrow> u32 \<Rightarrow> u32" where
  "tvtojiffies HZ sec usec =
     (if sec > 0xFFFFFFFF div HZ then 0xFFFFFFFF
      else HZ * sec + (usec + (1000000 div HZ - 1)) div (1000000 div HZ))"

definition first_timer_due :: "u64 \<Rightarrow> node \<Rightarrow> task option \<times> node" where
  "first_timer_due ct s =
     (case timer_queue s of
        [] \<Rightarrow> (None, s)
      | t # ts \<Rightarrow>
          if time_before (tk_time t) ct then (Some t, s\<lparr>timer_queue := ts\<rparr>) else (None, s))"

text \<open>\<open>aodv_timer\<close> is the number of jiffies from now at which the kernel timer was last set.\<close>

definition update_timer_queue :: "node \<Rightarrow> node" where
  "update_timer_queue s =
     (case timer_queue s of
        [] \<Rightarrow> s
      | t # ts \<Rightarrow>
          if time_before (tk_time t) (currtime s)
          then s\<lparr>aodv_timer := Some (tvtojiffies (hz (cfg s)) 0 1)\<rparr>
          else
            (let numerator = tk_time t - currtime s in
             s\<lparr>aodv_timer := Some (tvtojiffies (hz (cfg s)) (ucast (numerator div 1000))
                                      (ucast (numerator mod 1000 * 1000)))\<rparr>))"

lemma first_timer_due_Some:
  "first_timer_due c s = (Some t, s') \<Longrightarrow>
     timer_queue s = t # timer_queue s' \<and> s' = s\<lparr>timer_queue := timer_queue s'\<rparr>"
  by (auto simp: first_timer_due_def split: list.splits if_splits)

function signal_loop :: "u64 \<Rightarrow> node \<Rightarrow> node" where
  "signal_loop ct s =
     (case first_timer_due ct s of
        (None, s) \<Rightarrow> s
      | (Some t, s) \<Rightarrow> signal_loop ct (snd (insert_task_from_timer (Some t) s)))"
  by auto
termination
  by (relation "measure (\<lambda>(c, s). length (timer_queue s))")
    (auto simp: insert_task_from_timer_def queue_aodv_task_def dest: first_timer_due_Some [OF sym])

declare signal_loop.simps [simp del]

definition timer_queue_signal :: "node \<Rightarrow> node" where
  "timer_queue_signal s = update_timer_queue (signal_loop (currtime s) s)"

fun insert_by_time :: "task \<Rightarrow> task list \<Rightarrow> task list" where
  "insert_by_time t [] = [t]"
| "insert_by_time t (x # xs) =
     (if time_after (tk_time t) (tk_time x) then x # insert_by_time t xs else t # x # xs)"

definition queue_timer :: "task \<Rightarrow> node \<Rightarrow> node" where
  "queue_timer t s = s\<lparr>timer_queue := insert_by_time t (timer_queue s)\<rparr>"

text \<open>The task types are constants below 256, so their conversion to \<open>u_int8_t\<close> loses nothing.\<close>

definition insert_timer_simple :: "int \<Rightarrow> u64 \<Rightarrow> u32 \<Rightarrow> node \<Rightarrow> int \<times> node" where
  "insert_timer_simple task_type delay ip s =
     (case create_task task_type s of
        (None, s) \<Rightarrow> (-12, s)
      | (Some t, s) \<Rightarrow>
          (0, queue_timer
                (t\<lparr>tk_src_ip := ip, tk_dst_ip := ip, tk_tos := NO_TOS, tk_time := currtime s + delay\<rparr>) s))"

text \<open>The exponent sign of the source is C's exclusive or.\<close>

definition resend_delay :: "u8 \<Rightarrow> u64" where
  "resend_delay retries = word_of_int ((2 XOR (uint RREQ_RETRIES - uint retries)) * uint NET_TRAVERSAL_TIME)"

definition insert_timer_directional ::
    "int \<Rightarrow> u64 \<Rightarrow> u8 \<Rightarrow> u32 \<Rightarrow> u32 \<Rightarrow> u8 \<Rightarrow> node \<Rightarrow> int \<times> node" where
  "insert_timer_directional task_type delay retries src_ip dst_ip tos s =
     (case create_task task_type s of
        (None, s) \<Rightarrow> (-12, s)
      | (Some t, s) \<Rightarrow>
          let t = t\<lparr>tk_src_ip := src_ip, tk_dst_ip := dst_ip, tk_tos := tos\<rparr>;
              t = (if delay \<noteq> 0 then t\<lparr>tk_time := currtime s + delay\<rparr>
                   else if task_type = TASK_RESEND_RREQ
                   then t\<lparr>tk_retries := ucast retries, tk_ttl := 30,
                          tk_time := currtime s + resend_delay retries\<rparr>
                   else t\<lparr>tk_time := currtime s + delay\<rparr>)
          in (0, queue_timer t s))"

definition find_first_timer_queue_entry :: "node \<Rightarrow> task option" where
  "find_first_timer_queue_entry s = (case timer_queue s of [] \<Rightarrow> None | t # ts \<Rightarrow> Some t)"

definition timer_matches :: "u32 \<Rightarrow> u32 \<Rightarrow> u8 \<Rightarrow> int \<Rightarrow> task \<Rightarrow> bool" where
  "timer_matches src_ip dst_ip tos type t \<longleftrightarrow>
     tk_src_ip t = src_ip \<and> tk_dst_ip t = dst_ip \<and> tk_tos t = tos \<and> tk_type t = type"

definition find_timer :: "u32 \<Rightarrow> u32 \<Rightarrow> u8 \<Rightarrow> int \<Rightarrow> node \<Rightarrow> bool" where
  "find_timer src_ip dst_ip tos type s \<longleftrightarrow> list_ex (timer_matches src_ip dst_ip tos type) (timer_queue s)"

definition delete_timer :: "u32 \<Rightarrow> u32 \<Rightarrow> u8 \<Rightarrow> int \<Rightarrow> node \<Rightarrow> node" where
  "delete_timer src_ip dst_ip tos type s =
     s\<lparr>timer_queue := remove_first (timer_matches src_ip dst_ip tos type) (timer_queue s)\<rparr>"

section \<open>Frames\<close>

text \<open>What the timer operations leave alone; every handler that arms a timer uses these.\<close>

lemma queue_timer_frame [frame_simps]:
  "queue_timer t s = s\<lparr>timer_queue := timer_queue (queue_timer t s)\<rparr>"
  by (simp add: queue_timer_def)

definition timers_only :: "node \<Rightarrow> node \<Rightarrow> bool" where
  "timers_only s s' \<longleftrightarrow>
     s' = s\<lparr>timer_queue := timer_queue s', aodv_timer := aodv_timer s', allocs := allocs s'\<rparr>"

lemma timers_only_refl [simp]: "timers_only s s"
  by (simp add: timers_only_def)

lemma timers_only_trans: "timers_only s t \<Longrightarrow> timers_only t u \<Longrightarrow> timers_only s u"
  unfolding timers_only_def by (cases s; cases t; cases u) simp

lemma timers_only_delete [simp, frame_simps]: "timers_only s (delete_timer a b c d s)"
  by (simp add: timers_only_def delete_timer_def)

lemma timers_only_update [simp, frame_simps]: "timers_only s (update_timer_queue s)"
  by (simp add: timers_only_def update_timer_queue_def Let_def split: list.splits)

lemma timers_only_simple [simp, frame_simps]: "timers_only s (snd (insert_timer_simple a b c s))"
  by (simp add: timers_only_def insert_timer_simple_def create_task_def kmalloc_def queue_timer_def)

lemma timers_only_directional [simp, frame_simps]:
  "timers_only s (snd (insert_timer_directional a b c d e f s))"
  by (simp add: timers_only_def insert_timer_directional_def create_task_def kmalloc_def
      queue_timer_def Let_def)

section \<open>Order of the queue\<close>

definition ins_key :: "('a \<Rightarrow> 'k::linorder) \<Rightarrow> 'a \<Rightarrow> 'a list \<Rightarrow> 'a list" where
  "ins_key key x xs = takeWhile (\<lambda>y. key y < key x) xs @ x # dropWhile (\<lambda>y. key y < key x) xs"

interpretation by_time: ordered_table tk_time "ins_key tk_time"
  by unfold_locales (simp add: ins_key_def)

definition timers_ok :: "u64 \<Rightarrow> node \<Rightarrow> bool" where
  "timers_ok base s \<longleftrightarrow>
     (\<forall>t\<in>set (timer_queue s). in_window base (tk_time t)) \<and> sorted (map tk_time (timer_queue s))"

lemma insert_by_time_window:
  "in_window base (tk_time t) \<Longrightarrow> \<forall>x\<in>set xs. in_window base (tk_time x) \<Longrightarrow>
     insert_by_time t xs = ins_key tk_time t xs"
  by (induction xs) (auto simp: ins_key_def in_window_after)

lemma insert_by_time_mset: "mset (insert_by_time t xs) = add_mset t (mset xs)"
  by (induction xs) auto

lemma set_insert_by_time [simp]: "set (insert_by_time t xs) = insert t (set xs)"
  by (induction xs) auto

lemma filter_insert_by_time:
  "filter P (insert_by_time t xs) = filter P xs" if "\<not> P t"
  using that by (induction xs) auto

lemma length_filter_insert_by_time:
  "length (filter P (insert_by_time t xs)) = length (filter P xs) + (if P t then 1 else 0)"
  by (induction xs) auto

lemma queue_timer_ok [inv_intros]:
  "timers_ok base s \<Longrightarrow> in_window base (tk_time t) \<Longrightarrow> timers_ok base (queue_timer t s)"
  by (simp add: timers_ok_def queue_timer_def insert_by_time_window by_time.sorted_ins)

lemma delete_timer_ok [inv_intros]: "timers_ok base s \<Longrightarrow> timers_ok base (delete_timer a b c d s)"
  by (auto simp: timers_ok_def delete_timer_def sorted_remove_first dest: in_remove_firstD)

lemma update_timer_queue_fields [simp]:
  "timer_queue (update_timer_queue s) = timer_queue s"
  "task_queue (update_timer_queue s) = task_queue s"
  "out (update_timer_queue s) = out s" "now (update_timer_queue s) = now s"
  by (simp_all add: update_timer_queue_def Let_def split: list.split)

lemma signal_loop_queues:
  "signal_loop c s =
     s\<lparr>task_queue := task_queue s @ takeWhile (\<lambda>t. time_before (tk_time t) c) (timer_queue s),
       timer_queue := dropWhile (\<lambda>t. time_before (tk_time t) c) (timer_queue s)\<rparr>"
proof (induction c s rule: signal_loop.induct)
  case (1 c s)
  show ?case
  proof (cases "timer_queue s")
    case Nil
    then show ?thesis by (subst signal_loop.simps) (simp add: first_timer_due_def)
  next
    case (Cons t ts)
    then show ?thesis
      using 1 [of "Some t" "s\<lparr>timer_queue := ts\<rparr>" t]
      by (subst signal_loop.simps)
        (auto simp: first_timer_due_def insert_task_from_timer_def queue_aodv_task_def)
  qed
qed

lemma takeWhile_dropWhile_sorted:
  fixes f :: "'a \<Rightarrow> 'k::linorder"
  assumes "sorted (map f xs)"
  shows "takeWhile (\<lambda>x. f x < c) xs = filter (\<lambda>x. f x < c) xs
    \<and> dropWhile (\<lambda>x. f x < c) xs = filter (\<lambda>x. \<not> f x < c) xs"
  using assms
proof (induction xs)
  case (Cons x xs)
  show ?case
  proof (cases "f x < c")
    case False
    then have "\<forall>y\<in>set xs. \<not> f y < c" using Cons.prems by fastforce
    with False show ?thesis by simp
  qed (use Cons in simp)
qed simp

lemma timer_queue_signal_queues:
  "task_queue (timer_queue_signal s)
     = task_queue s @ takeWhile (\<lambda>t. time_before (tk_time t) (currtime s)) (timer_queue s)"
  "timer_queue (timer_queue_signal s)
     = dropWhile (\<lambda>t. time_before (tk_time t) (currtime s)) (timer_queue s)"
  by (simp_all add: timer_queue_signal_def signal_loop_queues)

lemma take_drop_cong:
  assumes "\<forall>x\<in>set xs. P x = Q x"
  shows "takeWhile P xs = takeWhile Q xs" "dropWhile P xs = dropWhile Q xs"
  using assms by (auto intro: takeWhile_cong dropWhile_cong)

text \<open>
  C24: when the kernel timer fires, exactly the timers whose time has passed become tasks, in
  the order of their times and behind the tasks that wait; every other timer stays armed,
  and the queue stays in order.
\<close>

theorem timer_queue_signal_spec:
  assumes "timers_ok base s" and "in_window base (currtime s)"
  shows "task_queue (timer_queue_signal s)
           = task_queue s @ filter (\<lambda>t. tk_time t < currtime s) (timer_queue s)
       \<and> timer_queue (timer_queue_signal s)
           = filter (\<lambda>t. currtime s \<le> tk_time t) (timer_queue s)
       \<and> timers_ok base (timer_queue_signal s)"
proof -
  have "\<forall>t\<in>set (timer_queue s). time_before (tk_time t) (currtime s) = (tk_time t < currtime s)"
    using assms in_window_before by (auto simp: timers_ok_def)
  from timer_queue_signal_queues [of s] take_drop_cong [OF this]
    takeWhile_dropWhile_sorted [of tk_time "timer_queue s" "currtime s"] assms(1)
  have q: "task_queue (timer_queue_signal s)
           = task_queue s @ filter (\<lambda>t. tk_time t < currtime s) (timer_queue s)"
    "timer_queue (timer_queue_signal s) = filter (\<lambda>t. currtime s \<le> tk_time t) (timer_queue s)"
    by (simp_all add: timers_ok_def not_less)
  moreover have "timers_ok base (timer_queue_signal s)"
    using assms(1) unfolding timers_ok_def q by (auto simp: sorted_filter)
  ultimately show ?thesis by simp
qed

text \<open>One timer that is due at the sample node's time, and one that is not.\<close>

definition sample_task :: "int \<Rightarrow> u64 \<Rightarrow> task" where
  "sample_task type t =
     \<lparr>tk_type = type, tk_time = t, tk_dst_ip = 7, tk_src_ip = 7, tk_ttl = 0, tk_retries = 0,
      tk_tos = 0, tk_data = None\<rparr>"

definition sample_timers :: node where
  "sample_timers =
     sample_node\<lparr>timer_queue := [sample_task TASK_HELLO 99999, sample_task TASK_ST 100000]\<rparr>"

lemma sample_timers_simps:
  "timer_queue sample_timers = [sample_task TASK_HELLO 99999, sample_task TASK_ST 100000]"
  "currtime sample_timers = 100000" "task_queue sample_timers = []"
  by (simp_all add: sample_timers_def sample_node_def getcurrtime_def)

lemma sample_timers_ok: "timers_ok 90000 sample_timers"
  by (simp add: timers_ok_def sample_timers_simps sample_task_def in_window_def)

lemma timer_queue_signal_spec_witness:
  "task_queue (timer_queue_signal sample_timers) = [sample_task TASK_HELLO 99999]
     \<and> timer_queue (timer_queue_signal sample_timers) = [sample_task TASK_ST 100000]"
  using timer_queue_signal_spec [OF sample_timers_ok]
  by (simp add: sample_timers_simps sample_task_def in_window_def)

text \<open>
  Arming a timer keeps the queue in the order of the times, loses no timer, and leaves
  every other timer where it was.
\<close>

lemma queue_timer_sorted:
  assumes "timers_ok base s" and "in_window base (tk_time t)"
  shows "timers_ok base (queue_timer t s)
       \<and> mset (timer_queue (queue_timer t s)) = add_mset t (mset (timer_queue s))
       \<and> filter (\<lambda>x. x \<noteq> t) (timer_queue (queue_timer t s)) = filter (\<lambda>x. x \<noteq> t) (timer_queue s)"
  using queue_timer_ok [OF assms]
  by (simp add: queue_timer_def insert_by_time_mset filter_insert_by_time)

lemma queue_timer_sorted_witness:
  "timers_ok 90000 (queue_timer (sample_task TASK_NEIGHBOR 99999) sample_timers)"
  using queue_timer_sorted [OF sample_timers_ok, of "sample_task TASK_NEIGHBOR 99999"]
  by (simp add: sample_task_def in_window_def)

section \<open>Refreshing a timer\<close>

text \<open>
  Timers of one kind and address are counted. A client that cancels before it arms has one
  timer of the key however often it does so, and does not disturb other keys.
\<close>

locale timer_service =
  fixes count :: "'k \<Rightarrow> 's \<Rightarrow> nat"
    and arm :: "'k \<Rightarrow> 's \<Rightarrow> 's"
    and cancel :: "'k \<Rightarrow> 's \<Rightarrow> 's"
  assumes count_arm: "count k (arm k s) \<le> Suc (count k s)"
    and count_arm_other: "j \<noteq> k \<Longrightarrow> count j (arm k s) = count j s"
    and count_cancel: "count k (cancel k s) = count k s - 1"
    and count_cancel_other: "j \<noteq> k \<Longrightarrow> count j (cancel k s) = count j s"
begin

definition rearm :: "'k \<Rightarrow> 's \<Rightarrow> 's" where
  "rearm k s = arm k (cancel k s)"

lemma rearm_other: "j \<noteq> k \<Longrightarrow> count j (rearm k s) = count j s"
  by (simp add: rearm_def count_arm_other count_cancel_other)

lemma rearm_at_most_one: "count j s \<le> 1 \<Longrightarrow> count j (rearm k s) \<le> 1"
  using count_arm [of k "cancel k s"] count_cancel [of k s] rearm_other [of j k s]
  by (cases "j = k") (auto simp: rearm_def)

lemma rearms_at_most_one: "count j s \<le> 1 \<Longrightarrow> count j (fold rearm ks s) \<le> 1"
  by (induction ks arbitrary: s) (simp_all add: rearm_at_most_one [unfolded One_nat_def])

lemma rearms_other: "j \<notin> set ks \<Longrightarrow> count j (fold rearm ks s) = count j s"
  by (induction ks arbitrary: s) (simp_all add: rearm_other)

end

type_synonym timer_key = "u32 \<times> u32 \<times> u8 \<times> int"

fun timer_count :: "timer_key \<Rightarrow> node \<Rightarrow> nat" where
  "timer_count (a, b, c, d) s = length (filter (timer_matches a b c d) (timer_queue s))"

fun arm_timer :: "u64 \<Rightarrow> u8 \<Rightarrow> timer_key \<Rightarrow> node \<Rightarrow> node" where
  "arm_timer delay retries (a, b, c, d) s = snd (insert_timer_directional d delay retries a b c s)"

fun cancel_timer :: "timer_key \<Rightarrow> node \<Rightarrow> node" where
  "cancel_timer (a, b, c, d) s = delete_timer a b c d s"

text \<open>The task an arming leaves in the queue.\<close>

definition directional_timer :: "int \<Rightarrow> u64 \<Rightarrow> u8 \<Rightarrow> u32 \<Rightarrow> u32 \<Rightarrow> u8 \<Rightarrow> node \<Rightarrow> task" where
  "directional_timer task_type delay retries src_ip dst_ip tos s =
     (let resend = delay = 0 \<and> task_type = TASK_RESEND_RREQ in
      \<lparr>tk_type = task_type,
       tk_time = currtime s + (if resend then resend_delay retries else delay),
       tk_dst_ip = dst_ip, tk_src_ip = src_ip, tk_ttl = (if resend then 30 else 0),
       tk_retries = (if resend then ucast retries else 0), tk_tos = tos, tk_data = None\<rparr>)"

lemma insert_timer_directional_eq:
  "insert_timer_directional d delay retries a b c s =
     (if alloc_ok (cfg s) (allocs s)
      then (0, queue_timer (directional_timer d delay retries a b c s) (s\<lparr>allocs := Suc (allocs s)\<rparr>))
      else (-12, s\<lparr>allocs := Suc (allocs s)\<rparr>))"
  by (simp add: insert_timer_directional_def create_task_def kmalloc_def directional_timer_def Let_def)

lemma directional_timer_matches [simp]:
  "timer_matches a' b' c' d' (directional_timer d delay retries a b c s) \<longleftrightarrow>
     (a, b, c, d) = (a', b', c', d')"
  by (auto simp: timer_matches_def directional_timer_def Let_def)

lemma count_directional:
  "length (filter (timer_matches a' b' c' d') (timer_queue (snd (insert_timer_directional d delay retries a b c s))))
   = length (filter (timer_matches a' b' c' d') (timer_queue s))
     + (if alloc_ok (cfg s) (allocs s) \<and> (a, b, c, d) = (a', b', c', d') then 1 else 0)"
  by (simp add: insert_timer_directional_eq queue_timer_def length_filter_insert_by_time)

interpretation directional: timer_service timer_count "arm_timer delay retries" cancel_timer
  for delay retries
proof (unfold_locales, goal_cases)
  case (1 k s)
  then show ?case by (cases k) (simp add: count_directional)
next
  case (2 j k s)
  then show ?case by (cases j; cases k) (auto simp: count_directional)
next
  case (3 k s)
  then show ?case by (cases k) (simp add: delete_timer_def count_remove_first)
next
  case (4 j k s)
  then show ?case
    by (cases j; cases k)
      (auto simp: delete_timer_def timer_matches_def intro!: arg_cong [of _ _ length] count_remove_first_other)
qed

text \<open>The same of the timers that carry one address.\<close>

definition simple_timer :: "int \<Rightarrow> u64 \<Rightarrow> u32 \<Rightarrow> node \<Rightarrow> task" where
  "simple_timer task_type delay ip s =
     \<lparr>tk_type = task_type, tk_time = currtime s + delay, tk_dst_ip = ip, tk_src_ip = ip, tk_ttl = 0,
      tk_retries = 0, tk_tos = NO_TOS, tk_data = None\<rparr>"

lemma insert_timer_simple_eq:
  "insert_timer_simple d delay ip s =
     (if alloc_ok (cfg s) (allocs s)
      then (0, queue_timer (simple_timer d delay ip s) (s\<lparr>allocs := Suc (allocs s)\<rparr>))
      else (-12, s\<lparr>allocs := Suc (allocs s)\<rparr>))"
  by (simp add: insert_timer_simple_def create_task_def kmalloc_def simple_timer_def)

lemma simple_timer_matches [simp]:
  "timer_matches a b c d (simple_timer d' delay ip s) \<longleftrightarrow> a = ip \<and> b = ip \<and> c = NO_TOS \<and> d = d'"
  by (auto simp: timer_matches_def simple_timer_def)

lemma count_simple:
  "length (filter (timer_matches a b c d) (timer_queue (snd (insert_timer_simple d' delay ip s))))
   = length (filter (timer_matches a b c d) (timer_queue s))
     + (if alloc_ok (cfg s) (allocs s) \<and> (a, b, c, d) = (ip, ip, NO_TOS, d') then 1 else 0)"
  by (simp add: insert_timer_simple_eq queue_timer_def length_filter_insert_by_time)

fun simple_count :: "int \<times> u32 \<Rightarrow> node \<Rightarrow> nat" where
  "simple_count (d, ip) s = length (filter (timer_matches ip ip NO_TOS d) (timer_queue s))"

fun arm_simple :: "u64 \<Rightarrow> int \<times> u32 \<Rightarrow> node \<Rightarrow> node" where
  "arm_simple delay (d, ip) s = snd (insert_timer_simple d delay ip s)"

fun cancel_simple :: "int \<times> u32 \<Rightarrow> node \<Rightarrow> node" where
  "cancel_simple (d, ip) s = delete_timer ip ip NO_TOS d s"

interpretation simple: timer_service simple_count "arm_simple delay" cancel_simple
  for delay
proof (unfold_locales, goal_cases)
  case (1 k s)
  then show ?case by (cases k) (simp add: count_simple)
next
  case (2 j k s)
  then show ?case by (cases j; cases k) (auto simp: count_simple)
next
  case (3 k s)
  then show ?case by (cases k) (simp add: delete_timer_def count_remove_first)
next
  case (4 j k s)
  then show ?case
    by (cases j; cases k)
      (auto simp: delete_timer_def timer_matches_def intro!: arg_cong [of _ _ length] count_remove_first_other)
qed

text \<open>
  The waiting times of a route request, as \<open>gen_rreq\<close> (2 retries left) and \<open>resend_rreq\<close>
  (1, then 0) arm them: 1600, then 2400, then 0 milliseconds. A doubling back-off would be
  800, 1600, 3200; the source writes it with C's exclusive or.
\<close>

lemma resend_backoff:
  "alloc_ok (cfg s) (allocs s) \<Longrightarrow>
     map (\<lambda>retries. map (\<lambda>t. tk_time t - currtime s)
            (timer_queue (snd (insert_timer_directional TASK_RESEND_RREQ 0 retries src dst tos
                                 (s\<lparr>timer_queue := []\<rparr>))))) [2, 1, 0]
     = [[1600], [2400], [0]]"
  by (simp add: insert_timer_directional_eq queue_timer_def directional_timer_def resend_delay_def)

lemma resend_backoff_witness:
  "map (\<lambda>retries. map (\<lambda>t. tk_time t - currtime sample_node)
            (timer_queue (snd (insert_timer_directional TASK_RESEND_RREQ 0 retries 1 9 0
                                 (sample_node\<lparr>timer_queue := []\<rparr>))))) [2, 1, 0]
     = [[1600], [2400], [0]]"
  by (rule resend_backoff) (simp add: sample_simps)

end
