(* ===== verification/Src_List.thy ===== *)
theory Src_List
  imports Timer_Queue
begin

text \<open>
  The routing policy database (\<open>rpdb.c\<close>): the rtnetlink requests by which rules and routes
  reach the kernel; and the table of traffic sources (\<open>src_list.c\<close>), which gives every source
  a kernel routing table of its own.
\<close>

section \<open>Requests to the kernel\<close>

text \<open>
  A request fails at once with -1 when no socket can be made; otherwise the result is the
  socket's, and the request is out unless that is an error.
\<close>

definition rpdb_rule :: "bool \<Rightarrow> int \<Rightarrow> u32 \<Rightarrow> u32 \<Rightarrow> node \<Rightarrow> int \<times> node" where
  "rpdb_rule new rt_table ip_src dst_ip s =
     (let normal = dst_ip = null_ip s;
          table = (if normal then rt_table + 1000 else rt_table + 500);
          n = nlreqs s;
          s1 = s\<lparr>nlreqs := Suc n\<rparr>;
          any = ip_src = mesh_ip s \<or> \<not> normal;
          r = \<lparr>nlu_new = new,
               nlu_src = (if \<not> new then None else if any then Some (null_ip s) else Some ip_src),
               nlu_src_len = (if new \<and> \<not> any then 32 else 0),
               nlu_dst = (if new \<and> \<not> normal then Some dst_ip else None),
               nlu_dst_len = (if new \<and> \<not> normal then 32 else 0),
               nlu_iif_lo = (new \<and> any \<and> normal),
               nlu_priority = table,
               nlu_table = word_of_int (if normal then rt_table else DEFAULT_ROUTE_TABLE)\<rparr>
      in if nl_sock_rc (cfg s) n < 0 then (-1, s1)
         else if nl_send_rc (cfg s) n < 0 then (nl_send_rc (cfg s) n, s1)
         else (nl_send_rc (cfg s) n, emit (NlRule r) s1))"

text \<open>The table, the ToS and the source of a route do not get into the request.\<close>

definition rpdb_route :: "bool \<Rightarrow> int \<Rightarrow> u8 \<Rightarrow> u32 \<Rightarrow> u32 \<Rightarrow> u32 \<Rightarrow> int \<Rightarrow> int \<Rightarrow> node \<Rightarrow> int \<times> node" where
  "rpdb_route new rt_table tos ip_src ip_dst ip_gw dev_idx prio s =
     (if ip_dst = dtn_hello_ip (cfg s) \<or> ip_src = dtn_hello_ip (cfg s) then (1, s)
      else
        let n = nlreqs s;
            s1 = s\<lparr>nlreqs := Suc n\<rparr>;
            r = \<lparr>nlr_new = new, nlr_dst = ip_dst,
                 nlr_dst_len = (if ip_dst \<noteq> null_ip s then 32 else 0),
                 nlr_oif = dev_idx, nlr_gateway = ip_gw, nlr_priority = prio,
                 nlr_link_scope = (ip_dst = mesh_ip s)\<rparr>
        in if nl_sock_rc (cfg s) n < 0 then (-1, s1)
           else if nl_send_rc (cfg s) n < 0 then (nl_send_rc (cfg s) n, s1)
           else (nl_send_rc (cfg s) n, emit (NlRoute r) s1))"

definition kernel_only :: "node \<Rightarrow> node \<Rightarrow> bool" where
  "kernel_only s s' \<longleftrightarrow> s' = s\<lparr>nlreqs := nlreqs s', out := out s'\<rparr>"

lemma kernel_only_refl [simp]: "kernel_only s s"
  by (simp add: kernel_only_def)

lemma rpdb_rule_frame [frame_simps, simp]: "kernel_only s (snd (rpdb_rule a b c d s))"
  by (simp add: rpdb_rule_def kernel_only_def emit_def Let_def)

lemma rpdb_route_frame [frame_simps, simp]: "kernel_only s (snd (rpdb_route a b c d e f g h s))"
  by (simp add: rpdb_route_def kernel_only_def emit_def Let_def)

section \<open>The table of sources\<close>

definition init_src_list :: "node \<Rightarrow> node" where
  "init_src_list s = s\<lparr>src_list := []\<rparr>"

text \<open>The nodes are freed, but the head of the list keeps its value: the list is dangling.\<close>

fun flush_rules :: "src_list_entry list \<Rightarrow> node \<Rightarrow> node" where
  "flush_rules [] s = s"
| "flush_rules (e # es) s =
     flush_rules es
       (if sl_ip e \<noteq> null_ip s then snd (rpdb_rule False (sl_rt_table e) (sl_ip e) (null_ip s) s) else s)"

definition flush_src_list :: "node \<Rightarrow> node" where
  "flush_src_list s = flush_rules (src_list s) s"

definition find_src_list_entry :: "u32 \<Rightarrow> node \<Rightarrow> src_list_entry option" where
  "find_src_list_entry ip s = List.find (\<lambda>e. sl_ip e = ip) (src_list s)"

definition delete_src_list_entry :: "u32 \<Rightarrow> node \<Rightarrow> node" where
  "delete_src_list_entry ip s =
     (case find_src_list_entry ip s of
        None \<Rightarrow> s
      | Some e \<Rightarrow>
          let s1 = s\<lparr>src_list := remove_first (\<lambda>e. sl_ip e = ip) (src_list s)\<rparr> in
          if sl_ip e \<noteq> null_ip s
          then snd (rpdb_rule False (sl_rt_table e) (sl_ip e) (null_ip s) s1) else s1)"

definition find_empty_rttable :: "int \<Rightarrow> src_list_entry list \<Rightarrow> bool" where
  "find_empty_rttable index es \<longleftrightarrow> (\<forall>e\<in>set es. sl_rt_table e \<noteq> index)"

function rttable_from :: "int \<Rightarrow> src_list_entry list \<Rightarrow> int" where
  "rttable_from rttable es =
     (if rttable \<le> MAX_ROUTE_TABLES
      then if find_empty_rttable rttable es then rttable else rttable_from (rttable + 1) es
      else rttable)"
  by auto
termination by (relation "measure (\<lambda>(i, es). nat (MAX_ROUTE_TABLES + 1 - i))") auto

declare rttable_from.simps [simp del]

definition find_first_rttable :: "src_list_entry list \<Rightarrow> int" where
  "find_first_rttable es = rttable_from 1 es"

definition insert_src_list_entry :: "u32 \<Rightarrow> node \<Rightarrow> src_list_entry option \<times> node" where
  "insert_src_list_entry ip s =
     (case kmalloc s of
        (None, s) \<Rightarrow> (None, s)
      | (Some _, s) \<Rightarrow>
          let routes = (if ip = mesh_ip s then 1 else 0) in
          if ip \<noteq> null_ip s then
            let n_table = find_first_rttable (src_list s) in
            if n_table > MAX_ROUTE_TABLES then (None, s)
            else
              (case rpdb_rule True n_table ip (null_ip s) s of
                 (error, s) \<Rightarrow>
                   if error < 0 then (None, s)
                   else
                     let e = \<lparr>sl_ip = ip, sl_rt_table = n_table, sl_num_routes = routes\<rparr>
                     in (Some e, s\<lparr>src_list := e # src_list s\<rparr>))
          else
            let e = \<lparr>sl_ip = ip, sl_rt_table = DEFAULT_ROUTE_TABLE, sl_num_routes = routes\<rparr>
            in (Some e, s\<lparr>src_list := e # src_list s\<rparr>))"

text \<open>A change of the counter of the entry of \<open>ip\<close>, as the route table makes it.\<close>

definition set_num_routes :: "u32 \<Rightarrow> (int \<Rightarrow> int) \<Rightarrow> node \<Rightarrow> node" where
  "set_num_routes ip f s =
     s\<lparr>src_list := update_first (\<lambda>e. sl_ip e = ip)
        (\<lambda>e. e\<lparr>sl_num_routes := f (sl_num_routes e)\<rparr>) (src_list s)\<rparr>"

section \<open>Properties\<close>

lemma rttable_from_spec:
  "rttable_from i es = r \<Longrightarrow> i \<le> 253 \<Longrightarrow>
     i \<le> r \<and> r \<le> 253 \<and> (r \<le> 252 \<longrightarrow> r \<notin> sl_rt_table ` set es) \<and>
     (\<forall>j. i \<le> j \<and> j < r \<longrightarrow> j \<in> sl_rt_table ` set es)"
proof (induction i es arbitrary: r rule: rttable_from.induct)
  case (1 i es)
  show ?case
  proof (cases "i \<le> 252 \<and> \<not> find_empty_rttable i es")
    case True
    with 1 have "i + 1 \<le> r \<and> r \<le> 253 \<and> (r \<le> 252 \<longrightarrow> r \<notin> sl_rt_table ` set es) \<and>
       (\<forall>j. i + 1 \<le> j \<and> j < r \<longrightarrow> j \<in> sl_rt_table ` set es)"
      by (simp add: rttable_from.simps [of i])
    moreover have "i \<in> sl_rt_table ` set es" using True by (auto simp: find_empty_rttable_def)
    moreover have "j = i \<or> i + 1 \<le> j" if "i \<le> j" for j using that by linarith
    ultimately show ?thesis by auto
  next
    case False
    with 1(2,3) show ?thesis
      by (auto simp: rttable_from.simps [of i] find_empty_rttable_def split: if_splits)
  qed
qed

lemma find_first_rttable_bounds: "1 \<le> find_first_rttable es" "find_first_rttable es \<le> 253"
  using rttable_from_spec [of 1 es] by (simp_all add: find_first_rttable_def)

lemma find_first_rttable_free: "find_first_rttable es \<le> 252 \<Longrightarrow> find_first_rttable es \<notin> sl_rt_table ` set es"
  using rttable_from_spec [of 1 es] by (simp add: find_first_rttable_def)

lemma find_first_rttable_least: "1 \<le> j \<Longrightarrow> j < find_first_rttable es \<Longrightarrow> j \<in> sl_rt_table ` set es"
  using rttable_from_spec [of 1 es] by (simp add: find_first_rttable_def)

text \<open>
  The invariant: every source but the null address has a table of its own between 1 and 252,
  and the null address stands for the main table.
\<close>

definition src_tables_ok :: "u32 \<Rightarrow> src_list_entry list \<Rightarrow> bool" where
  "src_tables_ok null es \<longleftrightarrow>
     (\<forall>e\<in>set es. if sl_ip e = null then sl_rt_table e = DEFAULT_ROUTE_TABLE
       else 1 \<le> sl_rt_table e \<and> sl_rt_table e \<le> MAX_ROUTE_TABLES) \<and>
     distinct (map sl_rt_table (filter (\<lambda>e. sl_ip e \<noteq> null) es))"

lemma distinct_filter_remove_first:
  "distinct (map k (filter Q es)) \<Longrightarrow> distinct (map k (filter Q (remove_first P es)))"
  by (induction es) (auto dest: in_remove_firstD)

lemma src_tables_ok_remove: "src_tables_ok null es \<Longrightarrow> src_tables_ok null (remove_first P es)"
  by (auto simp: src_tables_ok_def distinct_filter_remove_first dest: in_remove_firstD)

lemma src_tables_ok_update:
  "(\<And>e. sl_ip (f e) = sl_ip e \<and> sl_rt_table (f e) = sl_rt_table e) \<Longrightarrow>
     src_tables_ok null (update_first P f es) = src_tables_ok null es"
proof (induction es)
  case (Cons e es)
  have "map sl_rt_table (filter (\<lambda>e. sl_ip e \<noteq> null) (update_first P f es))
      = map sl_rt_table (filter (\<lambda>e. sl_ip e \<noteq> null) es)"
    using Cons.prems by (induction es) auto
  then show ?case using Cons by (auto simp: src_tables_ok_def split: if_splits)
qed simp

lemma rpdb_rule_fields [simp]:
  "src_list (snd (rpdb_rule a b c d s)) = src_list s" "cfg (snd (rpdb_rule a b c d s)) = cfg s"
  by (simp_all add: rpdb_rule_def emit_def Let_def)

lemma rpdb_rule_D: "rpdb_rule a b c d s = (x, s') \<Longrightarrow> src_list s' = src_list s \<and> cfg s' = cfg s"
  using rpdb_rule_fields [of a b c d s] by simp

lemma delete_src_list_entry_list:
  "src_list (delete_src_list_entry ip s) = remove_first (\<lambda>e. sl_ip e = ip) (src_list s)"
  by (auto simp: delete_src_list_entry_def find_src_list_entry_def find_None_iff remove_first_id Let_def
      split: option.splits)

lemma delete_src_list_entry_ok [inv_intros]:
  "src_tables_ok null (src_list s) \<Longrightarrow> src_tables_ok null (src_list (delete_src_list_entry ip s))"
  by (simp add: delete_src_list_entry_list src_tables_ok_remove)

lemma set_num_routes_ok [inv_intros]:
  "src_tables_ok null (src_list s) \<Longrightarrow> src_tables_ok null (src_list (set_num_routes ip f s))"
  by (simp add: set_num_routes_def src_tables_ok_update)

lemma insert_src_list_entry_cases:
  assumes "insert_src_list_entry ip s = (r, s')"
  shows "cfg s' = cfg s \<and>
    (case r of
       None \<Rightarrow> src_list s' = src_list s
     | Some e \<Rightarrow> src_list s' = e # src_list s \<and> sl_ip e = ip \<and>
         sl_rt_table e = (if ip = null_ip s then 254 else find_first_rttable (src_list s)) \<and>
         (ip \<noteq> null_ip s \<longrightarrow> find_first_rttable (src_list s) \<le> 252))"
  using assms
  by (auto simp: insert_src_list_entry_def kmalloc_def Let_def dest: rpdb_rule_D
      split: option.splits prod.splits if_splits)

lemma insert_src_list_entry_ok [inv_intros]:
  assumes "src_tables_ok (null_ip s) (src_list s)"
  shows "src_tables_ok (null_ip s) (src_list (snd (insert_src_list_entry ip s)))"
proof (cases "insert_src_list_entry ip s")
  case (Pair r s')
  then show ?thesis
    using insert_src_list_entry_cases [OF Pair] assms find_first_rttable_bounds [of "src_list s"]
      find_first_rttable_free [of "src_list s"]
    by (auto simp: src_tables_ok_def split: option.splits if_splits)
qed

lemma find_first_rttable_room:
  assumes "length es < 252"
  shows "find_first_rttable es \<le> 252"
proof (rule ccontr)
  assume "\<not> ?thesis"
  then have "{1..252} \<subseteq> sl_rt_table ` set es"
    using find_first_rttable_least by fastforce
  then have "card {1..252::int} \<le> card (sl_rt_table ` set es)" by (rule card_mono [rotated]) simp
  also have "\<dots> \<le> length es" using card_image_le [of "set es" sl_rt_table] card_length [of es] by simp
  finally show False using assms by simp
qed

text \<open>The rule by which the kernel looks a source up in its table; its own traffic comes from \<open>lo\<close>.\<close>

definition source_rule :: "u32 \<Rightarrow> int \<Rightarrow> node \<Rightarrow> nl_rule" where
  "source_rule ip n s =
     \<lparr>nlu_new = True, nlu_src = Some (if ip = mesh_ip s then null_ip s else ip),
      nlu_src_len = (if ip = mesh_ip s then 0 else 32), nlu_dst = None, nlu_dst_len = 0,
      nlu_iif_lo = (ip = mesh_ip s), nlu_priority = n + 1000, nlu_table = word_of_int n\<rparr>"

lemma insert_src_list_entry_effect:
  assumes "insert_src_list_entry ip s = (r, s')"
  shows "case r of
     None \<Rightarrow> s' = s\<lparr>allocs := allocs s', nlreqs := nlreqs s'\<rparr>
   | Some e \<Rightarrow>
       e = \<lparr>sl_ip = ip, sl_rt_table = (if ip = null_ip s then DEFAULT_ROUTE_TABLE else find_first_rttable (src_list s)),
            sl_num_routes = (if ip = mesh_ip s then 1 else 0)\<rparr>
       \<and> s' = s\<lparr>allocs := allocs s', nlreqs := nlreqs s', src_list := e # src_list s,
             out := out s @ (if ip = null_ip s then [] else [NlRule (source_rule ip (sl_rt_table e) s)])\<rparr>"
  using assms
  by (auto simp: insert_src_list_entry_def kmalloc_def rpdb_rule_def emit_def source_rule_def Let_def
      split: option.splits prod.splits if_splits)

text \<open>
  C33: a new source gets the least routing table number that no other source has, one of
  1 to 252, so that no two sources share a table, and exactly one request to the kernel, the rule
  that sends the packets of that source to that table; the null address gets the main table and
  no rule. Otherwise the node keeps its sources and nothing reaches the kernel. With
  fewer than 252 sources, and when the kernel grants memory and the rule, a table is found.
\<close>

theorem insert_src_list_entry_spec:
  assumes "src_tables_ok (null_ip s) (src_list s)" and "insert_src_list_entry ip s = (r, s')"
  shows "src_tables_ok (null_ip s) (src_list s')
     \<and> (case r of
          None \<Rightarrow> s' = s\<lparr>allocs := allocs s', nlreqs := nlreqs s'\<rparr>
        | Some e \<Rightarrow> sl_ip e = ip
            \<and> s' = s\<lparr>allocs := allocs s', nlreqs := nlreqs s', src_list := e # src_list s,
                  out := out s @ (if ip = null_ip s then [] else [NlRule (source_rule ip (sl_rt_table e) s)])\<rparr>
            \<and> (if ip = null_ip s then sl_rt_table e = 254
               else 1 \<le> sl_rt_table e \<and> sl_rt_table e \<le> 252
                  \<and> uint (nlu_table (source_rule ip (sl_rt_table e) s)) = sl_rt_table e
                  \<and> sl_rt_table e \<notin> sl_rt_table ` set (src_list s)
                  \<and> (\<forall>j. 1 \<le> j \<and> j < sl_rt_table e \<longrightarrow> j \<in> sl_rt_table ` set (src_list s))))
     \<and> (alloc_ok (cfg s) (allocs s) \<and> nl_sock_rc (cfg s) (nlreqs s) \<ge> 0
          \<and> nl_send_rc (cfg s) (nlreqs s) \<ge> 0 \<and> length (src_list s) < 252 \<longrightarrow> r \<noteq> None)"
proof (intro conjI impI)
  show "src_tables_ok (null_ip s) (src_list s')"
    using insert_src_list_entry_ok [OF assms(1), of ip] assms(2) by simp
next
  let ?n = "find_first_rttable (src_list s)"
  have w: "uint (word_of_int n :: u8) = n" if "1 \<le> n" "n \<le> 252" for n
    using that by (simp add: unsigned_of_int take_bit_eq_mod)
  have n: "1 \<le> ?n \<and> ?n \<le> 252 \<and> uint (nlu_table (source_rule ip ?n s)) = ?n \<and> ?n \<notin> sl_rt_table ` set (src_list s)
      \<and> (\<forall>j. 1 \<le> j \<and> j < ?n \<longrightarrow> j \<in> sl_rt_table ` set (src_list s))" if "?n \<le> 252"
    using that w [of ?n] find_first_rttable_bounds [of "src_list s"]
      find_first_rttable_free [of "src_list s"] find_first_rttable_least [of _ "src_list s"]
    by (simp add: source_rule_def)
  show "case r of
          None \<Rightarrow> s' = s\<lparr>allocs := allocs s', nlreqs := nlreqs s'\<rparr>
        | Some e \<Rightarrow> sl_ip e = ip
            \<and> s' = s\<lparr>allocs := allocs s', nlreqs := nlreqs s', src_list := e # src_list s,
                  out := out s @ (if ip = null_ip s then [] else [NlRule (source_rule ip (sl_rt_table e) s)])\<rparr>
            \<and> (if ip = null_ip s then sl_rt_table e = 254
               else 1 \<le> sl_rt_table e \<and> sl_rt_table e \<le> 252
                  \<and> uint (nlu_table (source_rule ip (sl_rt_table e) s)) = sl_rt_table e
                  \<and> sl_rt_table e \<notin> sl_rt_table ` set (src_list s)
                  \<and> (\<forall>j. 1 \<le> j \<and> j < sl_rt_table e \<longrightarrow> j \<in> sl_rt_table ` set (src_list s)))"
  proof (cases r)
    case None
    with insert_src_list_entry_effect [OF assms(2)] show ?thesis by simp
  next
    case (Some e)
    from insert_src_list_entry_cases [OF assms(2)] Some
    have b: "ip \<noteq> null_ip s \<longrightarrow> ?n \<le> 252" by simp
    have e: "e = \<lparr>sl_ip = ip, sl_rt_table = (if ip = null_ip s then DEFAULT_ROUTE_TABLE else ?n),
        sl_num_routes = (if ip = mesh_ip s then 1 else 0)\<rparr>"
      and s': "s' = s\<lparr>allocs := allocs s', nlreqs := nlreqs s', src_list := e # src_list s,
        out := out s @ (if ip = null_ip s then [] else [NlRule (source_rule ip (sl_rt_table e) s)])\<rparr>"
      using insert_src_list_entry_effect [OF assms(2)] unfolding Some option.case by blast+
    have "sl_ip e = ip" and t: "sl_rt_table e = (if ip = null_ip s then 254 else ?n)" by (simp_all add: e)
    moreover have "if ip = null_ip s then sl_rt_table e = 254
               else 1 \<le> sl_rt_table e \<and> sl_rt_table e \<le> 252
                  \<and> uint (nlu_table (source_rule ip (sl_rt_table e) s)) = sl_rt_table e
                  \<and> sl_rt_table e \<notin> sl_rt_table ` set (src_list s)
                  \<and> (\<forall>j. 1 \<le> j \<and> j < sl_rt_table e \<longrightarrow> j \<in> sl_rt_table ` set (src_list s))"
      using n b unfolding t by simp
    ultimately show ?thesis unfolding Some option.case by (intro conjI s')
  qed
next
  assume "alloc_ok (cfg s) (allocs s) \<and> nl_sock_rc (cfg s) (nlreqs s) \<ge> 0
          \<and> nl_send_rc (cfg s) (nlreqs s) \<ge> 0 \<and> length (src_list s) < 252"
  then show "r \<noteq> None"
    using assms(2) find_first_rttable_room [of "src_list s"]
    by (auto simp: insert_src_list_entry_def kmalloc_def rpdb_rule_def emit_def Let_def split: if_splits)
qed

lemma insert_src_list_entry_spec_witness:
  "\<exists>e s'. insert_src_list_entry 9 sample_node = (Some e, s') \<and> sl_rt_table e \<ge> 1 \<and> sl_ip e = 9"
proof -
  obtain r s' where eq: "insert_src_list_entry 9 sample_node = (r, s')" by fastforce
  have "src_list sample_node = []" "null_ip sample_node = 0"
    by (simp_all add: sample_node_def sample_cfg_def)
  then show ?thesis
    using insert_src_list_entry_spec [OF _ eq] eq by (auto simp: src_tables_ok_def sample_simps)
qed

end
