(* ===== verification/Flow_Types.thy ===== *)
theory Flow_Types
  imports Src_List
begin

text \<open>
  The traffic classes (\<open>tos.c\<close>) and what they cost a link: \<open>compute_coef\<close> of \<open>route_alg.c\<close>, the
  share of the air time that is payload, and \<open>compute_load\<close> of \<open>aodv_route.c\<close>, which divides by
  it. A division by zero is a kernel fault, \<open>None\<close>.
\<close>

section \<open>The table of traffic classes\<close>

definition flow_of_index :: "nat \<Rightarrow> flow_type option" where
  "flow_of_index i =
     (if i = 0 then Some \<lparr>fl_tos = 0x02, fl_avg_size = 1472, fl_avg_rate = 1000\<rparr>
      else if i = 1 then Some \<lparr>fl_tos = 0x04, fl_avg_size = 1472, fl_avg_rate = 750\<rparr>
      else if i = 2 then Some \<lparr>fl_tos = 0x08, fl_avg_size = 1472, fl_avg_rate = 500\<rparr>
      else if i = 3 then Some \<lparr>fl_tos = 0x10, fl_avg_size = 1472, fl_avg_rate = 250\<rparr>
      else if i = 4 then Some \<lparr>fl_tos = 0x0c, fl_avg_size = 172, fl_avg_rate = 100\<rparr>
      else if i = 5 then Some \<lparr>fl_tos = 0x14, fl_avg_size = 972, fl_avg_rate = 300\<rparr>
      else if i = 6 then Some \<lparr>fl_tos = 0x18, fl_avg_size = 1472, fl_avg_rate = 250\<rparr>
      else if i = 7 then Some \<lparr>fl_tos = 0x1c, fl_avg_size = 1472, fl_avg_rate = 500\<rparr>
      else None)"

definition insert_flow_type :: "nat \<Rightarrow> node \<Rightarrow> node" where
  "insert_flow_type i s =
     (case kmalloc s of
        (None, s) \<Rightarrow> s
      | (Some _, s) \<Rightarrow>
          (case flow_of_index i of
             None \<Rightarrow> s
           | Some f \<Rightarrow> s\<lparr>flow_type_table := f # flow_type_table s\<rparr>))"

definition find_flow_type :: "u8 \<Rightarrow> node \<Rightarrow> flow_type option" where
  "find_flow_type tos s = List.find (\<lambda>f. fl_tos f = tos) (flow_type_table s)"

definition init_flow_type_table :: "node \<Rightarrow> node" where
  "init_flow_type_table s = fold insert_flow_type [0..<NUM_TOS] (s\<lparr>flow_type_table := []\<rparr>)"

definition flush_flow_type_table :: "node \<Rightarrow> node" where
  "flush_flow_type_table s = s\<lparr>flow_type_table := []\<rparr>"

section \<open>Air time and load\<close>

definition compute_coef :: "u16 \<Rightarrow> u16 \<Rightarrow> u8" where
  "compute_coef sz rate =
     (let other_delays = 122 * 100;
          headers = 470 * 1000;
          nominal_delay = ucast sz * 8000 :: u32;
          coef = nominal_delay + headers;
          u_rate = ucast rate
      in if sz = 0 \<or> rate = 0 then 0
         else
           let nominal_delay = nominal_delay div u_rate;
               coef = coef div u_rate + other_delays
           in ucast (nominal_delay * 100 div coef))"

definition compute_load :: "u16 \<Rightarrow> u8 \<Rightarrow> node \<Rightarrow> u8 option" where
  "compute_load rate_link tos s =
     (if rate_link = 0 then Some UNDEFINED_LOAD
      else
        let (rate, sz) = (case find_flow_type tos s of
                              None \<Rightarrow> (0, 0)
                            | Some f \<Rightarrow> (fl_avg_rate f, fl_avg_size f));
            coef = compute_coef sz rate_link;
            divisor = uint rate_link * uint coef
        in if divisor = 0 then None
           else Some (word_of_int (uint rate * 100 div divisor)))"

section \<open>Properties\<close>

definition flows_ok :: "node \<Rightarrow> bool" where
  "flows_ok s \<longleftrightarrow> (\<forall>f\<in>set (flow_type_table s). 172 \<le> fl_avg_size f \<and> fl_avg_size f \<le> 1472)"

lemma insert_flow_type_ok: "flows_ok s \<Longrightarrow> flows_ok (insert_flow_type n s)"
  by (auto simp: flows_ok_def insert_flow_type_def flow_of_index_def kmalloc_def)

lemma fold_insert_flow_ok: "flows_ok s \<Longrightarrow> flows_ok (fold insert_flow_type ns s)"
  by (induction ns arbitrary: s) (simp_all add: insert_flow_type_ok)

lemma init_flow_type_table_ok: "flows_ok (init_flow_type_table s)"
  unfolding init_flow_type_table_def by (rule fold_insert_flow_ok) (simp add: flows_ok_def)

lemma unat_ucast_16_32 [simp]: "unat (ucast (w :: u16) :: u32) = unat w"
  using unsigned_less [of w, where ?'a = nat] by (simp add: unsigned_ucast_eq take_bit_nat_eq_self)

text \<open>\<open>compute_coef\<close> in numbers, where its 32-bit products do not wrap around.\<close>

lemma compute_coef_unat:
  assumes "sz \<noteq> 0" "rate \<noteq> 0" "sz \<le> 5000"
  shows "unat (compute_coef sz rate)
       = (unat sz * 8000 div unat rate * 100
          div ((unat sz * 8000 + 470000) div unat rate + 12200)) mod 256"
proof -
  have s: "unat sz \<le> 5000" using assms(3) by (simp add: word_le_nat_alt)
  have b: "unat (ucast sz * 8000 :: u32) = unat sz * 8000"
    "unat (ucast sz * 8000 + 470000 :: u32) = unat sz * 8000 + 470000"
    using s by (simp_all add: unat_word_ariths)
  have n: "unat sz * 8000 div unat rate \<le> 40000000" "(unat sz * 8000 + 470000) div unat rate \<le> 40470000"
    using s div_le_dividend [of "unat sz * 8000" "unat rate"]
      div_le_dividend [of "unat sz * 8000 + 470000" "unat rate"] by linarith+
  have "unat (ucast sz * 8000 div ucast rate * 100 :: u32) = unat sz * 8000 div unat rate * 100"
    using n b by (simp add: unat_word_ariths unat_div)
  moreover have "unat ((ucast sz * 8000 + 470000) div ucast rate + 12200 :: u32)
      = (unat sz * 8000 + 470000) div unat rate + 12200"
    using n b by (simp add: unat_word_ariths unat_div)
  ultimately show ?thesis
    using assms by (simp add: compute_coef_def Let_def unat_div unsigned_ucast_eq take_bit_eq_mod)
qed

lemma coef_bounds:
  fixes S r :: nat
  assumes "0 < r"
  shows "S div r * 100 div ((S + 470000) div r + 12200) \<le> 100"
    and "1376000 \<le> S \<Longrightarrow> r \<le> 540 \<Longrightarrow> 1 \<le> S div r * 100 div ((S + 470000) div r + 12200)"
proof -
  let ?n = "S div r" and ?h = "(S + 470000) div r"
  have nh: "?n \<le> ?h" by (rule div_le_mono) simp
  have "?n * 100 div (?h + 12200) \<le> (?h + 12200) * 100 div (?h + 12200)"
    by (intro div_le_mono mult_le_mono1 trans_le_add1 nh)
  also have "\<dots> = 100" by (rule nonzero_mult_div_cancel_left) simp
  finally show "?n * 100 div (?h + 12200) \<le> 100" .
  assume S: "1376000 \<le> S" "r \<le> 540"
  have "2548 \<le> 1376000 div r" using assms S(2) div_le_mono2 [of r 540 1376000] by simp
  also have "\<dots> \<le> ?n" using S(1) by (rule div_le_mono)
  finally have n: "2548 \<le> ?n" .
  have "?h \<le> (S + S) div r" by (rule div_le_mono) (use S in linarith)
  also have "\<dots> \<le> 2 * ?n + 1"
  proof -
    have "S < r + ?n * r" using dividend_less_div_times [OF assms, of S] by simp
    then have "S + S < (2 * ?n + 2) * r" by (simp add: algebra_simps)
    from less_mult_imp_div_less [OF this] show ?thesis by simp
  qed
  finally have "?h + 12200 \<le> ?n * 100" using n by linarith
  then show "1 \<le> ?n * 100 div (?h + 12200)" by (simp add: less_eq_div_iff_mult_less_eq)
qed

lemma coef_percentage:
  "sz \<le> 5000 \<Longrightarrow>
     compute_coef sz rate \<le> 100 \<and> (172 \<le> sz \<and> 0 < rate \<and> rate \<le> 540 \<longrightarrow> 1 \<le> compute_coef sz rate)"
proof -
  assume s: "sz \<le> 5000"
  show ?thesis
  proof (cases "sz = 0 \<or> rate = 0")
    case True
    then show ?thesis by (auto simp: compute_coef_def Let_def)
  next
    case False
    let ?v = "unat sz * 8000 div unat rate * 100 div ((unat sz * 8000 + 470000) div unat rate + 12200)"
    have r: "0 < unat rate" using False by (simp add: unat_gt_0)
    have "?v \<le> 100" by (rule coef_bounds(1) [OF r])
    moreover have "172 \<le> sz \<Longrightarrow> rate \<le> 540 \<Longrightarrow> 1 \<le> ?v"
      using coef_bounds(2) [OF r] by (simp add: word_le_nat_alt)
    ultimately show ?thesis
      using compute_coef_unat [of sz rate] False s by (auto simp: word_le_nat_alt)
  qed
qed

text \<open>
  The air-time share of a class is a percentage, and for packets of at least 172 bytes
  on a link of a nominal rate (1 to 54 Mb/s in steps of 0.1) it is not zero.
\<close>

theorem compute_coef_percentage:
  "sz \<le> 5000 \<Longrightarrow>
     compute_coef sz rate \<le> 100 \<and> (172 \<le> sz \<and> 0 < rate \<and> rate \<le> 540 \<longrightarrow> 1 \<le> compute_coef sz rate)"
  by (rule coef_percentage)

lemma compute_coef_percentage_witness: "compute_coef 1472 540 \<le> 100 \<and> 1 \<le> compute_coef 1472 540"
  using compute_coef_percentage [of 1472 540] by simp

text \<open>
  \<open>compute_load\<close> divides by zero exactly when the link has a rate and the coefficient is
  zero. With the module's table of classes that is so for every ToS without a class, also
  for no ToS at all; for a class of the table and a nominal rate it never is.
\<close>

lemma compute_load_faults:
  "flows_ok s \<Longrightarrow>
     (rate_link \<noteq> 0 \<and> find_flow_type tos s = None \<longrightarrow> compute_load rate_link tos s = None) \<and>
     (rate_link \<le> 540 \<and> find_flow_type tos s \<noteq> None \<longrightarrow> compute_load rate_link tos s \<noteq> None)"
proof -
  assume ok: "flows_ok s"
  have "compute_load rate_link tos s \<noteq> None" if f: "find_flow_type tos s = Some f" "rate_link \<le> 540" for f
  proof (cases "rate_link = 0")
    case False
    have "f \<in> set (flow_type_table s)" using f(1) by (auto simp: find_flow_type_def find_Some_iff)
    then have "172 \<le> fl_avg_size f" "fl_avg_size f \<le> 1472" using ok by (simp_all add: flows_ok_def)
    then have "1 \<le> compute_coef (fl_avg_size f) rate_link"
      using coef_percentage [of "fl_avg_size f" rate_link] f(2) False
      by (auto simp: word_le_nat_alt word_less_nat_alt unat_gt_0)
    then have "compute_coef (fl_avg_size f) rate_link \<noteq> 0" by auto
    with False f show ?thesis by (simp add: compute_load_def Let_def uint_0_iff)
  qed (simp add: compute_load_def)
  moreover have "compute_coef 0 rate_link = 0" by (simp add: compute_coef_def Let_def)
  ultimately show ?thesis by (auto simp: compute_load_def Let_def)
qed

lemma compute_load_faults_witness:
  "compute_load 60 NO_TOS (init_flow_type_table sample_node) = None"
  using compute_load_faults [OF init_flow_type_table_ok, of 60 NO_TOS sample_node]
  by (simp add: init_flow_type_table_def insert_flow_type_def flow_of_index_def kmalloc_def
      find_flow_type_def sample_node_def sample_cfg_def upt_conv_Cons)

end
