(* ===== verification/Packet_Queue.thy ===== *)
theory Packet_Queue
  imports Src_List
begin

text \<open>
  The queue of packets that wait for a route (\<open>packet_queue.c\<close>). Netfilter hands packets
  over; each must be given back once, accepted when a route is found and dropped when none
  is. The link of \<open>ipq_list\<close> is a kernel list: \<open>list_add\<close> puts an element at its head and
  \<open>ipq_dequeue\<close> searches from its tail.
\<close>

section \<open>Operations\<close>

abbreviation "IPQ_QMAX_DEFAULT \<equiv> (1024 :: int)"

fun remove_last :: "('a \<Rightarrow> bool) \<Rightarrow> 'a list \<Rightarrow> 'a option \<times> 'a list" where
  "remove_last P [] = (None, [])"
| "remove_last P (x # xs) =
     (case remove_last P xs of
        (Some y, ys) \<Rightarrow> (Some y, x # ys)
      | (None, ys) \<Rightarrow> if P x then (Some x, xs) else (None, x # xs))"

text \<open>The packets that wait, the last that came first.\<close>

definition waiting :: "node \<Rightarrow> ipq_element list" where
  "waiting s = (case ipq s of None \<Rightarrow> [] | Some q \<Rightarrow> ipq_list q)"

text \<open>
  \<open>None\<close> as the comparison is the NULL of the source; \<open>None\<close> as the result is a fault: every
  function below reads the queue through \<open>q\<close> and never asks whether it is there.
\<close>

definition ipq_dequeue :: "(ipq_element \<Rightarrow> bool) option \<Rightarrow> node \<Rightarrow> (ipq_element option \<times> node) option" where
  "ipq_dequeue cmp s =
     (case ipq s of
        None \<Rightarrow> None
      | Some q \<Rightarrow>
          (case remove_last (case cmp of None \<Rightarrow> (\<lambda>e. True) | Some f \<Rightarrow> f) (ipq_list q) of
             (None, es) \<Rightarrow> Some (None, s)
           | (Some e, es) \<Rightarrow>
               Some (Some e, s\<lparr>ipq := Some (q\<lparr>ipq_list := es, ipq_len := ipq_len q - 1\<rparr>)\<rparr>)))"

lemma remove_last_Some_length: "remove_last P xs = (Some y, ys) \<Longrightarrow> length xs = Suc (length ys)"
  by (induction xs arbitrary: ys) (auto split: prod.splits option.splits if_splits)

lemma ipq_dequeue_length:
  "ipq_dequeue c s = Some (Some e, s') \<Longrightarrow> length (waiting s) = Suc (length (waiting s'))"
  by (auto simp: ipq_dequeue_def waiting_def dest!: remove_last_Some_length split: prod.splits option.splits)

text \<open>
  The loop that flush, device drop, send and drop are: serve while there is a match. \<open>fx\<close> is
  what happens with a packet (an ICMP error, its verdict), \<open>None\<close> where that is a fault.
\<close>

function ipq_drain ::
    "(ipq_element \<Rightarrow> bool) option \<Rightarrow> (ipq_element \<Rightarrow> effect list option) \<Rightarrow> node \<Rightarrow> node option" where
  "ipq_drain cmp fx s =
     (case ipq_dequeue cmp s of
        None \<Rightarrow> None
      | Some (None, s') \<Rightarrow> Some s'
      | Some (Some e, s') \<Rightarrow>
          (case fx e of
             None \<Rightarrow> None
           | Some es \<Rightarrow> ipq_drain cmp fx (fold emit es s')))"
  by auto
termination
proof (relation "measure (\<lambda>(c, f, s). length (waiting s))", simp, goal_cases)
  case (1 cmp fx s r p s' e es)
  have "waiting (fold emit xs t) = waiting t" for xs t
    by (induction xs arbitrary: t) (simp_all add: emit_def waiting_def)
  with 1 show ?case by (auto dest: ipq_dequeue_length)
qed

declare ipq_drain.simps [simp del]

definition ipq_create_queue :: "bool \<Rightarrow> node \<Rightarrow> int \<times> node" where
  "ipq_create_queue registered s =
     (case kmalloc s of
        (None, s) \<Rightarrow> (0, s\<lparr>ipq := None\<rparr>)
      | (Some _, s) \<Rightarrow>
          let s = s\<lparr>ipq := Some \<lparr>ipq_len = 0, ipq_maxlen = IPQ_QMAX_DEFAULT, ipq_flushing = False,
                               ipq_terminate = False, ipq_list = []\<rparr>\<rparr>
          in if \<not> registered then (0, s\<lparr>ipq := None\<rparr>) else (1, s))"

text \<open>
  A packet that did not come through the post-routing hook keeps uninitialised address
  fields beside its header. \<open>ENOMEM\<close> is 12, \<open>EBUSY\<close> 16.
\<close>

definition ipq_enqueue :: "bool \<Rightarrow> ipq_element \<Rightarrow> node \<Rightarrow> (int \<times> node) option" where
  "ipq_enqueue post_routing entry s =
     (case kmalloc s of
        (None, s) \<Rightarrow> Some (-12, s)
      | (Some _, s) \<Rightarrow>
          let e = (if post_routing
                   then entry\<lparr>iq_saddr := skb_saddr entry, iq_daddr := skb_daddr entry, iq_tos := skb_tos entry\<rparr>
                   else entry\<lparr>iq_saddr := ucast (junk (cfg s)),
                     iq_daddr := ucast (junk (cfg s)), iq_tos := ucast (junk (cfg s))\<rparr>)
          in (case ipq s of
                None \<Rightarrow> None
              | Some q \<Rightarrow>
                  if ipq_len q \<ge> ipq_maxlen q then Some (-16, s)
                  else if ipq_flushing q \<or> ipq_terminate q then Some (-16, s)
                  else Some (ipq_len q + 1,
                             s\<lparr>ipq := Some (q\<lparr>ipq_list := e # ipq_list q, ipq_len := ipq_len q + 1\<rparr>)\<rparr>)))"

definition ip_cmp :: "u32 \<Rightarrow> u32 \<Rightarrow> u8 \<Rightarrow> ipq_element \<Rightarrow> bool" where
  "ip_cmp src_ip dst_ip tos e \<longleftrightarrow> iq_saddr e = src_ip \<and> iq_daddr e = dst_ip \<and> iq_tos e = tos"

definition dev_cmp :: "u32 \<Rightarrow> ipq_element \<Rightarrow> bool" where
  "dev_cmp ifindex e \<longleftrightarrow> iq_indev e = Some ifindex \<or> iq_outdev e = Some ifindex"

definition ipq_flush :: "node \<Rightarrow> node option" where
  "ipq_flush s =
     (case ipq s of
        None \<Rightarrow> None
      | Some q \<Rightarrow>
          map_option (\<lambda>s. s\<lparr>ipq := map_option (\<lambda>q. q\<lparr>ipq_flushing := False\<rparr>) (ipq s)\<rparr>)
            (ipq_drain None (\<lambda>e. Some [Reinject e NF_DROP]) (s\<lparr>ipq := Some (q\<lparr>ipq_flushing := True\<rparr>)\<rparr>)))"

definition ipq_dev_drop :: "u32 \<Rightarrow> node \<Rightarrow> node option" where
  "ipq_dev_drop ifindex s = ipq_drain (Some (dev_cmp ifindex)) (\<lambda>e. Some [Reinject e NF_DROP]) s"

text \<open>
  A packet that is released gets the kernel's route for its header first. The network namespace
  to ask in is that of the packet's socket, \<open>sock_net(skb->sk)\<close>: for a packet in transit, which
  has none, a kernel with namespaces reads through the null pointer. \<open>route_output\<close> is what \<open>ip_route_output_flow\<close>
  answers after so many requests to the kernel's tables: a route, the null pointer as 0
  (\<open>EINVAL\<close> is 22), or an error as a negative number, which the code takes for a route.
\<close>

definition route_me_harder :: "node \<Rightarrow> ipq_element \<Rightarrow> (int \<times> effect list) option" where
  "route_me_harder s e =
     (if \<not> skb_sk e then None
      else
        let rt = route_output (cfg s) (nlreqs s) (skb_saddr e) (skb_daddr e) (skb_tos e AND 0x1E)
        in if rt = 0 then Some (-22, []) else Some (0, [SetRoute e rt]))"

text \<open>Its result is not looked at.\<close>

definition released :: "node \<Rightarrow> ipq_element \<Rightarrow> effect list option" where
  "released s e = map_option (\<lambda>(_, es). es @ [Reinject e NF_ACCEPT]) (route_me_harder s e)"

definition ipq_send_ip :: "u32 \<Rightarrow> u32 \<Rightarrow> u8 \<Rightarrow> node \<Rightarrow> node option" where
  "ipq_send_ip src_ip dst_ip tos s =
     ipq_drain (Some (ip_cmp src_ip dst_ip tos)) (released s) s"

definition ipq_drop_ip :: "u32 \<Rightarrow> u32 \<Rightarrow> u8 \<Rightarrow> node \<Rightarrow> node option" where
  "ipq_drop_ip src_ip dst_ip tos s =
     ipq_drain (Some (ip_cmp src_ip dst_ip tos)) (\<lambda>e. Some [IcmpUnreach e, Reinject e NF_DROP]) s"

definition ipq_destroy_queue :: "node \<Rightarrow> node option" where
  "ipq_destroy_queue s =
     (case ipq s of
        None \<Rightarrow> None
      | Some q \<Rightarrow>
          map_option (\<lambda>s. s\<lparr>ipq := None\<rparr>) (ipq_flush (s\<lparr>ipq := Some (q\<lparr>ipq_terminate := True\<rparr>)\<rparr>)))"

text \<open>
  The functions netfilter and the notifier chain of the network devices call. \<open>NETDEV_DOWN\<close> is 2,
  \<open>NOTIFY_DONE\<close> is 0. The sysctl header that the clean-up takes back was never registered: it
  is the null pointer, of which the kernel takes no notice.
\<close>

definition netfilter_receive :: "bool \<Rightarrow> ipq_element \<Rightarrow> node \<Rightarrow> (int \<times> node) option" where
  "netfilter_receive post_routing entry s = ipq_enqueue post_routing entry s"

definition receive_event :: "nat \<Rightarrow> u32 \<Rightarrow> node \<Rightarrow> (int \<times> node) option" where
  "receive_event event ifindex s =
     map_option (\<lambda>s. (0, s)) (if event = 2 then ipq_dev_drop ifindex s else Some s)"

definition cleanup_packet_queue :: "node \<Rightarrow> node option" where
  "cleanup_packet_queue s = ipq_destroy_queue s"

lemma released_cong: "cfg t = cfg s \<Longrightarrow> nlreqs t = nlreqs s \<Longrightarrow> released t = released s"
  by (rule ext) (simp add: released_def route_me_harder_def)

lemma released_None [simp]: "released s e = None \<longleftrightarrow> \<not> skb_sk e"
  by (simp add: released_def route_me_harder_def Let_def)

section \<open>What a drain does\<close>

definition ipq_ok :: "node \<Rightarrow> bool" where
  "ipq_ok s \<longleftrightarrow>
     (case ipq s of
        None \<Rightarrow> True
      | Some q \<Rightarrow> ipq_len q = int (length (ipq_list q)) \<and> ipq_len q \<le> ipq_maxlen q)"

lemma remove_last_None: "remove_last P xs = (None, ys) \<Longrightarrow> ys = xs \<and> (\<forall>x\<in>set xs. \<not> P x)"
  by (induction xs arbitrary: ys) (auto split: prod.splits option.splits if_splits)

lemma remove_last_Some:
  "remove_last P xs = (Some y, ys) \<Longrightarrow>
     rev (filter P xs) = y # rev (filter P ys) \<and> filter (\<lambda>x. \<not> P x) ys = filter (\<lambda>x. \<not> P x) xs \<and> P y"
proof (induction xs arbitrary: ys)
  case (Cons x xs)
  show ?case
  proof (cases "remove_last P xs")
    case (Pair r zs)
    with Cons show ?thesis
      by (cases r) (auto split: if_splits dest!: remove_last_None simp: filter_empty_conv)
  qed
qed simp

lemma fold_emit: "fold emit xs s = s\<lparr>out := out s @ xs\<rparr>"
  by (induction xs arbitrary: s) (simp_all add: emit_def)

text \<open>The queue after the packets that match are gone.\<close>

definition drained :: "(ipq_element \<Rightarrow> bool) \<Rightarrow> ipq_queue \<Rightarrow> ipq_queue" where
  "drained P q =
     q\<lparr>ipq_len := ipq_len q - int (length (filter P (ipq_list q))), ipq_list := filter (\<lambda>e. \<not> P e) (ipq_list q)\<rparr>"

lemma drained_list [simp]: "ipq_list (drained P q) = filter (\<lambda>e. \<not> P e) (ipq_list q)"
  by (simp add: drained_def)

lemma drained_ok:
  assumes "ipq_len q = int (length (ipq_list q)) \<and> ipq_len q \<le> ipq_maxlen q"
  shows "ipq_len (drained P q) = int (length (ipq_list (drained P q))) \<and> ipq_len (drained P q) \<le> ipq_maxlen (drained P q)"
  using sum_length_filter_compl [of P "ipq_list q"] assms by (simp add: drained_def)

lemma ipq_drain_Some:
  fixes cmp :: "(ipq_element \<Rightarrow> bool) option"
  assumes "ipq s = Some q"
  defines "P \<equiv> (case cmp of None \<Rightarrow> (\<lambda>e. True) | Some f \<Rightarrow> f)"
  shows "ipq_drain cmp fx s =
     (if \<exists>e\<in>set (ipq_list q). P e \<and> fx e = None then None
      else Some (s\<lparr>ipq := Some (drained P q),
                   out := out s @ concat (map (the \<circ> fx) (rev (filter P (ipq_list q))))\<rparr>))"
  using assms(1) unfolding P_def
proof (induction cmp fx s arbitrary: q rule: ipq_drain.induct)
  case (1 cmp fx s)
  let ?P = "case cmp of None \<Rightarrow> (\<lambda>e. True) | Some f \<Rightarrow> f"
  show ?case
  proof (cases "remove_last ?P (ipq_list q)")
    case (Pair r es)
    show ?thesis
    proof (cases r)
      case None
      have n: "\<forall>x\<in>set (ipq_list q). \<not> ?P x" using remove_last_None Pair None by metis
      then have "filter ?P (ipq_list q) = []" "filter (\<lambda>e. \<not> ?P e) (ipq_list q) = ipq_list q"
        by (simp_all add: filter_empty_conv filter_id_conv)
      then have "drained ?P q = q" by (simp add: drained_def)
      with Pair None 1(2) n \<open>filter ?P (ipq_list q) = []\<close> show ?thesis
        by (subst ipq_drain.simps) (auto simp: ipq_dequeue_def)
    next
      case (Some e)
      let ?q = "q\<lparr>ipq_list := es, ipq_len := ipq_len q - 1\<rparr>"
      let ?s = "s\<lparr>ipq := Some ?q\<rparr>"
      have d: "ipq_dequeue cmp s = Some (Some e, ?s)" using Pair Some 1(2) by (simp add: ipq_dequeue_def)
      have r: "rev (filter ?P (ipq_list q)) = e # rev (filter ?P es)"
        "filter (\<lambda>x. \<not> ?P x) es = filter (\<lambda>x. \<not> ?P x) (ipq_list q)" "?P e"
        using remove_last_Some Pair Some by metis+
      have l: "length (filter ?P (ipq_list q)) = Suc (length (filter ?P es))"
        using arg_cong [OF r(1), of length] by simp
      have m: "(\<exists>x\<in>set (ipq_list q). ?P x \<and> fx x = None) \<longleftrightarrow> fx e = None \<or> (\<exists>x\<in>set es. ?P x \<and> fx x = None)"
        using arg_cong [OF r(1), of set] by (auto simp: set_eq_iff)
      have dr: "drained ?P ?q = drained ?P q" using r(2) l by (simp add: drained_def)
      show ?thesis
      proof (cases "fx e")
        case None
        with d m 1(2) show ?thesis by (subst ipq_drain.simps) simp
      next
        case fx: (Some xs)
        have "ipq_drain cmp fx s = ipq_drain cmp fx (?s\<lparr>out := out ?s @ xs\<rparr>)"
          using d fx by (subst ipq_drain.simps) (simp add: fold_emit)
        also have "\<dots> = (if \<exists>x\<in>set es. ?P x \<and> fx x = None then None
          else Some (s\<lparr>ipq := Some (drained ?P ?q), out := out s @ xs @ concat (map (the \<circ> fx) (rev (filter ?P es)))\<rparr>))"
          using 1(1) [OF d refl refl fx, of ?q] by (simp add: fold_emit)
        finally have "ipq_drain cmp fx s = \<dots>" .
        moreover have "concat (map (the \<circ> fx) (rev (filter ?P (ipq_list q)))) = xs @ concat (map (the \<circ> fx) (rev (filter ?P es)))"
          by (simp only: r(1)) (simp add: fx)
        ultimately show ?thesis unfolding m dr by (simp only: fx) simp
      qed
    qed
  qed
qed

lemma ipq_drain_None: "ipq s = None \<Longrightarrow> ipq_drain cmp fx s = None"
  by (simp add: ipq_drain.simps ipq_dequeue_def)

text \<open>In terms of the packets that wait.\<close>

lemma ipq_drain_D:
  assumes "ipq_drain cmp fx s = Some s'"
  obtains q where "ipq s = Some q" "\<forall>e\<in>set (waiting s). (case cmp of None \<Rightarrow> True | Some f \<Rightarrow> f e) \<longrightarrow> fx e \<noteq> None"
    "s' = s\<lparr>ipq := Some (drained (case cmp of None \<Rightarrow> (\<lambda>e. True) | Some f \<Rightarrow> f) q),
           out := out s @ concat (map (the \<circ> fx) (rev (filter (case cmp of None \<Rightarrow> (\<lambda>e. True) | Some f \<Rightarrow> f) (waiting s))))\<rparr>"
proof (cases "ipq s")
  case (Some q)
  with assms that [of q] show ?thesis by (cases cmp) (auto simp: ipq_drain_Some waiting_def split: if_splits)
qed (use assms ipq_drain_None in simp)

lemma ipq_drain_eq_None:
  "ipq_drain cmp fx s = None \<longleftrightarrow>
     ipq s = None \<or> (\<exists>e\<in>set (waiting s). (case cmp of None \<Rightarrow> True | Some f \<Rightarrow> f e) \<and> fx e = None)"
  by (cases "ipq s"; cases cmp) (auto simp: ipq_drain_None ipq_drain_Some waiting_def)

lemma ipq_drain_ok:
  assumes "ipq_drain cmp fx s = Some s'" and "ipq_ok s"
  shows "ipq_ok s'"
proof -
  from assms(1) obtain q P where q: "ipq s = Some q" "ipq s' = Some (drained P q)" by (auto elim: ipq_drain_D)
  with assms(2) have "ipq_len q = int (length (ipq_list q)) \<and> ipq_len q \<le> ipq_maxlen q" by (simp add: ipq_ok_def)
  from drained_ok [OF this, of P] show ?thesis unfolding ipq_ok_def q(2) option.case .
qed

text \<open>
  C25: a found route releases exactly the packets of its source, destination and ToS, each
  once, in the order they came, with the route the kernel has for it; the other packets stay in
  their order, and the count of the queue stays right. It is a fault exactly when there is no
  queue, or one of those packets has no socket.
\<close>

theorem ipq_send_ip_spec:
  "(ipq_send_ip src_ip dst_ip tos s = None \<longleftrightarrow>
      ipq s = None \<or> (\<exists>e\<in>set (waiting s). ip_cmp src_ip dst_ip tos e \<and> \<not> skb_sk e))
   \<and> (\<forall>s'. ipq_send_ip src_ip dst_ip tos s = Some s' \<longrightarrow>
        out s' = out s @ concat (map (the \<circ> released s) (rev (filter (ip_cmp src_ip dst_ip tos) (waiting s))))
        \<and> waiting s' = filter (\<lambda>e. \<not> ip_cmp src_ip dst_ip tos e) (waiting s)
        \<and> (ipq_ok s \<longrightarrow> ipq_ok s'))"
proof (intro conjI allI impI)
  show "ipq_send_ip src_ip dst_ip tos s = None \<longleftrightarrow>
      ipq s = None \<or> (\<exists>e\<in>set (waiting s). ip_cmp src_ip dst_ip tos e \<and> \<not> skb_sk e)"
    by (simp add: ipq_send_ip_def ipq_drain_eq_None)
next
  fix s' assume "ipq_send_ip src_ip dst_ip tos s = Some s'"
  then have d: "ipq_drain (Some (ip_cmp src_ip dst_ip tos)) (released s) s = Some s'" by (simp add: ipq_send_ip_def)
  show "ipq_ok s'" if "ipq_ok s" using ipq_drain_ok [OF d that] .
  from d obtain q where "ipq s = Some q" "s' = s\<lparr>ipq := Some (drained (ip_cmp src_ip dst_ip tos) q),
      out := out s @ concat (map (the \<circ> released s) (rev (filter (ip_cmp src_ip dst_ip tos) (waiting s))))\<rparr>"
    by (auto elim: ipq_drain_D)
  then show "out s' = out s @ concat (map (the \<circ> released s) (rev (filter (ip_cmp src_ip dst_ip tos) (waiting s))))"
    "waiting s' = filter (\<lambda>e. \<not> ip_cmp src_ip dst_ip tos e) (waiting s)"
    by (simp_all add: waiting_def)
qed

lemma ipq_drop_ip_None: "ipq_drop_ip src_ip dst_ip tos s = None \<longleftrightarrow> ipq s = None"
  by (simp add: ipq_drop_ip_def ipq_drain_eq_None)

lemma ipq_drop_ip_spec:
  assumes "ipq_drop_ip src_ip dst_ip tos s = Some s'"
  shows "s' = s\<lparr>ipq := ipq s', out := out s @ concat (map (\<lambda>e. [IcmpUnreach e, Reinject e NF_DROP])
           (rev (filter (ip_cmp src_ip dst_ip tos) (waiting s))))\<rparr>"
    and "waiting s' = filter (\<lambda>e. \<not> ip_cmp src_ip dst_ip tos e) (waiting s)"
  using assms unfolding ipq_drop_ip_def by (auto elim!: ipq_drain_D simp: comp_def waiting_def)

lemma ipq_send_ip_frame:
  "ipq_send_ip src_ip dst_ip tos s = Some s' \<Longrightarrow> \<exists>q es. s' = s\<lparr>ipq := Some q, out := out s @ es\<rparr>"
  unfolding ipq_send_ip_def by (auto elim!: ipq_drain_D)

definition sample_packet :: "nat \<Rightarrow> u32 \<Rightarrow> ipq_element" where
  "sample_packet i dst =
     \<lparr>iq_id = i, skb_saddr = 1, skb_daddr = dst, skb_tos = 0, skb_sk = True, iq_saddr = 1, iq_daddr = dst, iq_tos = 0,
      iq_indev = None, iq_outdev = Some 3\<rparr>"

lemma sample_packet_header [simp]:
  "skb_saddr (sample_packet i dst) = 1" "skb_daddr (sample_packet i dst) = dst" "skb_tos (sample_packet i dst) = 0"
  "skb_sk (sample_packet i dst)"
  "(sample_packet i dst)\<lparr>iq_saddr := 1, iq_daddr := dst, iq_tos := 0\<rparr> = sample_packet i dst"
  by (simp_all add: sample_packet_def)

definition sample_queued :: node where
  "sample_queued =
     snd (the (ipq_enqueue True (sample_packet 2 9) (snd (the (ipq_enqueue True (sample_packet 1 9) sample_node)))))"

lemma sample_queued_eq:
  "sample_queued = sample_node\<lparr>allocs := 2, ipq := Some \<lparr>ipq_len = 2, ipq_maxlen = 1024, ipq_flushing = False,
     ipq_terminate = False, ipq_list = [sample_packet 2 9, sample_packet 1 9]\<rparr>\<rparr>"
  by (simp add: sample_queued_def ipq_enqueue_def kmalloc_def sample_node_def sample_cfg_def Let_def)

lemma sample_queued_ok: "ipq_ok sample_queued"
  by (simp add: ipq_ok_def sample_queued_eq)

lemma ipq_send_ip_spec_witness:
  "\<exists>s'. ipq_send_ip 1 9 0 sample_queued = Some s' \<and> ipq_ok s'
     \<and> out s' = [SetRoute (sample_packet 1 9) 1, Reinject (sample_packet 1 9) NF_ACCEPT,
                SetRoute (sample_packet 2 9) 1, Reinject (sample_packet 2 9) NF_ACCEPT]"
proof -
  have w: "waiting sample_queued = [sample_packet 2 9, sample_packet 1 9]"
    by (simp add: waiting_def sample_queued_eq)
  note c = ipq_send_ip_spec [of 1 9 0 sample_queued]
  have "ipq sample_queued \<noteq> None" by (simp add: sample_queued_eq)
  with c have "ipq_send_ip 1 9 0 sample_queued \<noteq> None" by (simp add: w)
  then obtain s' where s': "ipq_send_ip 1 9 0 sample_queued = Some s'" by blast
  have m: "ip_cmp 1 9 0 (sample_packet i 9)" for i by (simp add: ip_cmp_def sample_packet_def)
  have r: "released sample_queued (sample_packet i 9) = Some [SetRoute (sample_packet i 9) 1, Reinject (sample_packet i 9) NF_ACCEPT]" for i
    by (simp add: released_def route_me_harder_def sample_queued_eq sample_node_def sample_cfg_def)
  have "out sample_queued = []" by (simp add: sample_queued_eq sample_node_def)
  with c sample_queued_ok s' show ?thesis unfolding w by (simp add: m r)
qed

text \<open>
  No packet is lost or given back twice: a flush gives every queued packet back as
  dropped, once, and an enqueue beyond the limit, or during a flush, takes nothing.
\<close>

lemma concat_singles: "concat (map (\<lambda>e. [f e]) ys) = map f ys"
  by (induction ys) simp_all

theorem ipq_flush_gives_back_all:
  assumes "ipq_ok s" and "ipq s = Some q"
  shows "\<exists>s' q'. ipq_flush s = Some s' \<and> out s' = out s @ map (\<lambda>e. Reinject e NF_DROP) (rev (waiting s))
     \<and> ipq s' = Some q' \<and> ipq_list q' = [] \<and> ipq_len q' = 0
     \<and> (ipq_len q = ipq_maxlen q \<or> ipq_flushing q \<or> ipq_terminate q \<longrightarrow>
          (\<exists>n t. ipq_enqueue p e s = Some (n, t) \<and> n < 0 \<and> ipq t = ipq s))"
  using assms by (auto simp: ipq_flush_def ipq_drain_Some ipq_ok_def ipq_enqueue_def kmalloc_def Let_def
      waiting_def comp_def concat_singles drained_def)

lemma ipq_flush_gives_back_all_witness:
  "\<exists>s'. ipq_flush sample_queued = Some s'
     \<and> out s' = [Reinject (sample_packet 1 9) NF_DROP, Reinject (sample_packet 2 9) NF_DROP]"
proof -
  have "ipq sample_queued = Some \<lparr>ipq_len = 2, ipq_maxlen = 1024, ipq_flushing = False,
     ipq_terminate = False, ipq_list = [sample_packet 2 9, sample_packet 1 9]\<rparr>"
    by (simp add: sample_queued_eq)
  from ipq_flush_gives_back_all [OF sample_queued_ok this]
  show ?thesis by (auto simp: waiting_def sample_queued_eq sample_node_def)
qed

end
