(* ===== verification/Ptr_List.thy ===== *)
theory Ptr_List
  imports Task_Queue
begin

text \<open>
  The doubly linked, ordered list that \<open>insert_aodv_route\<close>/\<open>remove_aodv_route\<close> and
  \<open>insert_brk_link\<close>/\<open>remove_brk_link\<close> keep, with the same code: nodes in a heap, the key
  (\<open>dst_ip\<close>), \<open>next\<close>, \<open>prev\<close> and the head pointer. \<open>None\<close> is the dereference of a NULL or freed
  pointer. The list level of the route table and of the broken links is justified by it.
\<close>

section \<open>Implementation\<close>

record dnode =
  dn_key :: u32
  dn_next :: "nat option"
  dn_prev :: "nat option"

record dlist =
  dl_heap :: "nat \<Rightarrow> dnode option"
  dl_head :: "nat option"

definition dderef :: "dlist \<Rightarrow> nat option \<Rightarrow> dnode option" where
  "dderef d p = Option.bind p (dl_heap d)"

definition dupd :: "nat option \<Rightarrow> (dnode \<Rightarrow> dnode) \<Rightarrow> dlist \<Rightarrow> dlist option" where
  "dupd p f d =
     (case p of
        None \<Rightarrow> None
      | Some a \<Rightarrow> (case dl_heap d a of
          None \<Rightarrow> None
        | Some n \<Rightarrow> Some (d\<lparr>dl_heap := (dl_heap d)(a \<mapsto> f n)\<rparr>)))"

text \<open>The search for the place: over the nodes of a smaller key, with the one before.\<close>

partial_function (option) place ::
    "u32 \<Rightarrow> dlist \<Rightarrow> nat option \<Rightarrow> nat option \<Rightarrow> (nat option \<times> nat option) option" where
  "place k d prev tmp =
     (case tmp of
        None \<Rightarrow> Some (prev, None)
      | Some a \<Rightarrow>
          Option.bind (dderef d tmp) (\<lambda>n.
            if dn_key n < k then place k d tmp (dn_next n) else Some (prev, tmp)))"

definition insert_ptr :: "nat \<Rightarrow> dlist \<Rightarrow> dlist option" where
  "insert_ptr a d = do {
     n \<leftarrow> dderef d (Some a);
     (prev, tmp) \<leftarrow> place (dn_key n) d None (dl_head d);
     if dl_head d \<noteq> None \<and> tmp = dl_head d then do {
       d1 \<leftarrow> dupd (dl_head d) (\<lambda>m. m\<lparr>dn_prev := Some a\<rparr>) d;
       d2 \<leftarrow> dupd (Some a) (\<lambda>m. m\<lparr>dn_next := dl_head d\<rparr>) d1;
       Some (d2\<lparr>dl_head := Some a\<rparr>)
     }
     else if dl_head d = None then Some (d\<lparr>dl_head := Some a\<rparr>)
     else if tmp = None then do {
       d1 \<leftarrow> dupd (Some a) (\<lambda>m. m\<lparr>dn_next := None, dn_prev := prev\<rparr>) d;
       dupd prev (\<lambda>m. m\<lparr>dn_next := Some a\<rparr>) d1
     }
     else do {
       d1 \<leftarrow> dupd tmp (\<lambda>m. m\<lparr>dn_prev := Some a\<rparr>) d;
       d2 \<leftarrow> dupd (Some a) (\<lambda>m. m\<lparr>dn_next := tmp, dn_prev := prev\<rparr>) d1;
       dupd prev (\<lambda>m. m\<lparr>dn_next := Some a\<rparr>) d2
     }
   }"

definition remove_ptr :: "nat \<Rightarrow> dlist \<Rightarrow> dlist option" where
  "remove_ptr a d = do {
     n \<leftarrow> dderef d (Some a);
     let d1 = (if dl_head d = Some a then d\<lparr>dl_head := dn_next n\<rparr> else d);
     d2 \<leftarrow> (if dn_prev n \<noteq> None then dupd (dn_prev n) (\<lambda>m. m\<lparr>dn_next := dn_next n\<rparr>) d1 else Some d1);
     d3 \<leftarrow> (if dn_next n \<noteq> None then dupd (dn_next n) (\<lambda>m. m\<lparr>dn_prev := dn_prev n\<rparr>) d2 else Some d2);
     Some (d3\<lparr>dl_heap := (dl_heap d3)(a := None)\<rparr>)
   }"

section \<open>Refinement\<close>

definition dkey :: "dlist \<Rightarrow> nat \<Rightarrow> u32 option" where
  "dkey d a = map_option dn_key (dl_heap d a)"

definition dnext :: "dlist \<Rightarrow> nat \<Rightarrow> nat option" where
  "dnext d a = Option.bind (dl_heap d a) dn_next"

definition dprev :: "dlist \<Rightarrow> nat \<Rightarrow> nat option" where
  "dprev d a = Option.bind (dl_heap d a) dn_prev"

lemmas dfields = dkey_def dnext_def dprev_def

lemma dhead_fields [simp]:
  "dkey (d\<lparr>dl_head := x\<rparr>) = dkey d" "dnext (d\<lparr>dl_head := x\<rparr>) = dnext d"
  "dprev (d\<lparr>dl_head := x\<rparr>) = dprev d"
  by (simp_all add: dfields fun_eq_iff)

text \<open>\<open>chain f as p\<close>: \<open>f\<close> leads along \<open>as\<close> and from its last element to \<open>p\<close>.\<close>

fun chain :: "(nat \<Rightarrow> nat option) \<Rightarrow> nat list \<Rightarrow> nat option \<Rightarrow> bool" where
  "chain f [] p = True"
| "chain f (a # as) p = (f a = (case as of [] \<Rightarrow> p | b # _ \<Rightarrow> Some b) \<and> chain f as p)"

definition first_of :: "nat list \<Rightarrow> nat option \<Rightarrow> nat option" where
  "first_of as p = (case as of [] \<Rightarrow> p | b # _ \<Rightarrow> Some b)"

lemma first_of_simps [simp]: "first_of [] p = p" "first_of (b # bs) p = Some b"
  by (simp_all add: first_of_def)

lemma chain_Cons: "chain f (a # as) p \<longleftrightarrow> f a = first_of as p \<and> chain f as p"
  by (simp add: first_of_def)

lemma chain_append: "chain f (as @ bs) p \<longleftrightarrow> chain f as (first_of bs p) \<and> chain f bs p"
proof (induction as)
  case (Cons a as)
  then show ?case by (cases as; cases bs) auto
qed simp

lemma chain_upd_notin: "a \<notin> set as \<Longrightarrow> chain (f(a := v)) as p = chain f as p"
  by (induction as) auto

lemma chain_upd_last: "distinct (as @ [a]) \<Longrightarrow> chain (f(a := p)) (as @ [a]) p = chain f as (Some a)"
  by (simp add: chain_append chain_upd_notin)

declare chain.simps(2) [simp del]

definition dl_rel :: "(nat \<Rightarrow> u32) \<Rightarrow> dlist \<Rightarrow> nat list \<Rightarrow> bool" where
  "dl_rel \<kappa> d as \<longleftrightarrow>
     distinct as \<and> (\<forall>a\<in>set as. dkey d a = Some (\<kappa> a)) \<and> dl_head d = first_of as None \<and>
     chain (dnext d) as None \<and> chain (dprev d) (rev as) None"

definition dl_fresh :: "(nat \<Rightarrow> u32) \<Rightarrow> dlist \<Rightarrow> nat \<Rightarrow> bool" where
  "dl_fresh \<kappa> d a \<longleftrightarrow> dl_heap d a = Some \<lparr>dn_key = \<kappa> a, dn_next = None, dn_prev = None\<rparr>"

lemma dupd_next:
  assumes "dkey d a = Some k"
  shows "\<exists>d'. dupd (Some a) (\<lambda>m. m\<lparr>dn_next := x\<rparr>) d = Some d' \<and> dkey d' = dkey d
     \<and> dnext d' = (dnext d)(a := x) \<and> dprev d' = dprev d \<and> dl_head d' = dl_head d
     \<and> (\<forall>b. b \<noteq> a \<longrightarrow> dl_heap d' b = dl_heap d b)"
  using assms by (auto simp: dupd_def dfields fun_eq_iff)

lemma dupd_prev:
  assumes "dkey d a = Some k"
  shows "\<exists>d'. dupd (Some a) (\<lambda>m. m\<lparr>dn_prev := x\<rparr>) d = Some d' \<and> dkey d' = dkey d
     \<and> dnext d' = dnext d \<and> dprev d' = (dprev d)(a := x) \<and> dl_head d' = dl_head d
     \<and> (\<forall>b. b \<noteq> a \<longrightarrow> dl_heap d' b = dl_heap d b)"
  using assms by (auto simp: dupd_def dfields fun_eq_iff)

lemma dupd_both:
  assumes "dkey d a = Some k"
  shows "\<exists>d'. dupd (Some a) (\<lambda>m. m\<lparr>dn_next := x, dn_prev := y\<rparr>) d = Some d' \<and> dkey d' = dkey d
     \<and> dnext d' = (dnext d)(a := x) \<and> dprev d' = (dprev d)(a := y) \<and> dl_head d' = dl_head d
     \<and> (\<forall>b. b \<noteq> a \<longrightarrow> dl_heap d' b = dl_heap d b)"
  using assms by (auto simp: dupd_def dfields fun_eq_iff)

lemma dderef_fields:
  assumes "dkey d a = Some k"
  shows "\<exists>n. dderef d (Some a) = Some n \<and> dn_key n = k \<and> dn_next n = dnext d a \<and> dn_prev n = dprev d a"
  using assms by (auto simp: dderef_def dfields)

lemma place_None [simp]: "place k d prev None = Some (prev, None)"
  by (subst place.simps) simp

lemma place_chain:
  "\<forall>a\<in>set (xs @ ys). dkey d a = Some (\<kappa> a) \<Longrightarrow> chain (dnext d) (xs @ ys) None \<Longrightarrow>
     \<forall>a\<in>set xs. \<kappa> a < k \<Longrightarrow> ys \<noteq> [] \<longrightarrow> \<not> \<kappa> (hd ys) < k \<Longrightarrow>
     place k d p (first_of (xs @ ys) None) = Some (if xs = [] then p else Some (last xs), first_of ys None)"
proof (induction xs arbitrary: p)
  case Nil
  show ?case
  proof (cases ys)
    case (Cons b bs)
    with Nil dderef_fields [of d b "\<kappa> b"] show ?thesis by (subst place.simps) auto
  qed simp
next
  case (Cons a xs)
  obtain n where "dderef d (Some a) = Some n" "dn_key n = \<kappa> a" "dn_next n = dnext d a"
    using Cons.prems(1) dderef_fields [of d a "\<kappa> a"] by auto
  moreover have "dnext d a = first_of (xs @ ys) None" using Cons.prems(2) by (simp add: chain_Cons)
  ultimately have "place k d p (Some a) = place k d (Some a) (first_of (xs @ ys) None)"
    using Cons.prems(3) by (subst place.simps) simp
  also have "\<dots> = Some (if xs = [] then Some a else Some (last xs), first_of ys None)"
    using Cons.prems by (intro Cons.IH) (simp_all add: chain_Cons)
  finally show ?case by simp
qed

lemma insert_front:
  assumes rel: "dl_rel \<kappa> d (b # bs)" and fresh: "dl_fresh \<kappa> d a" "a \<notin> set (b # bs)" and key: "\<not> \<kappa> b < \<kappa> a"
  shows "\<exists>d'. insert_ptr a d = Some d' \<and> dl_rel \<kappa> d' (a # b # bs) \<and> (\<forall>x. x \<notin> set (a # b # bs) \<longrightarrow> dl_heap d' x = dl_heap d x)"
proof -
  have kb: "dkey d b = Some (\<kappa> b)" and hd: "dl_head d = Some b" using rel by (simp_all add: dl_rel_def)
  obtain d1 where d1: "dupd (Some b) (\<lambda>m. m\<lparr>dn_prev := Some a\<rparr>) d = Some d1" "dkey d1 = dkey d"
    "dnext d1 = dnext d" "dprev d1 = (dprev d)(b := Some a)" "dl_head d1 = dl_head d"
    "\<forall>x. x \<noteq> b \<longrightarrow> dl_heap d1 x = dl_heap d x"
    using dupd_prev [OF kb] by blast
  have fa: "dkey d a = Some (\<kappa> a)" "dprev d a = None" using fresh(1) by (simp_all add: dl_fresh_def dfields)
  then have "dkey d1 a = Some (\<kappa> a)" using d1(2) by simp
  then obtain d2 where d2: "dupd (Some a) (\<lambda>m. m\<lparr>dn_next := Some b\<rparr>) d1 = Some d2" "dkey d2 = dkey d1"
    "dnext d2 = (dnext d1)(a := Some b)" "dprev d2 = dprev d1" "dl_head d2 = dl_head d1"
    "\<forall>x. x \<noteq> a \<longrightarrow> dl_heap d2 x = dl_heap d1 x"
    using dupd_next by blast
  obtain n where n: "dderef d (Some a) = Some n" "dn_key n = \<kappa> a" using dderef_fields [OF fa(1)] by blast
  have "place (\<kappa> a) d None (dl_head d) = Some (None, Some b)"
    using place_chain [of "[]" "b # bs" d \<kappa> "\<kappa> a" None] rel key hd by (simp add: dl_rel_def)
  with n hd d1 d2 have "insert_ptr a d = Some (d2\<lparr>dl_head := Some a\<rparr>)" by (simp add: insert_ptr_def)
  moreover have "chain (dprev d2) (rev (b # bs) @ [a]) None"
    using rel d1 d2 fa fresh(2) chain_upd_last [of "rev bs" b "dprev d" "Some a"]
    by (auto simp: dl_rel_def chain_append chain_Cons chain_upd_notin)
  moreover have "chain (dnext d2) (a # b # bs) None"
    using rel d1 d2 fresh(2) by (simp add: dl_rel_def chain_upd_notin chain_Cons)
  moreover have "\<forall>x. x \<notin> set (a # b # bs) \<longrightarrow> dl_heap d2 x = dl_heap d x"
    using d1(6) d2(6) by auto
  ultimately show ?thesis
    using rel d1 d2 fa fresh(2) by (simp add: dl_rel_def)
qed

lemma insert_end:
  assumes rel: "dl_rel \<kappa> d (xs @ [l])" and fresh: "dl_fresh \<kappa> d a" "a \<notin> set (xs @ [l])"
    and key: "\<forall>x\<in>set (xs @ [l]). \<kappa> x < \<kappa> a"
  shows "\<exists>d'. insert_ptr a d = Some d' \<and> dl_rel \<kappa> d' (xs @ [l, a]) \<and> (\<forall>x. x \<notin> set (xs @ [l, a]) \<longrightarrow> dl_heap d' x = dl_heap d x)"
proof -
  have kl: "dkey d l = Some (\<kappa> l)" and hd: "dl_head d = first_of (xs @ [l]) None"
    using rel by (simp_all add: dl_rel_def)
  have ne: "dl_head d \<noteq> None" using hd by (cases xs) simp_all
  have fa: "dkey d a = Some (\<kappa> a)" using fresh(1) by (simp add: dl_fresh_def dfields)
  obtain d1 where d1: "dupd (Some a) (\<lambda>m. m\<lparr>dn_next := None, dn_prev := Some l\<rparr>) d = Some d1" "dkey d1 = dkey d"
    "dnext d1 = (dnext d)(a := None)" "dprev d1 = (dprev d)(a := Some l)" "dl_head d1 = dl_head d"
    "\<forall>x. x \<noteq> a \<longrightarrow> dl_heap d1 x = dl_heap d x"
    using dupd_both [OF fa] by blast
  have "dkey d1 l = Some (\<kappa> l)" using kl d1(2) by simp
  then obtain d2 where d2: "dupd (Some l) (\<lambda>m. m\<lparr>dn_next := Some a\<rparr>) d1 = Some d2" "dkey d2 = dkey d1"
    "dnext d2 = (dnext d1)(l := Some a)" "dprev d2 = dprev d1" "dl_head d2 = dl_head d1"
    "\<forall>x. x \<noteq> l \<longrightarrow> dl_heap d2 x = dl_heap d1 x"
    using dupd_next by blast
  obtain n where n: "dderef d (Some a) = Some n" "dn_key n = \<kappa> a" using dderef_fields [OF fa] by blast
  have "place (\<kappa> a) d None (dl_head d) = Some (Some l, None)"
    using place_chain [of "xs @ [l]" "[]" d \<kappa> "\<kappa> a" None] rel key hd by (simp add: dl_rel_def)
  with n ne d1 d2 have "insert_ptr a d = Some d2" by (auto simp: insert_ptr_def)
  moreover have "chain (dnext d2) ((xs @ [l]) @ [a]) None"
    using rel d1 d2 fresh(2) chain_upd_last [of xs l "(dnext d)(a := None)" "Some a"]
    by (auto simp: dl_rel_def chain_append chain_Cons chain_upd_notin)
  moreover have "chain (dprev d2) (a # l # rev xs) None"
    using rel d1 d2 fresh(2) by (simp add: dl_rel_def chain_upd_notin chain_Cons)
  moreover have "\<forall>x. x \<notin> set (xs @ [l, a]) \<longrightarrow> dl_heap d2 x = dl_heap d x"
    using d1(6) d2(6) by auto
  moreover have "first_of (xs @ [l, a]) None = first_of (xs @ [l]) None" by (cases xs) simp_all
  ultimately show ?thesis
    using rel d1 d2 fa fresh(2) by (simp add: dl_rel_def)
qed

lemma insert_middle:
  assumes rel: "dl_rel \<kappa> d (xs @ l # b # bs)" and fresh: "dl_fresh \<kappa> d a" "a \<notin> set (xs @ l # b # bs)"
    and key: "\<forall>x\<in>set (xs @ [l]). \<kappa> x < \<kappa> a" "\<not> \<kappa> b < \<kappa> a"
  shows "\<exists>d'. insert_ptr a d = Some d' \<and> dl_rel \<kappa> d' (xs @ l # a # b # bs) \<and>
     (\<forall>x. x \<notin> set (xs @ l # a # b # bs) \<longrightarrow> dl_heap d' x = dl_heap d x)"
proof -
  have fo: "first_of (xs @ l # b # bs) None = first_of (xs @ [l]) None" by (cases xs) simp_all
  have kl: "dkey d l = Some (\<kappa> l)" "dkey d b = Some (\<kappa> b)" and hd: "dl_head d = first_of (xs @ [l]) None"
    using rel fo by (simp_all add: dl_rel_def)
  have ne: "dl_head d \<noteq> None" "dl_head d \<noteq> Some b"
    using rel by (cases xs; auto simp: dl_rel_def)+
  have fa: "dkey d a = Some (\<kappa> a)" using fresh(1) by (simp add: dl_fresh_def dfields)
  obtain d1 where d1: "dupd (Some b) (\<lambda>m. m\<lparr>dn_prev := Some a\<rparr>) d = Some d1" "dkey d1 = dkey d"
    "dnext d1 = dnext d" "dprev d1 = (dprev d)(b := Some a)" "dl_head d1 = dl_head d"
    "\<forall>x. x \<noteq> b \<longrightarrow> dl_heap d1 x = dl_heap d x"
    using dupd_prev [OF kl(2)] by blast
  have "dkey d1 a = Some (\<kappa> a)" using fa d1(2) by simp
  then obtain d2 where d2: "dupd (Some a) (\<lambda>m. m\<lparr>dn_next := Some b, dn_prev := Some l\<rparr>) d1 = Some d2"
    "dkey d2 = dkey d1" "dnext d2 = (dnext d1)(a := Some b)" "dprev d2 = (dprev d1)(a := Some l)"
    "dl_head d2 = dl_head d1" "\<forall>x. x \<noteq> a \<longrightarrow> dl_heap d2 x = dl_heap d1 x"
    using dupd_both by blast
  have "dkey d2 l = Some (\<kappa> l)" using kl d1(2) d2(2) by simp
  then obtain d3 where d3: "dupd (Some l) (\<lambda>m. m\<lparr>dn_next := Some a\<rparr>) d2 = Some d3" "dkey d3 = dkey d2"
    "dnext d3 = (dnext d2)(l := Some a)" "dprev d3 = dprev d2" "dl_head d3 = dl_head d2"
    "\<forall>x. x \<noteq> l \<longrightarrow> dl_heap d3 x = dl_heap d2 x"
    using dupd_next by blast
  obtain n where n: "dderef d (Some a) = Some n" "dn_key n = \<kappa> a" using dderef_fields [OF fa] by blast
  from fo have "place (\<kappa> a) d None (dl_head d) = Some (Some l, Some b)"
    using place_chain [of "xs @ [l]" "b # bs" d \<kappa> "\<kappa> a" None] rel key hd by (simp add: dl_rel_def)
  with n ne d1 d2 d3 have "insert_ptr a d = Some d3" by (auto simp: insert_ptr_def)
  moreover have "chain (dnext d3) ((xs @ [l]) @ a # b # bs) None"
    using rel d1 d2 d3 fresh(2) chain_upd_last [of xs l "(dnext d)(a := Some b)" "Some a"]
    by (auto simp: dl_rel_def chain_append chain_Cons chain_upd_notin)
  moreover have "chain (dprev d3) ((rev bs @ [b]) @ a # l # rev xs) None"
    using rel d1 d2 d3 fresh(2) chain_upd_last [of "rev bs" b "dprev d" "Some a"]
    by (auto simp: dl_rel_def chain_append chain_Cons chain_upd_notin)
  moreover have "\<forall>x. x \<notin> set (xs @ l # a # b # bs) \<longrightarrow> dl_heap d3 x = dl_heap d x"
    using d1(6) d2(6) d3(6) by auto
  moreover have "first_of (xs @ l # a # b # bs) None = first_of (xs @ [l]) None" by (cases xs) simp_all
  ultimately show ?thesis
    using rel d1 d2 d3 fa hd fresh(2) by (simp add: dl_rel_def)
qed

text \<open>Insertion in front of the first key that is not smaller, as in every ordered table.\<close>

definition insert_at :: "(nat \<Rightarrow> u32) \<Rightarrow> nat \<Rightarrow> nat list \<Rightarrow> nat list" where
  "insert_at \<kappa> a as = takeWhile (\<lambda>x. \<kappa> x < \<kappa> a) as @ a # dropWhile (\<lambda>x. \<kappa> x < \<kappa> a) as"

interpretation addresses: ordered_table \<kappa> "insert_at \<kappa>" for \<kappa> :: "nat \<Rightarrow> u32"
  by unfold_locales (simp add: insert_at_def)

lemma insert_ptr_refines:
  assumes rel: "dl_rel \<kappa> d as" and fresh: "dl_fresh \<kappa> d a" "a \<notin> set as"
  shows "\<exists>d'. insert_ptr a d = Some d' \<and> dl_rel \<kappa> d' (insert_at \<kappa> a as)
     \<and> (\<forall>x. x \<notin> insert a (set as) \<longrightarrow> dl_heap d' x = dl_heap d x)"
proof -
  let ?xs = "takeWhile (\<lambda>x. \<kappa> x < \<kappa> a) as" and ?ys = "dropWhile (\<lambda>x. \<kappa> x < \<kappa> a) as"
  have as: "as = ?xs @ ?ys" by simp
  have lt: "\<forall>x\<in>set ?xs. \<kappa> x < \<kappa> a" by (meson set_takeWhileD)
  have ge: "?ys = b # bs \<Longrightarrow> \<not> \<kappa> b < \<kappa> a" for b bs by (simp add: dropWhile_eq_Cons_conv)
  show ?thesis
  proof (cases ?xs rule: rev_cases)
    case xs: Nil
    show ?thesis
    proof (cases ?ys)
      case ys: Nil
      then have "as = []" using xs as by (metis append_Nil)
      moreover obtain n where "dderef d (Some a) = Some n" "dn_key n = \<kappa> a"
        using fresh(1) by (auto simp: dl_fresh_def dderef_def)
      ultimately show ?thesis
        using rel fresh(1) by (simp add: insert_ptr_def dl_rel_def insert_at_def dl_fresh_def chain_Cons dfields)
    next
      case ys: (Cons b bs)
      have eq: "as = b # bs" "insert_at \<kappa> a as = a # b # bs"
        using as unfolding insert_at_def xs ys by simp_all
      from insert_front [OF rel [unfolded eq(1)] fresh(1) fresh(2) [unfolded eq(1)] ge [OF ys]]
      show ?thesis unfolding eq(2) unfolding eq(1) by simp
    qed
  next
    case xs: (snoc us l)
    show ?thesis
    proof (cases ?ys)
      case ys: Nil
      have eq: "as = us @ [l]" "insert_at \<kappa> a as = us @ [l, a]"
        using as unfolding insert_at_def xs ys by simp_all
      have "\<forall>x\<in>set (us @ [l]). \<kappa> x < \<kappa> a" using lt xs by simp
      from insert_end [OF rel [unfolded eq(1)] fresh(1) fresh(2) [unfolded eq(1)] this]
      show ?thesis unfolding eq(2) unfolding eq(1) by auto
    next
      case ys: (Cons b bs)
      have eq: "as = us @ l # b # bs" "insert_at \<kappa> a as = us @ l # a # b # bs"
        using as unfolding insert_at_def xs ys by simp_all
      have "\<forall>x\<in>set (us @ [l]). \<kappa> x < \<kappa> a" using lt xs by simp
      from insert_middle [OF rel [unfolded eq(1)] fresh(1) fresh(2) [unfolded eq(1)] this ge [OF ys]]
      show ?thesis unfolding eq(2) unfolding eq(1) by auto
    qed
  qed
qed

lemma remove_ptr_refines:
  assumes rel: "dl_rel \<kappa> d (xs @ a # ys)"
  shows "\<exists>d'. remove_ptr a d = Some d' \<and> dl_rel \<kappa> d' (xs @ ys) \<and> dl_heap d' a = None
     \<and> (\<forall>x. x \<notin> set (xs @ a # ys) \<longrightarrow> dl_heap d' x = dl_heap d x)"
proof -
  have ka: "dkey d a = Some (\<kappa> a)" and d: "distinct (xs @ a # ys)" using rel by (simp_all add: dl_rel_def)
  obtain n where n: "dderef d (Some a) = Some n" "dn_next n = dnext d a" "dn_prev n = dprev d a"
    using dderef_fields [OF ka] by blast
  have nx: "dnext d a = first_of ys None" and pv: "dprev d a = first_of (rev xs) None"
    using rel by (simp_all add: dl_rel_def chain_append chain_Cons)
  define d1 where "d1 = (if dl_head d = Some a then d\<lparr>dl_head := dnext d a\<rparr> else d)"
  have d1: "dkey d1 = dkey d" "dnext d1 = dnext d" "dprev d1 = dprev d" "dl_heap d1 = dl_heap d"
    "dl_head d1 = first_of (xs @ ys) None"
    using rel d nx by (cases xs; auto simp: d1_def dl_rel_def)+
  obtain d2 where d2: "(if dprev d a \<noteq> None then dupd (dprev d a) (\<lambda>m. m\<lparr>dn_next := dnext d a\<rparr>) d1
        else Some d1) = Some d2"
    "dkey d2 = dkey d" "dprev d2 = dprev d" "dl_head d2 = dl_head d1"
    "chain (dnext d2) (xs @ ys) None" "\<forall>x. x \<notin> set xs \<longrightarrow> dl_heap d2 x = dl_heap d x"
  proof (cases xs rule: rev_cases)
    case Nil
    with that [of d1] pv d1 rel show ?thesis by (simp add: dl_rel_def chain_Cons)
  next
    case (snoc us l)
    then have "dkey d1 l = Some (\<kappa> l)" using rel d1 by (simp add: dl_rel_def)
    then obtain e where e: "dupd (Some l) (\<lambda>m. m\<lparr>dn_next := dnext d a\<rparr>) d1 = Some e" "dkey e = dkey d1"
      "dnext e = (dnext d1)(l := dnext d a)" "dprev e = dprev d1" "dl_head e = dl_head d1"
      "\<forall>b. b \<noteq> l \<longrightarrow> dl_heap e b = dl_heap d1 b"
      using dupd_next by blast
    have "chain (dnext e) (xs @ ys) None"
      using rel d e d1 snoc nx by (simp add: dl_rel_def chain_append chain_Cons chain_upd_notin)
    with that [of e] e d1 pv snoc show ?thesis by auto
  qed
  obtain d3 where d3: "(if dnext d a \<noteq> None then dupd (dnext d a) (\<lambda>m. m\<lparr>dn_prev := dprev d a\<rparr>) d2
        else Some d2) = Some d3"
    "dkey d3 = dkey d" "dnext d3 = dnext d2" "dl_head d3 = dl_head d1"
    "chain (dprev d3) (rev ys @ rev xs) None" "\<forall>x. x \<notin> set ys \<longrightarrow> dl_heap d3 x = dl_heap d2 x"
  proof (cases ys)
    case Nil
    with that [of d2] nx d2 rel show ?thesis by (simp add: dl_rel_def chain_append chain_Cons)
  next
    case (Cons b bs)
    then have "dkey d2 b = Some (\<kappa> b)" using rel d2 by (simp add: dl_rel_def)
    then obtain e where e: "dupd (Some b) (\<lambda>m. m\<lparr>dn_prev := dprev d a\<rparr>) d2 = Some e" "dkey e = dkey d2"
      "dnext e = dnext d2" "dprev e = (dprev d2)(b := dprev d a)" "dl_head e = dl_head d2"
      "\<forall>x. x \<noteq> b \<longrightarrow> dl_heap e x = dl_heap d2 x"
      using dupd_prev by blast
    have "chain (dprev e) (rev ys @ rev xs) None"
      using rel d e d2 Cons pv by (simp add: dl_rel_def chain_append chain_Cons chain_upd_notin)
    with that [of e] e d2 nx Cons show ?thesis by auto
  qed
  let ?d = "d3\<lparr>dl_heap := (dl_heap d3)(a := None)\<rparr>"
  have "remove_ptr a d = Some ?d"
    by (simp only: remove_ptr_def n Option.bind.simps Let_def d1_def [symmetric] d2(1) d3(1))
  moreover have "dnext ?d = (dnext d3)(a := None)" "dprev ?d = (dprev d3)(a := None)"
    by (auto simp: dfields fun_eq_iff)
  then have "chain (dnext ?d) (xs @ ys) None" "chain (dprev ?d) (rev (xs @ ys)) None"
    using d d2(5) d3(3,5) by (simp_all add: chain_upd_notin)
  moreover have "\<forall>x\<in>set (xs @ ys). dkey ?d x = Some (\<kappa> x)"
  proof
    fix x assume x: "x \<in> set (xs @ ys)"
    then have "x \<noteq> a" using d by auto
    then have "dkey ?d x = dkey d3 x" by (simp add: dkey_def)
    with x rel d3(2) show "dkey ?d x = Some (\<kappa> x)" by (auto simp: dl_rel_def)
  qed
  ultimately show ?thesis
    using d d1(5) d2(6) d3(4,6) by (auto simp: dl_rel_def)
qed

section \<open>The interface of the list\<close>

datatype lop = Ins nat | Del nat

fun lop_spec :: "(nat \<Rightarrow> nat list \<Rightarrow> nat list) \<Rightarrow> lop list \<Rightarrow> nat list \<Rightarrow> nat list" where
  "lop_spec ins [] as = as"
| "lop_spec ins (Ins a # ops) as = lop_spec ins ops (ins a as)"
| "lop_spec ins (Del a # ops) as = lop_spec ins ops (remove1 a as)"

text \<open>A node is inserted once, and removed only while it is in the list.\<close>

fun lop_ok :: "(nat \<Rightarrow> nat list \<Rightarrow> nat list) \<Rightarrow> lop list \<Rightarrow> nat list \<Rightarrow> bool" where
  "lop_ok ins [] as = True"
| "lop_ok ins (Ins a # ops) as = (a \<notin> set as \<and> Ins a \<notin> set ops \<and> lop_ok ins ops (ins a as))"
| "lop_ok ins (Del a # ops) as = (a \<in> set as \<and> lop_ok ins ops (remove1 a as))"

locale linked_table =
  fixes rel :: "'d \<Rightarrow> nat list \<Rightarrow> bool"
    and ready :: "'d \<Rightarrow> nat \<Rightarrow> bool"
    and spec_ins :: "nat \<Rightarrow> nat list \<Rightarrow> nat list"
    and ins :: "nat \<Rightarrow> 'd \<Rightarrow> 'd option"
    and del :: "nat \<Rightarrow> 'd \<Rightarrow> 'd option"
  assumes ins_refines:
      "rel d as \<Longrightarrow> ready d a \<Longrightarrow> a \<notin> set as \<Longrightarrow>
         \<exists>d'. ins a d = Some d' \<and> rel d' (spec_ins a as) \<and> (\<forall>x. x \<notin> insert a (set as) \<longrightarrow> ready d' x = ready d x)"
    and del_refines:
      "rel d as \<Longrightarrow> a \<in> set as \<Longrightarrow>
         \<exists>d'. del a d = Some d' \<and> rel d' (remove1 a as) \<and> (\<forall>x. x \<notin> set as \<longrightarrow> ready d' x = ready d x)"
    and set_spec_ins: "set (spec_ins a as) = insert a (set as)"
    and rel_distinct: "rel d as \<Longrightarrow> distinct as"
begin

fun run :: "lop list \<Rightarrow> 'd \<Rightarrow> 'd option" where
  "run [] d = Some d"
| "run (Ins a # ops) d = Option.bind (ins a d) (run ops)"
| "run (Del a # ops) d = Option.bind (del a d) (run ops)"

lemma run_refines:
  "rel d as \<Longrightarrow> lop_ok spec_ins ops as \<Longrightarrow> \<forall>a. Ins a \<in> set ops \<longrightarrow> a \<notin> set as \<and> ready d a \<Longrightarrow>
     \<exists>d'. run ops d = Some d' \<and> rel d' (lop_spec spec_ins ops as)"
proof (induction ops arbitrary: d as)
  case Nil
  then show ?case by simp
next
  case (Cons op ops)
  show ?case
  proof (cases op)
    case (Ins a)
    with Cons.prems ins_refines [of d as a] obtain d' where d': "ins a d = Some d'" "rel d' (spec_ins a as)"
      "\<forall>x. x \<notin> insert a (set as) \<longrightarrow> ready d' x = ready d x" by auto
    have "\<forall>x. Ins x \<in> set ops \<longrightarrow> x \<notin> set (spec_ins a as) \<and> ready d' x"
      using Cons.prems Ins d'(3) by (auto simp: set_spec_ins)
    with Cons.IH [OF d'(2)] Cons.prems Ins d'(1) show ?thesis by simp
  next
    case (Del a)
    with Cons.prems del_refines [of d as a] obtain d' where d': "del a d = Some d'" "rel d' (remove1 a as)"
      "\<forall>x. x \<notin> set as \<longrightarrow> ready d' x = ready d x" by auto
    have "\<forall>x. Ins x \<in> set ops \<longrightarrow> x \<notin> set (remove1 a as) \<and> ready d' x"
      using Cons.prems Del d'(3) set_remove1_subset [of a as] by auto
    with Cons.IH [OF d'(2)] Cons.prems Del d'(1) show ?thesis by simp
  qed
qed

end

interpretation dl: linked_table "dl_rel \<kappa>" "dl_fresh \<kappa>" "insert_at \<kappa>" insert_ptr remove_ptr
  for \<kappa> :: "nat \<Rightarrow> u32"
proof (unfold_locales, goal_cases)
  case (1 d as a)
  then show ?case using insert_ptr_refines [of \<kappa> d as a] by (auto simp: dl_fresh_def)
next
  case (2 d as a)
  then obtain xs ys where as: "as = xs @ a # ys" by (meson split_list)
  then have "remove1 a as = xs @ ys" using 2(1) by (simp add: dl_rel_def remove1_append)
  with as 2(1) remove_ptr_refines [of \<kappa> d xs a ys] show ?case by (auto simp: dl_fresh_def)
next
  case (3 a as)
  then show ?case by simp
next
  case (4 d as)
  then show ?case by (simp add: dl_rel_def)
qed

fun run_lops :: "lop list \<Rightarrow> dlist \<Rightarrow> dlist option" where
  "run_lops [] d = Some d"
| "run_lops (Ins a # ops) d = Option.bind (insert_ptr a d) (run_lops ops)"
| "run_lops (Del a # ops) d = Option.bind (remove_ptr a d) (run_lops ops)"

lemma run_lops_eq: "run_lops ops d = dl.run ops d"
proof (induction ops arbitrary: d)
  case (Cons op ops)
  then have "run_lops ops = dl.run ops" by (simp add: fun_eq_iff)
  then show ?case by (cases op) simp_all
qed simp

lemma sorted_remove1: "sorted (map k xs) \<Longrightarrow> sorted (map k (remove1 a xs))"
  by (induction xs) (auto dest: notin_set_remove1 in_set_remove1)

lemma lop_spec_sorted: "sorted (map \<kappa> as) \<Longrightarrow> sorted (map \<kappa> (lop_spec (insert_at \<kappa>) ops as))"
proof (induction ops arbitrary: as)
  case (Cons op ops)
  then show ?case by (cases op) (simp_all add: addresses.sorted_ins sorted_remove1)
qed simp

text \<open>
  C18: whatever nodes are inserted and removed, the doubly linked list of \<open>aodv_route.c\<close> and
  \<open>brk_list.c\<close> follows no bad pointer, its links in both directions spell out the list that
  the insertions and removals give, and that list is in the order of the destinations.
\<close>

theorem linked_route_list:
  assumes "dl_head d = None" and "lop_ok (insert_at \<kappa>) ops []"
    and "\<forall>a. Ins a \<in> set ops \<longrightarrow> dl_fresh \<kappa> d a"
  shows "\<exists>d'. run_lops ops d = Some d' \<and> dl_rel \<kappa> d' (lop_spec (insert_at \<kappa>) ops [])
     \<and> sorted (map \<kappa> (lop_spec (insert_at \<kappa>) ops []))"
proof -
  have "dl_rel \<kappa> d []" using assms(1) by (simp add: dl_rel_def)
  from dl.run_refines [OF this assms(2)] assms(3) lop_spec_sorted [of \<kappa> "[]" ops]
  show ?thesis by (simp add: run_lops_eq)
qed

definition sample_dlist :: dlist where
  "sample_dlist =
     \<lparr>dl_heap = (\<lambda>a. if a \<le> 30 then Some \<lparr>dn_key = of_nat a, dn_next = None, dn_prev = None\<rparr> else None),
      dl_head = None\<rparr>"

lemma linked_route_list_witness:
  "\<exists>d'. run_lops [Ins 20, Ins 10, Ins 30, Del 20] sample_dlist = Some d' \<and> dl_rel of_nat d' [10, 30]"
  using linked_route_list [of sample_dlist of_nat "[Ins 20, Ins 10, Ins 30, Del 20]"]
  by (simp add: insert_at_def sample_dlist_def dl_fresh_def)

end
