(* ===== verification/Route_Table.thy ===== *)
theory Route_Table
  imports Freshness Flow_Types Packet_Queue Ptr_List
begin

text \<open>
  The route table of \<open>aodv_route.c\<close>: routes in the order of their destinations, found by
  source, destination and ToS, installed by the requests (\<open>rreq_aodv_route\<close>), confirmed by the
  replies (\<open>rrep_aodv_route\<close>), expired and removed by the periodic flush. A route in the
  caller's hands is the record with its address \<open>rt_addr\<close>; a store through that pointer is
  \<open>set_route\<close>.
\<close>

section \<open>Access\<close>

definition init_aodv_route_table :: "node \<Rightarrow> node" where
  "init_aodv_route_table s = s\<lparr>route_table := []\<rparr>"

definition first_aodv_route :: "node \<Rightarrow> aodv_route option" where
  "first_aodv_route s = (case route_table s of [] \<Rightarrow> None | r # rs \<Rightarrow> Some r)"

definition set_route :: "nat \<Rightarrow> (aodv_route \<Rightarrow> aodv_route) \<Rightarrow> node \<Rightarrow> node" where
  "set_route a f s = s\<lparr>route_table := update_first (\<lambda>r. rt_addr r = a) f (route_table s)\<rparr>"

text \<open>The routes of one destination: past the smaller keys, as long as the key is right.\<close>

definition routes_to :: "u32 \<Rightarrow> aodv_route list \<Rightarrow> aodv_route list" where
  "routes_to dst_ip rs = takeWhile (\<lambda>r. rt_dst_ip r = dst_ip) (dropWhile (\<lambda>r. rt_dst_ip r < dst_ip) rs)"

definition search_routes :: "u32 \<Rightarrow> (aodv_route \<Rightarrow> bool) \<Rightarrow> aodv_route list \<Rightarrow> aodv_route option" where
  "search_routes dst_ip P rs = List.find P (routes_to dst_ip rs)"

definition find_aodv_route :: "u32 \<Rightarrow> u32 \<Rightarrow> u8 \<Rightarrow> node \<Rightarrow> aodv_route option" where
  "find_aodv_route src_ip dst_ip tos s =
     search_routes dst_ip (\<lambda>r. rt_src_ip r = src_ip \<and> rt_tos r = tos) (route_table s)"

definition find_aodv_route_by_id :: "u32 \<Rightarrow> u32 \<Rightarrow> node \<Rightarrow> aodv_route option" where
  "find_aodv_route_by_id dst_ip dst_id s =
     search_routes dst_ip (\<lambda>r. rt_dst_id r = dst_id) (route_table s)"

definition is_overlapped_with_route :: "brk_link \<Rightarrow> node \<Rightarrow> bool" where
  "is_overlapped_with_route l s \<longleftrightarrow>
     search_routes (bl_last_avail_ip l) (\<lambda>r. rt_src_ip r = bl_src_ip l) (route_table s) \<noteq> None"

section \<open>Load\<close>

definition update_my_load :: "node \<Rightarrow> node" where
  "update_my_load s =
     (let new_load = fold (\<lambda>r l. if rt_state r = ACTIVE then l + rt_load r else l) (route_table s) 0 in
      if mesh_load s \<noteq> new_load
      then s\<lparr>mesh_load := new_load,
             mesh_load_seq := (if mesh_load_seq s = 65535 then 1 else mesh_load_seq s + 1)\<rparr>
      else s)"

section \<open>Changing routes\<close>

definition expire_aodv_route :: "nat \<Rightarrow> node \<Rightarrow> node" where
  "expire_aodv_route a s =
     set_route a (\<lambda>r. r\<lparr>rt_lifetime := currtime s + DELETE_PERIOD, rt_state := INVALID\<rparr>) s"

definition remove_aodv_route :: "nat \<Rightarrow> node \<Rightarrow> node" where
  "remove_aodv_route a s = s\<lparr>route_table := remove_first (\<lambda>r. rt_addr r = a) (route_table s)\<rparr>"

fun insert_route :: "aodv_route \<Rightarrow> aodv_route list \<Rightarrow> aodv_route list" where
  "insert_route r [] = [r]"
| "insert_route r (x # xs) =
     (if rt_dst_ip x < rt_dst_ip r then x # insert_route r xs else r # x # xs)"

definition insert_aodv_route :: "aodv_route \<Rightarrow> node \<Rightarrow> node" where
  "insert_aodv_route r s = s\<lparr>route_table := insert_route r (route_table s)\<rparr>"

text \<open>The lifetime of a new route is what the memory held.\<close>

definition new_route :: "nat \<Rightarrow> u32 \<Rightarrow> u32 \<Rightarrow> u8 \<Rightarrow> u32 \<Rightarrow> node \<Rightarrow> aodv_route" where
  "new_route a src_ip dst_ip tos dst_id s =
     \<lparr>rt_addr = a, rt_netmask = g_broadcast_ip (cfg s), rt_num_hops = 0, rt_next_hop = 0,
      rt_lifetime = junk (cfg s), rt_last_hop = src_ip, rt_dst_ip = dst_ip, rt_src_ip = src_ip,
      rt_dst_id = dst_id, rt_path_metric = 0, rt_tos = tos, rt_load = 0, rt_neigh_route = False,
      rt_self_route = False, rt_state = INVALID\<rparr>"

definition create_aodv_route :: "u32 \<Rightarrow> u32 \<Rightarrow> u8 \<Rightarrow> u32 \<Rightarrow> node \<Rightarrow> aodv_route option \<times> node" where
  "create_aodv_route src_ip dst_ip tos dst_id s =
     (case kmalloc s of
        (None, s) \<Rightarrow> (None, s)
      | (Some a, s) \<Rightarrow>
          let r = new_route a src_ip dst_ip tos dst_id s in (Some r, insert_aodv_route r s))"

text \<open>
  \<open>rreq_aodv_route\<close>: 1 when the route was taken, 0 when it was not. What it writes into the
  route, once it has the pointer:
\<close>

definition rreq_write :: "aodv_neigh \<Rightarrow> u8 \<Rightarrow> u32 \<Rightarrow> u32 \<Rightarrow> node \<Rightarrow> aodv_route \<Rightarrow> aodv_route" where
  "rreq_write next_hop hops dst_id path_metric s r =
     r\<lparr>rt_path_metric := path_metric, rt_dst_id := dst_id, rt_num_hops := hops,
       rt_next_hop := ng_ip next_hop, rt_lifetime := currtime s + DELETE_PERIOD, rt_state := ACTIVE\<rparr>"

definition rreq_finish ::
    "aodv_route \<Rightarrow> u8 \<Rightarrow> aodv_neigh \<Rightarrow> u8 \<Rightarrow> u32 \<Rightarrow> u32 \<Rightarrow> node \<Rightarrow> (int \<times> node) option" where
  "rreq_finish r previous_state next_hop hops dst_id path_metric s =
     (let s1 = set_route (rt_addr r) (rreq_write next_hop hops dst_id path_metric s) s in
      if metric s = WCIM then
        (case compute_load (ng_send_rate next_hop) (rt_tos r) s1 of
           None \<Rightarrow> None
         | Some l \<Rightarrow>
             let s2 = set_route (rt_addr r) (\<lambda>r. r\<lparr>rt_load := l\<rparr>) s1 in
             Some (1, if previous_state = ACTIVE then update_my_load s2 else s2))
      else Some (1, s1))"

definition rreq_aodv_route ::
    "u32 \<Rightarrow> u32 \<Rightarrow> u8 \<Rightarrow> aodv_neigh \<Rightarrow> u8 \<Rightarrow> u32 \<Rightarrow> u32 \<Rightarrow> node \<Rightarrow> (int \<times> node) option" where
  "rreq_aodv_route src_ip dst_ip tos next_hop hops dst_id path_metric s =
     (case find_aodv_route src_ip dst_ip tos s of
        None \<Rightarrow>
          (case create_aodv_route src_ip dst_ip tos dst_id s of
             (None, s) \<Rightarrow> Some (0, s)
           | (Some r, s) \<Rightarrow>
               (case (case find_src_list_entry src_ip s of
                        Some e \<Rightarrow> (Some e, s)
                      | None \<Rightarrow> insert_src_list_entry src_ip s) of
                  (None, s) \<Rightarrow> Some (0, s)
                | (Some e, s) \<Rightarrow>
                    rreq_finish r INVALID next_hop hops dst_id path_metric
                      (set_num_routes src_ip (\<lambda>n. n + 1) s)))
      | Some r \<Rightarrow>
          if rt_dst_id r > dst_id then Some (0, s)
          else if dst_id = rt_dst_id r \<and> path_metric \<ge> rt_path_metric r then Some (0, s)
          else if rt_state r \<noteq> INVALID then
            (case rpdb_route False 0 (rt_tos r) (rt_src_ip r) (rt_dst_ip r) (rt_next_hop r)
                    (dev_index (cfg s)) (uint (rt_num_hops r)) s of
               (error, s) \<Rightarrow>
                 if error < 0 then Some (0, s)
                 else rreq_finish r (rt_state r) next_hop hops dst_id path_metric s)
          else rreq_finish r INVALID next_hop hops dst_id path_metric s)"

definition rrep_aodv_route :: "aodv_route \<Rightarrow> node \<Rightarrow> (int \<times> node) option" where
  "rrep_aodv_route r s =
     (case find_src_list_entry (rt_src_ip r) s of
        None \<Rightarrow> Some (0, s)
      | Some e \<Rightarrow>
          (case rpdb_route True (sl_rt_table e) (rt_tos r) (rt_src_ip r) (rt_dst_ip r) (rt_next_hop r)
                  (dev_index (cfg s)) (uint (rt_num_hops r)) s of
             (error, s) \<Rightarrow>
               if error < 0 then Some (0, s)
               else
                 let s = set_route (rt_addr r)
                       (\<lambda>r. r\<lparr>rt_state := REPLIED, rt_lifetime := currtime s + DELETE_PERIOD\<rparr>) s
                 in map_option (\<lambda>s. (1, s)) (ipq_send_ip (rt_src_ip r) (rt_dst_ip r) (rt_tos r) s)))"

section \<open>The periodic flush\<close>

text \<open>An expired route that was invalid already: out of the sources, the kernel, the table.\<close>

definition reap_source :: "aodv_route \<Rightarrow> node \<Rightarrow> node" where
  "reap_source r s =
     (case find_src_list_entry (rt_src_ip r) s of
        None \<Rightarrow> s
      | Some e \<Rightarrow>
          let n = sl_num_routes e - 1;
              s = set_num_routes (rt_src_ip r) (\<lambda>_. n) s;
              s = (if \<not> rt_neigh_route r
                   then snd (rpdb_route False (sl_rt_table e) (rt_tos r) (rt_src_ip r) (rt_dst_ip r)
                               (rt_next_hop r) (dev_index (cfg s)) (uint (rt_num_hops r)) s)
                   else s)
          in if n \<le> 0 \<and> sl_ip e \<noteq> mesh_ip s then delete_src_list_entry (rt_src_ip r) s
             else if n \<le> 0 \<and> sl_ip e = mesh_ip s then set_num_routes (rt_src_ip r) (\<lambda>_. 1) s
             else s)"

definition flush_route :: "aodv_route \<Rightarrow> node \<Rightarrow> node" where
  "flush_route r s =
     (if time_before (rt_lifetime r) (currtime s) \<and> \<not> rt_self_route r then
        if rt_state r \<noteq> INVALID then expire_aodv_route (rt_addr r) s
        else remove_aodv_route (rt_addr r) (reap_source r s)
      else s)"

definition flush_aodv_route_table :: "node \<Rightarrow> int \<times> node" where
  "flush_aodv_route_table s =
     (let s = fold flush_route (route_table s) s;
          s = (if metric s = WCIM then update_my_load s else s);
          s = snd (insert_timer_simple TASK_CLEANUP HELLO_INTERVAL (mesh_ip s) s)
      in (0, update_timer_queue s))"

text \<open>
  The clean-up of the whole table. After the loop the head of the table still points at the
  first node, which is freed; the search that follows reads it, or finds nothing and its
  result is read unchecked.
\<close>

definition free_route :: "aodv_route \<Rightarrow> node \<Rightarrow> node" where
  "free_route r s =
     (case find_src_list_entry (rt_src_ip r) s of
        None \<Rightarrow> s
      | Some e \<Rightarrow>
          if \<not> rt_neigh_route r \<and> \<not> rt_self_route r
          then snd (rpdb_route False (sl_rt_table e) (rt_tos r) (rt_src_ip r) (rt_dst_ip r)
                      (rt_next_hop r) (dev_index (cfg s)) (uint (rt_num_hops r)) s)
          else s)"

definition cleanup_aodv_route_table :: "node \<Rightarrow> node option" where
  "cleanup_aodv_route_table s =
     (let s1 = fold free_route (route_table s) s in
      if route_table s \<noteq> [] then None
      else
        (case find_aodv_route (mesh_ip s) (mesh_ip s) 0 s1 of
           None \<Rightarrow> None
         | Some r \<Rightarrow>
             Some ((case find_src_list_entry (rt_src_ip r) s1 of
                      None \<Rightarrow> s1
                    | Some e \<Rightarrow>
                        snd (rpdb_route False (sl_rt_table e) (rt_tos r) (rt_dst_ip r) (rt_dst_ip r)
                               (rt_next_hop r) (dev_index (cfg s)) 0 s1))\<lparr>route_table := []\<rparr>)))"

lemma cleanup_aodv_route_table_faults: "cleanup_aodv_route_table s = None"
  by (simp add: cleanup_aodv_route_table_def find_aodv_route_def search_routes_def routes_to_def Let_def)

section \<open>The table is ordered\<close>

interpretation routes: ordered_table rt_dst_ip insert_route
proof (unfold_locales, goal_cases)
  case (1 x xs)
  show ?case by (induction xs) auto
qed

interpretation route_search: ordered_search rt_dst_ip search_routes
  by unfold_locales (simp add: search_routes_def routes_to_def)

definition routes_ok :: "node \<Rightarrow> bool" where
  "routes_ok s \<longleftrightarrow>
     sorted (map rt_dst_ip (route_table s)) \<and> distinct (map rt_addr (route_table s)) \<and>
     (\<forall>r\<in>set (route_table s). rt_addr r \<le> allocs s)"

lemma routes_ok_cong:
  "route_table s' = route_table s \<Longrightarrow> allocs s \<le> allocs s' \<Longrightarrow> routes_ok s \<Longrightarrow> routes_ok s'"
  by (auto simp: routes_ok_def)

lemma set_route_ok [inv_intros]:
  assumes "routes_ok s" and "\<And>r. rt_dst_ip (f r) = rt_dst_ip r" and "\<And>r. rt_addr (f r) = rt_addr r"
  shows "routes_ok (set_route a f s)"
proof -
  have "rt_addr r \<le> allocs s" if "r \<in> set (update_first P f (route_table s))" for r P
    using that set_update_first [of P f "route_table s"] assms(1,3) by (auto simp: routes_ok_def)
  then show ?thesis
    using assms by (simp add: routes_ok_def set_route_def map_update_first)
qed

lemma expire_aodv_route_ok [inv_intros]: "routes_ok s \<Longrightarrow> routes_ok (expire_aodv_route a s)"
  unfolding expire_aodv_route_def by (rule set_route_ok) simp_all

lemma remove_aodv_route_ok [inv_intros]: "routes_ok s \<Longrightarrow> routes_ok (remove_aodv_route a s)"
  by (auto simp: routes_ok_def remove_aodv_route_def sorted_remove_first distinct_remove_first
      dest: in_remove_firstD)

lemma map_addr_insert: "set (map rt_addr (insert_route r xs)) = insert (rt_addr r) (set (map rt_addr xs))"
  by simp

lemma distinct_insert_route:
  "distinct (map rt_addr (insert_route r xs)) \<longleftrightarrow> rt_addr r \<notin> rt_addr ` set xs \<and> distinct (map rt_addr xs)"
  by (induction xs) auto

lemma create_aodv_route_eq:
  "create_aodv_route a b c d s =
     (if alloc_ok (cfg s) (allocs s)
      then (Some (new_route (Suc (allocs s)) a b c d s),
            s\<lparr>allocs := Suc (allocs s),
              route_table := insert_route (new_route (Suc (allocs s)) a b c d s) (route_table s)\<rparr>)
      else (None, s\<lparr>allocs := Suc (allocs s)\<rparr>))"
  by (simp add: create_aodv_route_def kmalloc_def insert_aodv_route_def new_route_def Let_def)

lemma create_aodv_route_ok [inv_intros]: "routes_ok s \<Longrightarrow> routes_ok (snd (create_aodv_route a b c d s))"
  by (auto simp: create_aodv_route_eq routes_ok_def routes.sorted_ins distinct_insert_route new_route_def
      intro: le_SucI)

lemma find_aodv_route_D:
  "find_aodv_route src_ip dst_ip tos s = Some r \<Longrightarrow>
     r \<in> set (route_table s) \<and> rt_dst_ip r = dst_ip \<and> rt_src_ip r = src_ip \<and> rt_tos r = tos"
  unfolding find_aodv_route_def by (auto dest: route_search.look_SomeD)

lemma find_aodv_route_iff:
  assumes "routes_ok s"
  shows "find_aodv_route src_ip dst_ip tos s
       = List.find (\<lambda>r. rt_dst_ip r = dst_ip \<and> rt_src_ip r = src_ip \<and> rt_tos r = tos) (route_table s)"
  using assms by (simp add: find_aodv_route_def routes_ok_def route_search.look_sorted)

text \<open>
  C26: on an ordered table the search that stops at the first larger destination misses
  nothing: it returns the first route of the source, the destination and the ToS, and none
  exactly when there is none.
\<close>

theorem find_aodv_route_complete:
  "routes_ok s \<Longrightarrow>
     (case find_aodv_route src_ip dst_ip tos s of
        None \<Rightarrow> \<forall>r\<in>set (route_table s). \<not> (rt_dst_ip r = dst_ip \<and> rt_src_ip r = src_ip \<and> rt_tos r = tos)
      | Some r \<Rightarrow> \<exists>xs ys. route_table s = xs @ r # ys
          \<and> rt_dst_ip r = dst_ip \<and> rt_src_ip r = src_ip \<and> rt_tos r = tos
          \<and> (\<forall>q\<in>set xs. \<not> (rt_dst_ip q = dst_ip \<and> rt_src_ip q = src_ip \<and> rt_tos q = tos)))"
  by (auto simp: find_aodv_route_iff find_None_iff find_Some_iff split: option.split)
    (metis (no_types, lifting) id_take_nth_drop in_set_conv_nth length_take min_less_iff_conj nth_take)

definition sample_route :: "nat \<Rightarrow> u32 \<Rightarrow> u32 \<Rightarrow> aodv_route" where
  "sample_route a src dst =
     \<lparr>rt_addr = a, rt_netmask = 0xFF, rt_num_hops = 2, rt_next_hop = 5, rt_lifetime = 99000,
      rt_last_hop = 6, rt_dst_ip = dst, rt_src_ip = src, rt_dst_id = 4, rt_path_metric = 3, rt_tos = 0,
      rt_load = 0, rt_neigh_route = False, rt_self_route = False, rt_state = INVALID\<rparr>"

definition sample_routed :: node where
  "sample_routed =
     sample_node\<lparr>allocs := 9, route_table := [sample_route 1 1 8, sample_route 2 1 9, sample_route 3 2 9]\<rparr>"

lemma sample_routed_ok: "routes_ok sample_routed"
  by (simp add: routes_ok_def sample_routed_def sample_route_def)

lemma find_aodv_route_complete_witness:
  "find_aodv_route 2 9 0 sample_routed = Some (sample_route 3 2 9) \<and>
   (\<exists>xs ys. route_table sample_routed = xs @ sample_route 3 2 9 # ys)"
proof -
  have "find_aodv_route 2 9 0 sample_routed = Some (sample_route 3 2 9)"
    by (simp add: find_aodv_route_def search_routes_def routes_to_def sample_routed_def sample_route_def)
  with find_aodv_route_complete [OF sample_routed_ok, where src_ip = 2 and dst_ip = 9 and tos = 0] show ?thesis by auto
qed

section \<open>Routes from requests\<close>

lemma find_update_addr:
  assumes "distinct (map rt_addr xs)" and "List.find P xs = Some r" and "P (f r)"
  shows "List.find P (update_first (\<lambda>x. rt_addr x = rt_addr r) f xs) = Some (f r)"
  using assms
proof (induction xs)
  case (Cons x xs)
  show ?case
  proof (cases "P x")
    case True
    with Cons.prems show ?thesis by simp
  next
    case False
    then have f: "List.find P xs = Some r" using Cons.prems(2) by simp
    then have "r \<in> set xs" by (auto simp: find_Some_iff)
    then have "rt_addr x \<noteq> rt_addr r" using Cons.prems(1) by auto
    with False f Cons show ?thesis by simp
  qed
qed simp

lemma find_set_route:
  assumes "routes_ok s" and "find_aodv_route src_ip dst_ip tos s = Some r"
    and "\<And>r. rt_dst_ip (f r) = rt_dst_ip r \<and> rt_src_ip (f r) = rt_src_ip r \<and> rt_tos (f r) = rt_tos r \<and> rt_addr (f r) = rt_addr r"
  shows "find_aodv_route src_ip dst_ip tos (set_route (rt_addr r) f s) = Some (f r)"
proof -
  have "routes_ok (set_route (rt_addr r) f s)" using assms(1,3) by (simp add: set_route_ok)
  moreover have "rt_dst_ip r = dst_ip \<and> rt_src_ip r = src_ip \<and> rt_tos r = tos"
    using find_aodv_route_D [OF assms(2)] by simp
  ultimately show ?thesis
    using assms find_update_addr [of "route_table s" _ r f]
    by (simp add: find_aodv_route_iff set_route_def routes_ok_def)
qed

lemma kernel_only_routes:
  "kernel_only s s' \<Longrightarrow> route_table s' = route_table s \<and> allocs s' = allocs s \<and> cfg s' = cfg s \<and> now s' = now s
     \<and> flow_type_table s' = flow_type_table s"
  unfolding kernel_only_def by (drule arg_cong [of _ _ "\<lambda>s. (route_table s, allocs s, cfg s, now s, flow_type_table s)"]) simp

lemma rpdb_route_D:
  "rpdb_route a b c d e f g h s = (x, s') \<Longrightarrow> route_table s' = route_table s \<and> allocs s' = allocs s \<and>
     cfg s' = cfg s \<and> now s' = now s \<and> flow_type_table s' = flow_type_table s"
  using kernel_only_routes [OF rpdb_route_frame [of s a b c d e f g h]] by simp

lemma update_my_load_fields [simp]:
  "route_table (update_my_load s) = route_table s" "allocs (update_my_load s) = allocs s"
  "cfg (update_my_load s) = cfg s" "now (update_my_load s) = now s"
  by (simp_all add: update_my_load_def Let_def)

lemma update_my_load_ok [simp]: "routes_ok (update_my_load s) = routes_ok s"
  by (simp add: routes_ok_def)

lemma rreq_write_fields [simp]:
  "rt_addr (rreq_write nh h n m s r) = rt_addr r" "rt_dst_ip (rreq_write nh h n m s r) = rt_dst_ip r"
  "rt_src_ip (rreq_write nh h n m s r) = rt_src_ip r" "rt_tos (rreq_write nh h n m s r) = rt_tos r"
  by (simp_all add: rreq_write_def)

lemma rreq_finish_ok [inv_intros]:
  "routes_ok s \<Longrightarrow> rreq_finish r p nh h n m s = Some (rc, s') \<Longrightarrow> routes_ok s'"
  by (auto simp: rreq_finish_def Let_def intro!: set_route_ok split: option.splits if_splits)

lemma set_num_routes_fields [simp]:
  "route_table (set_num_routes ip f s) = route_table s" "allocs (set_num_routes ip f s) = allocs s"
  "cfg (set_num_routes ip f s) = cfg s" "now (set_num_routes ip f s) = now s"
  "flow_type_table (set_num_routes ip f s) = flow_type_table s"
  by (simp_all add: set_num_routes_def)

lemma insert_src_list_entry_D:
  "insert_src_list_entry ip s = (r, s') \<Longrightarrow> route_table s' = route_table s \<and> allocs s' = Suc (allocs s)
     \<and> cfg s' = cfg s \<and> now s' = now s \<and> flow_type_table s' = flow_type_table s"
  by (auto simp: insert_src_list_entry_def kmalloc_def rpdb_rule_def emit_def Let_def
      split: option.splits prod.splits if_splits)

lemma rreq_aodv_route_ok [inv_intros]:
  assumes "routes_ok s" and "rreq_aodv_route a b c nh h n m s = Some (rc, s')"
  shows "routes_ok s'"
proof -
  have c: "routes_ok s1" if "create_aodv_route a b c n s = (x, s1)" for x s1
    using create_aodv_route_ok [OF assms(1), of a b c n] that by simp
  from assms show ?thesis
    by (auto simp: rreq_aodv_route_def split: option.splits prod.splits if_splits
        dest!: insert_src_list_entry_D rpdb_route_D dest: c
        elim!: rreq_finish_ok [rotated] intro: routes_ok_cong [of _ s] routes_ok_cong)
qed

definition rreq_offer :: "u64 \<Rightarrow> u32 \<times> u32 \<times> u32 \<times> u8 \<Rightarrow> aodv_route \<Rightarrow> aodv_route" where
  "rreq_offer lifetime adv r =
     (case adv of (n, m, hop, h) \<Rightarrow>
        if rt_dst_id r > n \<or> (n = rt_dst_id r \<and> m \<ge> rt_path_metric r) then r
        else r\<lparr>rt_path_metric := m, rt_dst_id := n, rt_num_hops := h, rt_next_hop := hop,
               rt_lifetime := lifetime, rt_state := ACTIVE\<rparr>)"

definition rt_rank :: "aodv_route \<Rightarrow> rank" where
  "rt_rank r = Rank (rt_dst_id r) (rt_path_metric r)"

interpretation rt: freshness rt_rank "rreq_offer lifetime" for lifetime
  by unfold_locales (auto simp: rreq_offer_def rt_rank_def max_def)

definition kernel_grants :: "config \<Rightarrow> bool" where
  "kernel_grants c \<longleftrightarrow> (\<forall>n. 0 \<le> nl_sock_rc c n \<and> 0 \<le> nl_send_rc c n)"

lemma rpdb_route_grants: "kernel_grants (cfg s) \<Longrightarrow> 0 \<le> fst (rpdb_route a b c d e f g h s)"
  by (auto simp: rpdb_route_def kernel_grants_def Let_def not_less [symmetric])

lemma set_route_fields [simp]:
  "cfg (set_route a f s) = cfg s" "now (set_route a f s) = now s" "allocs (set_route a f s) = allocs s"
  "flow_type_table (set_route a f s) = flow_type_table s" "src_list (set_route a f s) = src_list s"
  by (simp_all add: set_route_def)

lemma find_aodv_route_cong:
  "route_table s' = route_table s \<Longrightarrow> find_aodv_route a b c s' = find_aodv_route a b c s"
  by (simp add: find_aodv_route_def)

lemma update_my_load_find [simp]: "find_aodv_route a b c (update_my_load s) = find_aodv_route a b c s"
  by (rule find_aodv_route_cong) simp

lemma rreq_finish_find:
  assumes "routes_ok s" and "find_aodv_route src_ip dst_ip tos s = Some r"
    and "rreq_finish r p nh h n m s = Some (rc, s')"
  shows "(\<exists>l. find_aodv_route src_ip dst_ip tos s' = Some ((rreq_write nh h n m s r)\<lparr>rt_load := l\<rparr>))
     \<and> cfg s' = cfg s \<and> now s' = now s"
proof -
  let ?s = "set_route (rt_addr r) (rreq_write nh h n m s) s"
  let ?r = "rreq_write nh h n m s r"
  have s: "find_aodv_route src_ip dst_ip tos ?s = Some ?r" "routes_ok ?s" "rt_addr ?r = rt_addr r"
    using find_set_route [OF assms(1,2), of "rreq_write nh h n m s"] set_route_ok [OF assms(1), of "rreq_write nh h n m s"]
    by (simp_all add: rreq_write_def)
  have l: "find_aodv_route src_ip dst_ip tos (set_route (rt_addr r) (\<lambda>r. r\<lparr>rt_load := x\<rparr>) ?s) = Some (?r\<lparr>rt_load := x\<rparr>)" for x
    using find_set_route [OF s(2,1), of "\<lambda>r. r\<lparr>rt_load := x\<rparr>"] s(3) by simp
  have "?r\<lparr>rt_load := rt_load ?r\<rparr> = ?r" by simp
  with s(1) have "\<exists>l. find_aodv_route src_ip dst_ip tos ?s = Some (?r\<lparr>rt_load := l\<rparr>)" by metis
  with assms(3) l show ?thesis
    by (auto simp: rreq_finish_def Let_def split: if_splits option.splits)
qed

lemma rreq_write_cong: "now s' = now s \<Longrightarrow> rreq_write nh h n m s' = rreq_write nh h n m s"
  by (simp add: rreq_write_def fun_eq_iff)

text \<open>
  A request for a known route: taken over when it is fresher and the kernel lets go of the old
  route, refused otherwise. The load that WCIM keeps in the route is beside the point.
\<close>

lemma rreq_aodv_route_known:
  assumes "routes_ok s" and f: "find_aodv_route src_ip dst_ip tos s = Some r"
    and d: "rreq_aodv_route src_ip dst_ip tos nh h n m s = Some (rc, s')"
  defines "x \<equiv> rreq_offer (currtime s + DELETE_PERIOD) (n, m, ng_ip nh, h) r"
  shows "\<exists>y l. find_aodv_route src_ip dst_ip tos s' = Some (y\<lparr>rt_load := l\<rparr>) \<and> (y = r \<or> y = x)
     \<and> (kernel_grants (cfg s) \<longrightarrow> y = x) \<and> cfg s' = cfg s \<and> now s' = now s"
proof (cases "rt_rank r < Rank n m")
  case False
  then have "x = r" by (auto simp: x_def rreq_offer_def rt_rank_def)
  moreover have "s' = s" using False f d by (auto simp: rreq_aodv_route_def rt_rank_def split: if_splits)
  ultimately show ?thesis using f by (intro exI [of _ r] exI [of _ "rt_load r"]) simp
next
  case True
  then have ref: "\<not> (rt_dst_id r > n)" "\<not> (n = rt_dst_id r \<and> m \<ge> rt_path_metric r)"
    by (auto simp: rt_rank_def)
  have x: "x = rreq_write nh h n m s r" using ref by (auto simp: x_def rreq_offer_def rreq_write_def)
  have fin: ?thesis if "routes_ok t" "find_aodv_route src_ip dst_ip tos t = Some r" "cfg t = cfg s" "now t = now s"
      "rreq_finish r p nh h n m t = Some (rc, s')" for p t
    using rreq_finish_find [OF that(1,2,5)] that(3,4) by (auto simp: x rreq_write_cong [of t s])
  obtain e s1 where k: "rpdb_route False 0 (rt_tos r) (rt_src_ip r) (rt_dst_ip r) (rt_next_hop r)
      (dev_index (cfg s)) (uint (rt_num_hops r)) s = (e, s1)" by fastforce
  note D = rpdb_route_D [OF k]
  have s1: "routes_ok s1" "find_aodv_route src_ip dst_ip tos s1 = Some r"
    using D assms routes_ok_cong [of s1 s] find_aodv_route_cong [of s1 s] by simp_all
  show ?thesis
  proof (cases "rt_state r = INVALID")
    case True
    with f ref d show ?thesis by (intro fin [of s INVALID] assms(1)) (auto simp: rreq_aodv_route_def)
  next
    case inv: False
    show ?thesis
    proof (cases "e < 0")
      case True
      then have "\<not> kernel_grants (cfg s)" using rpdb_route_grants k by (metis fst_conv not_less)
      moreover have "s' = s1" using inv f ref d k True by (simp add: rreq_aodv_route_def split: if_splits)
      ultimately show ?thesis using s1(2) D by (intro exI [of _ r] exI [of _ "rt_load r"]) simp
    next
      case False
      with inv f ref d k D show ?thesis by (intro fin [of s1 "rt_state r"] s1) (auto simp: rreq_aodv_route_def)
    qed
  qed
qed

lemma rreq_aodv_route_returns:
  assumes "find_aodv_route src_ip dst_ip tos s = Some r" and "metric s \<noteq> WCIM"
  shows "rreq_aodv_route src_ip dst_ip tos nh h n m s \<noteq> None"
proof -
  have f: "rreq_finish r p nh h n m t \<noteq> None" if "cfg t = cfg s" for p t
    using that assms(2) by (simp add: rreq_finish_def Let_def)
  obtain e s1 where k: "rpdb_route False 0 (rt_tos r) (rt_src_ip r) (rt_dst_ip r) (rt_next_hop r)
      (dev_index (cfg s)) (uint (rt_num_hops r)) s = (e, s1)" by fastforce
  from rpdb_route_D [OF k] have c: "cfg s1 = cfg s" by simp
  show ?thesis using assms(1) k f [of s] f [OF c] by (simp add: rreq_aodv_route_def del: not_None_eq)
qed

text \<open>Requests that come in one after the other for one source, destination and ToS.\<close>

definition request :: "u32 \<Rightarrow> u32 \<Rightarrow> u8 \<Rightarrow> u32 \<times> u32 \<times> aodv_neigh \<times> u8 \<Rightarrow> node option \<Rightarrow> node option" where
  "request src_ip dst_ip tos adv so =
     (case adv of (n, m, nh, h) \<Rightarrow>
        Option.bind so (\<lambda>s. map_option snd (rreq_aodv_route src_ip dst_ip tos nh h n m s)))"

lemma request_None [simp]: "fold (request src_ip dst_ip tos) os None = None"
  by (induction os) (auto simp: request_def)

lemma request_Some:
  "request src_ip dst_ip tos (n, m, nh, h) (Some s) = map_option snd (rreq_aodv_route src_ip dst_ip tos nh h n m s)"
  by (simp add: request_def)

lemma rt_load_irrelevant:
  "rreq_offer lt a (r\<lparr>rt_load := l\<rparr>) = (rreq_offer lt a r)\<lparr>rt_load := l\<rparr>"
  "fold (rreq_offer lt) as (r\<lparr>rt_load := l\<rparr>) = (fold (rreq_offer lt) as r)\<lparr>rt_load := l\<rparr>"
proof -
  show *: "rreq_offer lt a (r\<lparr>rt_load := l\<rparr>) = (rreq_offer lt a r)\<lparr>rt_load := l\<rparr>" for a r
    by (cases a) (simp add: rreq_offer_def)
  show "fold (rreq_offer lt) as (r\<lparr>rt_load := l\<rparr>) = (fold (rreq_offer lt) as r)\<lparr>rt_load := l\<rparr>"
    by (induction as arbitrary: r) (simp_all add: *)
qed

lemma rt_rank_load [simp]: "rt_rank (r\<lparr>rt_load := l\<rparr>) = rt_rank r"
  by (simp add: rt_rank_def)

lemma requests_fold:
  assumes "routes_ok s" and "find_aodv_route src_ip dst_ip tos s = Some r"
    and "fold (request src_ip dst_ip tos) os (Some s) = Some s'"
  shows "\<exists>y l. find_aodv_route src_ip dst_ip tos s' = Some (y\<lparr>rt_load := l\<rparr>) \<and> rt_rank r \<le> rt_rank y
     \<and> (kernel_grants (cfg s) \<longrightarrow> y = fold (rreq_offer (currtime s + DELETE_PERIOD))
          (map (\<lambda>(n, m, nh, h). (n, m, ng_ip nh, h)) os) r)"
  using assms
proof (induction os arbitrary: s r)
  case Nil
  then show ?case by (intro exI [of _ r] exI [of _ "rt_load r"]) simp
next
  case (Cons a os)
  obtain n m nh h where a: "a = (n, m, nh, h)" by (cases a)
  let ?x = "rreq_offer (currtime s + DELETE_PERIOD) (n, m, ng_ip nh, h) r"
  obtain rc t where t: "rreq_aodv_route src_ip dst_ip tos nh h n m s = Some (rc, t)"
    using Cons.prems(3) by (cases "rreq_aodv_route src_ip dst_ip tos nh h n m s") (auto simp: a request_Some)
  from rreq_aodv_route_known [OF Cons.prems(1,2) t] obtain y l where y: "find_aodv_route src_ip dst_ip tos t = Some (y\<lparr>rt_load := l\<rparr>)"
    "y = r \<or> y = ?x" "kernel_grants (cfg s) \<longrightarrow> y = ?x" "cfg t = cfg s" "now t = now s" by blast
  have "rt_rank r \<le> rt_rank y" using y(2) rt.offer_rank by auto
  moreover have "routes_ok t" by (rule rreq_aodv_route_ok [OF Cons.prems(1) t])
  moreover have "fold (request src_ip dst_ip tos) os (Some t) = Some s'" using Cons.prems(3) t by (simp add: a request_Some)
  ultimately obtain z k where z: "find_aodv_route src_ip dst_ip tos s' = Some (z\<lparr>rt_load := k\<rparr>)" "rt_rank r \<le> rt_rank z"
    "kernel_grants (cfg t) \<longrightarrow> z = fold (rreq_offer (currtime t + DELETE_PERIOD))
       (map (\<lambda>(n, m, nh, h). (n, m, ng_ip nh, h)) os) (y\<lparr>rt_load := l\<rparr>)"
    using Cons.IH [of t, OF _ y(1)] by (auto dest: order_trans)
  let ?w = "fold (rreq_offer (currtime s + DELETE_PERIOD)) (map (\<lambda>(n, m, nh, h). (n, m, ng_ip nh, h)) (a # os)) r"
  have g: "z = ?w\<lparr>rt_load := l\<rparr>" if "kernel_grants (cfg s)"
    using z(3) y(3-5) that by (simp add: rt_load_irrelevant a)
  show ?case
  proof (cases "kernel_grants (cfg s)")
    case True
    have "rt_rank ?w = rt_rank z" using g [OF True] by simp
    with z(1,2) g [OF True] show ?thesis by (intro exI [of _ ?w] exI [of _ k]) simp
  qed (use z in blast)
qed

lemma requests_return:
  assumes "routes_ok s" and "find_aodv_route src_ip dst_ip tos s = Some r" and "metric s \<noteq> WCIM"
  shows "fold (request src_ip dst_ip tos) os (Some s) \<noteq> None"
  using assms
proof (induction os arbitrary: s r)
  case (Cons a os)
  obtain n m nh h where a: "a = (n, m, nh, h)" by (cases a)
  from rreq_aodv_route_returns [OF Cons.prems(2,3)] obtain rc t
    where t: "rreq_aodv_route src_ip dst_ip tos nh h n m s = Some (rc, t)" by fastforce
  from rreq_aodv_route_known [OF Cons.prems(1,2) t] Cons.IH rreq_aodv_route_ok [OF Cons.prems(1) t] Cons.prems(3)
  show ?case by (auto simp: a request_Some t)
qed simp

text \<open>
  C13: whatever requests come in, a known route stays known and its rank never falls: the sequence
  number never gets older, and with the same number the metric never gets higher. While the kernel
  takes the changes, it has the best rank among the requests and what it had before. Under WCIM the
  load of the route may be a fault (a division of \<open>compute_load\<close>); under the other metrics every
  request is worked off.
\<close>

theorem rreq_aodv_route_freshest:
  assumes "routes_ok s" and "find_aodv_route src_ip dst_ip tos s = Some r"
  shows "(metric s \<noteq> WCIM \<longrightarrow> fold (request src_ip dst_ip tos) os (Some s) \<noteq> None)
     \<and> (\<forall>s'. fold (request src_ip dst_ip tos) os (Some s) = Some s' \<longrightarrow>
         (\<exists>r'. find_aodv_route src_ip dst_ip tos s' = Some r' \<and> rt_rank r \<le> rt_rank r'
            \<and> (kernel_grants (cfg s) \<longrightarrow>
                rt_rank r' = Max (insert (rt_rank r) ((\<lambda>(n, m, nh, h). Rank n m) ` set os)))))"
proof -
  let ?os = "map (\<lambda>(n, m, nh, h). (n, m, ng_ip nh, h)) os"
  have "rt_rank (fold (rreq_offer (currtime s + DELETE_PERIOD)) ?os r)
      = Max (insert (rt_rank r) ((\<lambda>(n, m, nh, h). Rank n m) ` set os))"
    by (simp add: rt.offers_rank image_image case_prod_unfold)
  with requests_fold [OF assms] requests_return [OF assms] show ?thesis by fastforce
qed

definition sample_neigh :: "u32 \<Rightarrow> aodv_neigh" where
  "sample_neigh ip =
     \<lparr>ng_ip = ip, ng_lifetime = 104020, etx_count = 0, etx_send = 0, etx_recv = 0, ett_count_rcv = 0,
      ett_last_count = 0, ett_window = 4, ett_sec = 0, ett_usec = 0, ett_meas_delay = DEFAULT_ETT_METRIC,
      ett_recv_delays = replicate 10 DEFAULT_ETT_METRIC, ett_reset = 0, ett_interval = 20000, ett_fixed_rate = 0,
      ng_load_seq = 0, ng_load = 0, ng_neigh_tx = replicate 32 0, ng_recv_rate = 60, ng_send_rate = 60,
      ng_etx_metric = 100\<rparr>"

lemma sample_routed_find: "find_aodv_route 1 9 0 sample_routed = Some (sample_route 2 1 9)"
  by (simp add: find_aodv_route_def search_routes_def routes_to_def sample_routed_def sample_route_def)

lemma sample_routed_simps: "metric sample_routed = HOPS" "kernel_grants (cfg sample_routed)"
  by (simp_all add: sample_routed_def sample_node_def sample_cfg_def kernel_grants_def)

lemma rreq_aodv_route_freshest_witness:
  "\<exists>s' r'. fold (request 1 9 0) [(4, 2, sample_neigh 5, 1), (6, 7, sample_neigh 7, 2)] (Some sample_routed) = Some s'
     \<and> find_aodv_route 1 9 0 s' = Some r' \<and> rt_rank r' = Rank 6 7"
proof -
  let ?os = "[(4, 2, sample_neigh 5, 1), (6, 7, sample_neigh 7, 2)] :: (u32 \<times> u32 \<times> aodv_neigh \<times> u8) list"
  note c = rreq_aodv_route_freshest [OF sample_routed_ok sample_routed_find, of ?os]
  obtain s' where s': "fold (request 1 9 0) ?os (Some sample_routed) = Some s'"
    using c sample_routed_simps(1) by fastforce
  then obtain r' where "find_aodv_route 1 9 0 s' = Some r'"
    and best: "rt_rank r' = Max (insert (rt_rank (sample_route 2 1 9)) ((\<lambda>(n, m, nh, h). Rank n m) ` set ?os))"
    using c sample_routed_simps(2) by blast
  moreover have "rt_rank r' = Rank 6 7"
    unfolding best by (simp add: rt_rank_def sample_route_def max_def)
  ultimately show ?thesis using s' by blast
qed

section \<open>What the flush does\<close>

definition flushed :: "u64 \<Rightarrow> aodv_route \<Rightarrow> aodv_route list" where
  "flushed c r =
     (if time_before (rt_lifetime r) c \<and> \<not> rt_self_route r then
        if rt_state r \<noteq> INVALID then [r\<lparr>rt_lifetime := c + DELETE_PERIOD, rt_state := INVALID\<rparr>] else []
      else [r])"

lemma update_first_split: "\<forall>x\<in>set xs. \<not> P x \<Longrightarrow> P a \<Longrightarrow> update_first P f (xs @ a # ys) = xs @ f a # ys"
  by (induction xs) auto

lemma remove_first_split: "\<forall>x\<in>set xs. \<not> P x \<Longrightarrow> P a \<Longrightarrow> remove_first P (xs @ a # ys) = xs @ ys"
  by (induction xs) auto

lemma delete_src_list_entry_fields [simp]:
  "route_table (delete_src_list_entry ip s) = route_table s" "allocs (delete_src_list_entry ip s) = allocs s"
  "cfg (delete_src_list_entry ip s) = cfg s" "now (delete_src_list_entry ip s) = now s"
  by (simp_all add: delete_src_list_entry_def rpdb_rule_def emit_def Let_def split: option.split)

lemma rpdb_route_fields [simp]:
  "route_table (snd (rpdb_route a b c d e f g h s)) = route_table s"
  "allocs (snd (rpdb_route a b c d e f g h s)) = allocs s"
  "cfg (snd (rpdb_route a b c d e f g h s)) = cfg s" "now (snd (rpdb_route a b c d e f g h s)) = now s"
  by (simp_all add: rpdb_route_def emit_def Let_def)

lemma reap_source_fields [simp]:
  "route_table (reap_source r s) = route_table s" "allocs (reap_source r s) = allocs s"
  "cfg (reap_source r s) = cfg s" "now (reap_source r s) = now s"
  by (simp_all add: reap_source_def Let_def split: option.split)

lemma flush_route_fields [simp]:
  "allocs (flush_route r s) = allocs s" "cfg (flush_route r s) = cfg s" "now (flush_route r s) = now s"
  by (simp_all add: flush_route_def expire_aodv_route_def remove_aodv_route_def)

lemma flush_route_table:
  assumes "route_table s = ds @ r # rs" and "distinct (map rt_addr (ds @ r # rs))"
  shows "route_table (flush_route r s) = ds @ flushed (currtime s) r @ rs"
proof -
  have "rt_addr r \<notin> rt_addr ` set ds" using assms(2) by simp
  then have "\<forall>x\<in>set ds. rt_addr x \<noteq> rt_addr r" by (auto simp: image_iff)
  then show ?thesis
    using assms(1)
    by (simp add: flush_route_def expire_aodv_route_def remove_aodv_route_def set_route_def flushed_def
        update_first_split remove_first_split)
qed

lemma flushed_addr: "rt_addr ` set (flushed c r) \<subseteq> {rt_addr r}" "rt_dst_ip ` set (flushed c r) \<subseteq> {rt_dst_ip r}"
  by (auto simp: flushed_def)

lemma fold_flush_route:
  "route_table s = ds @ rs \<Longrightarrow> distinct (map rt_addr (ds @ rs)) \<Longrightarrow>
     route_table (fold flush_route rs s) = ds @ concat (map (flushed (currtime s)) rs)
     \<and> allocs (fold flush_route rs s) = allocs s \<and> cfg (fold flush_route rs s) = cfg s
     \<and> now (fold flush_route rs s) = now s"
proof (induction rs arbitrary: s ds)
  case (Cons r rs)
  have t: "route_table (flush_route r s) = (ds @ flushed (currtime s) r) @ rs"
    using flush_route_table Cons.prems by simp
  have "distinct (map rt_addr ((ds @ flushed (currtime s) r) @ rs))"
    using Cons.prems(2) by (auto simp: flushed_def)
  from Cons.IH [OF t this] show ?case by simp
qed simp

lemma flushed_ok:
  assumes "sorted (map rt_dst_ip rs)" "distinct (map rt_addr rs)"
  shows "sorted (map rt_dst_ip (concat (map (flushed c) rs)))"
    and "distinct (map rt_addr (concat (map (flushed c) rs)))"
    and "rt_addr ` set (concat (map (flushed c) rs)) \<subseteq> rt_addr ` set rs"
  using assms by (induction rs) (auto simp: flushed_def)

lemma timers_only_fields:
  "timers_only s s' \<Longrightarrow> route_table s' = route_table s \<and> cfg s' = cfg s \<and> now s' = now s \<and> src_list s' = src_list s
     \<and> neigh_list s' = neigh_list s \<and> out s' = out s \<and> brk_list s' = brk_list s \<and> gw_list s' = gw_list s
     \<and> neigh_list_2h s' = neigh_list_2h s \<and> task_queue s' = task_queue s \<and> ipq s' = ipq s
     \<and> flow_type_table s' = flow_type_table s \<and> local_route s' = local_route s \<and> nlreqs s' = nlreqs s
     \<and> sends s' = sends s"
  unfolding timers_only_def
  by (drule arg_cong [of _ _ "\<lambda>s. (route_table s, cfg s, now s, src_list s, neigh_list s, out s, brk_list s,
       gw_list s, neigh_list_2h s, task_queue s, ipq s, flow_type_table s, local_route s, nlreqs s, sends s)"]) simp

lemma insert_timer_simple_allocs [simp]: "allocs (snd (insert_timer_simple a b c s)) = Suc (allocs s)"
  by (simp add: insert_timer_simple_def create_task_def kmalloc_def queue_timer_def)

lemma update_timer_queue_allocs [simp]: "allocs (update_timer_queue s) = allocs s"
  by (simp add: update_timer_queue_def Let_def split: list.split)

lemma flush_aodv_route_table_routes:
  assumes "routes_ok s"
  shows "route_table (snd (flush_aodv_route_table s)) = concat (map (flushed (currtime s)) (route_table s))
     \<and> allocs s \<le> allocs (snd (flush_aodv_route_table s))"
proof -
  have f: "route_table (fold flush_route (route_table s) s) = concat (map (flushed (currtime s)) (route_table s))"
    "allocs (fold flush_route (route_table s) s) = allocs s"
    using fold_flush_route [of s "[]" "route_table s"] assms by (simp_all add: routes_ok_def)
  have u: "route_table (update_timer_queue s') = route_table s'" for s'
    using timers_only_fields [OF timers_only_update] by simp
  have i: "route_table (snd (insert_timer_simple a b c s')) = route_table s'" for a b c s'
    using timers_only_fields [OF timers_only_simple] by simp
  show ?thesis using f by (simp add: flush_aodv_route_table_def Let_def u i)
qed

lemma flush_aodv_route_table_ok [inv_intros]:
  assumes "routes_ok s"
  shows "routes_ok (snd (flush_aodv_route_table s))"
  using flush_aodv_route_table_routes [OF assms] assms flushed_ok [of "route_table s" "currtime s"]
  by (auto simp: routes_ok_def subset_iff image_iff) (metis order_trans)+

text \<open>
  C19: the flush treats every route by itself, once: a self route or one whose lifetime has
  not passed stays as it is, an expired one in use becomes invalid for three more seconds,
  an expired invalid one leaves the table; the order of the table is kept.
\<close>

theorem flush_aodv_route_table_spec:
  "routes_ok s \<Longrightarrow>
     route_table (snd (flush_aodv_route_table s)) = concat (map (flushed (currtime s)) (route_table s))
     \<and> routes_ok (snd (flush_aodv_route_table s))
     \<and> (\<forall>r\<in>set (route_table s). rt_self_route r \<or> \<not> time_before (rt_lifetime r) (currtime s) \<longrightarrow>
          r \<in> set (route_table (snd (flush_aodv_route_table s))))"
  using flush_aodv_route_table_routes flush_aodv_route_table_ok by (auto simp: flushed_def)

lemma flush_aodv_route_table_spec_witness:
  "route_table (snd (flush_aodv_route_table sample_routed)) = []"
  using flush_aodv_route_table_spec [OF sample_routed_ok]
  by (simp add: sample_routed_def sample_route_def flushed_def sample_simps time_before_window)

end
