(* ===== verification/Brk_List.thy ===== *)
theory Brk_List
  imports Route_Table "HOL-Library.Sublist"
begin

text \<open>
  The broken links of \<open>brk_list.c\<close>: for each route that broke, who has to be told when its
  destination is reachable again; in the order of the destinations, with the list code of
  the route table. \<open>flush_brk_list\<close> is modelled as it is written: its braces make it remove
  the link behind an expired one and read past the end of the list, a fault (\<open>None\<close>).
\<close>

section \<open>Operations\<close>

definition first_brk_link :: "node \<Rightarrow> brk_link option" where
  "first_brk_link s = (case brk_list s of [] \<Rightarrow> None | l # ls \<Rightarrow> Some l)"

definition init_brk_list :: "node \<Rightarrow> node" where
  "init_brk_list s = s\<lparr>brk_list := []\<rparr>"

definition cleanup_brk_list :: "node \<Rightarrow> node" where
  "cleanup_brk_list s = s\<lparr>brk_list := []\<rparr>"

definition set_link :: "nat \<Rightarrow> (brk_link \<Rightarrow> brk_link) \<Rightarrow> node \<Rightarrow> node" where
  "set_link a f s = s\<lparr>brk_list := update_first (\<lambda>l. bl_addr l = a) f (brk_list s)\<rparr>"

definition expire_link :: "u64 \<Rightarrow> brk_link \<Rightarrow> brk_link" where
  "expire_link ct l = l\<lparr>bl_lifetime := ct + DELETE_PERIOD, bl_state := INVALID\<rparr>"

definition expire_brk_link :: "nat \<Rightarrow> node \<Rightarrow> node" where
  "expire_brk_link a s = set_link a (expire_link (currtime s)) s"

definition remove_brk_link :: "nat \<Rightarrow> node \<Rightarrow> node" where
  "remove_brk_link a s = s\<lparr>brk_list := remove_first (\<lambda>l. bl_addr l = a) (brk_list s)\<rparr>"

definition search_links :: "u32 \<Rightarrow> (brk_link \<Rightarrow> bool) \<Rightarrow> brk_link list \<Rightarrow> brk_link option" where
  "search_links dst_ip P ls =
     List.find P (takeWhile (\<lambda>l. bl_dst_ip l = dst_ip) (dropWhile (\<lambda>l. bl_dst_ip l < dst_ip) ls))"

definition find_first_brk_link_with_dst :: "u32 \<Rightarrow> node \<Rightarrow> brk_link option" where
  "find_first_brk_link_with_dst dst_ip s = search_links dst_ip (\<lambda>l. True) (brk_list s)"

definition find_brk_link :: "u32 \<Rightarrow> u32 \<Rightarrow> node \<Rightarrow> brk_link option" where
  "find_brk_link src_ip dst_ip s = search_links dst_ip (\<lambda>l. bl_src_ip l = src_ip) (brk_list s)"

fun insert_link :: "brk_link \<Rightarrow> brk_link list \<Rightarrow> brk_link list" where
  "insert_link l [] = [l]"
| "insert_link l (x # xs) =
     (if bl_dst_ip x < bl_dst_ip l then x # insert_link l xs else l # x # xs)"

definition insert_brk_link :: "brk_link \<Rightarrow> node \<Rightarrow> node" where
  "insert_brk_link l s = s\<lparr>brk_list := insert_link l (brk_list s)\<rparr>"

definition create_brk_link :: "u32 \<Rightarrow> u32 \<Rightarrow> u32 \<Rightarrow> u32 \<Rightarrow> node \<Rightarrow> brk_link option \<times> node" where
  "create_brk_link src_ip dst_ip lasthop lastavail s =
     (case kmalloc s of
        (None, s) \<Rightarrow> (None, s)
      | (Some a, s) \<Rightarrow>
          let l = \<lparr>bl_addr = a, bl_lifetime = currtime s + BRK_LINK_TIMEOUT, bl_last_hop = lasthop,
                   bl_dst_ip = dst_ip, bl_src_ip = src_ip, bl_dst_id = htonl dst_ip, bl_state = ACTIVE,
                   bl_last_avail_ip = lastavail\<rparr>
          in (Some l, insert_brk_link l s))"

text \<open>
  The loop of the flush. On an expired link that is invalid, the link is removed and the
  pointer advances twice; on one that is not, the link is expired, the next one removed and
  the pointer advances once more. Advancing from NULL is the fault.
\<close>

fun flush_links :: "u64 \<Rightarrow> brk_link list \<Rightarrow> brk_link list option" where
  "flush_links ct [] = Some []"
| "flush_links ct (l # ls) =
     (if time_before (bl_lifetime l) ct then
        if bl_state l \<noteq> INVALID then
          (case ls of
             dead # k # ks \<Rightarrow> map_option (\<lambda>r. expire_link ct l # k # r) (flush_links ct ks)
           | _ \<Rightarrow> None)
        else
          (case ls of
             k # ks \<Rightarrow> map_option (\<lambda>r. k # r) (flush_links ct ks)
           | [] \<Rightarrow> None)
      else map_option (\<lambda>r. l # r) (flush_links ct ls))"

definition flush_brk_list :: "node \<Rightarrow> node option" where
  "flush_brk_list s = map_option (\<lambda>ls. s\<lparr>brk_list := ls\<rparr>) (flush_links (currtime s) (brk_list s))"

section \<open>Properties\<close>

interpretation links: ordered_table bl_dst_ip insert_link
proof (unfold_locales, goal_cases)
  case (1 x xs)
  show ?case by (induction xs) auto
qed

interpretation link_search: ordered_search bl_dst_ip search_links
  by unfold_locales (simp add: search_links_def)

definition links_ok :: "node \<Rightarrow> bool" where
  "links_ok s \<longleftrightarrow>
     sorted (map bl_dst_ip (brk_list s)) \<and> distinct (map bl_addr (brk_list s)) \<and>
     (\<forall>l\<in>set (brk_list s). bl_addr l \<le> allocs s)"

lemma links_ok_cong:
  "brk_list s' = brk_list s \<Longrightarrow> allocs s \<le> allocs s' \<Longrightarrow> links_ok s \<Longrightarrow> links_ok s'"
  by (auto simp: links_ok_def)

lemma distinct_insert_link:
  "distinct (map bl_addr (insert_link l xs)) \<longleftrightarrow> bl_addr l \<notin> bl_addr ` set xs \<and> distinct (map bl_addr xs)"
  by (induction xs) auto

lemma create_brk_link_ok [inv_intros]:
  assumes "links_ok s"
  shows "links_ok (snd (create_brk_link a b c d s))"
  using assms
  by (auto simp: create_brk_link_def kmalloc_def insert_brk_link_def links_ok_def links.sorted_ins
      distinct_insert_link Let_def intro: le_SucI)

lemma remove_brk_link_ok [inv_intros]: "links_ok s \<Longrightarrow> links_ok (remove_brk_link a s)"
  by (auto simp: links_ok_def remove_brk_link_def sorted_remove_first distinct_remove_first
      dest: in_remove_firstD)

lemma set_link_ok [inv_intros]:
  assumes "links_ok s" and "\<And>l. bl_dst_ip (f l) = bl_dst_ip l" and "\<And>l. bl_addr (f l) = bl_addr l"
  shows "links_ok (set_link a f s)"
proof -
  have "bl_addr l \<le> allocs s" if "l \<in> set (update_first P f (brk_list s))" for l P
    using that set_update_first [of P f "brk_list s"] assms(1,3) by (auto simp: links_ok_def)
  then show ?thesis
    using assms by (simp add: links_ok_def set_link_def map_update_first)
qed

lemma expire_link_fields [simp]:
  "bl_dst_ip (expire_link c l) = bl_dst_ip l" "bl_addr (expire_link c l) = bl_addr l"
  by (simp_all add: expire_link_def)

lemma subseq_set: "subseq xs ys \<Longrightarrow> set xs \<subseteq> set ys"
  by (induction rule: list_emb.induct) auto

lemma subseq_sorted: "subseq xs ys \<Longrightarrow> sorted_wrt R ys \<Longrightarrow> sorted_wrt R xs"
  by (induction rule: list_emb.induct) (auto dest!: subseq_set)

text \<open>The flush keeps a part of the links, in their order.\<close>

abbreviation link_key :: "brk_link \<Rightarrow> u32 \<times> nat" where
  "link_key l \<equiv> (bl_dst_ip l, bl_addr l)"

lemma flush_links_subseq:
  "flush_links ct ls = Some ls' \<Longrightarrow> subseq (map link_key ls') (map link_key ls)"
proof (induction ct ls arbitrary: ls' rule: flush_links.induct)
  case (2 ct l ls)
  show ?case
  proof (cases "time_before (bl_lifetime l) ct")
    case ex: True
    show ?thesis
    proof (cases "bl_state l = INVALID")
      case True
      with ex 2(4) obtain k ks r where ls: "ls = k # ks" and r: "flush_links ct ks = Some r" "ls' = k # r"
        by (auto split: list.splits)
      have "\<not> bl_state l \<noteq> INVALID" using True by simp
      from 2(2) [OF ex this ls r(1)] have "subseq (map link_key ls') (map link_key ls)"
        using ls r(2) by simp
      then show ?thesis by (simp add: list_emb_Cons)
    next
      case False
      with ex 2(4) obtain d k ks r where ls: "ls = d # k # ks" and r: "flush_links ct ks = Some r"
        "ls' = expire_link ct l # k # r"
        by (auto split: list.splits)
      from 2(1) [OF ex False ls refl r(1)] r(2) ls show ?thesis by (auto intro!: list_emb_Cons)
    qed
  next
    case False
    with 2 show ?thesis by auto
  qed
qed simp

lemma flush_brk_list_ok [inv_intros]:
  assumes "links_ok s" and "flush_brk_list s = Some s'"
  shows "links_ok s'"
proof -
  obtain ls' where f: "flush_links (currtime s) (brk_list s) = Some ls'" and s': "s' = s\<lparr>brk_list := ls'\<rparr>"
    using assms(2) by (auto simp: flush_brk_list_def)
  note sub = flush_links_subseq [OF f]
  have "sorted (map fst (map link_key ls'))"
    using subseq_sorted [OF subseq_map [OF sub, of fst], of "(\<le>)"] assms(1)
    by (simp add: links_ok_def comp_def)
  moreover have "distinct (map snd (map link_key ls'))"
    using subseq_sorted [OF subseq_map [OF sub, of snd], of "(\<noteq>)"] assms(1)
    by (simp add: links_ok_def comp_def distinct_conv_nth sorted_wrt_iff_nth_less) (metis nat_neq_iff)
  moreover have "bl_addr ` set ls' \<subseteq> bl_addr ` set (brk_list s)"
    using subseq_set [OF subseq_map [OF sub, of snd]] by (simp add: image_image)
  ultimately show ?thesis
    using assms(1) s' by (force simp: links_ok_def comp_def)
qed

lemma flush_links_none_expired:
  "\<forall>l\<in>set ls. \<not> time_before (bl_lifetime l) ct \<Longrightarrow> flush_links ct ls = Some ls"
  by (induction ls) auto

lemma flush_links_last_expired:
  "time_before (bl_lifetime l) ct \<Longrightarrow> \<forall>x\<in>set ls. \<not> time_before (bl_lifetime x) ct \<Longrightarrow>
     flush_links ct (ls @ [l]) = None"
  by (induction ls) auto

lemma flush_links_eats:
  "time_before (bl_lifetime l) ct \<Longrightarrow> bl_state l \<noteq> INVALID \<Longrightarrow> \<forall>x\<in>set ls. \<not> time_before (bl_lifetime x) ct \<Longrightarrow>
     \<forall>x\<in>set (d # k # ks). \<not> time_before (bl_lifetime x) ct \<Longrightarrow>
     flush_links ct (ls @ l # d # k # ks) = Some (ls @ expire_link ct l # k # ks)"
  by (induction ls) (auto simp: flush_links_none_expired)

text \<open>
  C39: the flush of the broken links, as the source has it. With nothing expired it changes
  nothing. With one expired link: at the end of the list it reads through a NULL pointer; an
  invalid one with others behind it is removed; an active one with two others behind it becomes
  invalid, and the link behind it, which has not expired, is removed.
\<close>

theorem flush_brk_list_spec:
  assumes "brk_list s = ls @ l # ks"
    and "\<forall>x\<in>set (ls @ ks). \<not> time_before (bl_lifetime x) (currtime s)"
  shows "flush_brk_list s =
     (if \<not> time_before (bl_lifetime l) (currtime s) then Some s
      else case ks of
        [] \<Rightarrow> None
      | d # ks' \<Rightarrow>
          if bl_state l = INVALID then Some (s\<lparr>brk_list := ls @ d # ks'\<rparr>)
          else case ks' of
            [] \<Rightarrow> None
          | k # ks'' \<Rightarrow> Some (s\<lparr>brk_list := ls @ expire_link (currtime s) l # k # ks''\<rparr>))"
proof -
  let ?ct = "currtime s"
  have skip: "flush_links ?ct (ls @ xs) = map_option (\<lambda>r. ls @ r) (flush_links ?ct xs)" for xs
    using assms(2) by (induction ls) (cases "flush_links ?ct xs"; auto)+
  have keep: "flush_links ?ct ks = Some ks" "flush_links ?ct (tl ks) = Some (tl ks)"
    "flush_links ?ct (tl (tl ks)) = Some (tl (tl ks))"
    using assms(2) by (cases ks; cases "tl ks"; auto simp: flush_links_none_expired)+
  have same: "s\<lparr>brk_list := ls @ l # ks\<rparr> = s" unfolding assms(1) [symmetric] by (cases s) simp
  have "flush_brk_list s = map_option (\<lambda>r. s\<lparr>brk_list := ls @ r\<rparr>) (flush_links ?ct (l # ks))"
    unfolding flush_brk_list_def assms(1) skip by (simp add: option.map_comp comp_def)
  note flush = this
  show ?thesis
  proof (cases "time_before (bl_lifetime l) ?ct")
    case False
    with keep(1) have "flush_brk_list s = Some (s\<lparr>brk_list := ls @ l # ks\<rparr>)" unfolding flush by simp
    with False show ?thesis unfolding same by simp
  next
    case True
    show ?thesis
    proof (cases ks)
      case Nil
      with True show ?thesis unfolding flush by simp
    next
      case (Cons d ds)
      then have "flush_links ?ct ds = Some ds" "flush_links ?ct (tl ds) = Some (tl ds)" using keep by simp_all
      with Cons True show ?thesis unfolding flush by (cases ds) simp_all
    qed
  qed
qed

definition sample_link :: "nat \<Rightarrow> u64 \<Rightarrow> u32 \<Rightarrow> brk_link" where
  "sample_link a t dst =
     \<lparr>bl_addr = a, bl_lifetime = t, bl_last_hop = 5, bl_dst_ip = dst, bl_src_ip = 2, bl_dst_id = 4,
      bl_state = ACTIVE, bl_last_avail_ip = 0\<rparr>"

lemma flush_brk_list_spec_witness:
  "flush_brk_list (sample_node\<lparr>brk_list := [sample_link 1 99000 8]\<rparr>) = None \<and>
   map_option brk_list (flush_brk_list (sample_node\<lparr>brk_list :=
        [sample_link 1 99000 8, sample_link 2 160000 9, sample_link 3 160000 10]\<rparr>))
     = Some [expire_link 100000 (sample_link 1 99000 8), sample_link 3 160000 10]"
  using flush_brk_list_spec [of "sample_node\<lparr>brk_list := [sample_link 1 99000 8]\<rparr>" "[]" "sample_link 1 99000 8" "[]"]
    flush_brk_list_spec [of "sample_node\<lparr>brk_list :=
        [sample_link 1 99000 8, sample_link 2 160000 9, sample_link 3 160000 10]\<rparr>" "[]" "sample_link 1 99000 8"
        "[sample_link 2 160000 9, sample_link 3 160000 10]"]
  by (simp add: sample_link_def sample_simps time_before_window)

end
