(* ===== verification/Neighbours.thy ===== *)
theory Neighbours
  imports Brk_List
begin

text \<open>
  The neighbours at one hop (\<open>aodv_neigh.c\<close>) and at two hops (\<open>aodv_neigh_2h.c\<close>), kept in the
  order of their addresses, each address once; the kernel route a new neighbour brings; and
  the refresh of a neighbour's timer. The deletion of a neighbour, which generates route
  errors, is in theory \<open>Rerr\<close>.
\<close>

section \<open>One hop\<close>

definition init_aodv_neigh_list :: "node \<Rightarrow> node" where
  "init_aodv_neigh_list s = s\<lparr>neigh_list := []\<rparr>"

text \<open>The clean-ups free every entry; the head pointers they leave dangling are not read again.\<close>

definition delete_aodv_neigh_list :: "node \<Rightarrow> node" where
  "delete_aodv_neigh_list s = s\<lparr>neigh_list := []\<rparr>"

fun look_neigh :: "u32 \<Rightarrow> aodv_neigh list \<Rightarrow> aodv_neigh option" where
  "look_neigh target_ip [] = None"
| "look_neigh target_ip (n # ns) =
     (if ng_ip n \<le> target_ip then if ng_ip n = target_ip then Some n else look_neigh target_ip ns
      else None)"

definition find_aodv_neigh :: "u32 \<Rightarrow> node \<Rightarrow> aodv_neigh option" where
  "find_aodv_neigh target_ip s = look_neigh target_ip (neigh_list s)"

definition first_aodv_neigh :: "node \<Rightarrow> aodv_neigh option" where
  "first_aodv_neigh s = (case neigh_list s of [] \<Rightarrow> None | n # ns \<Rightarrow> Some n)"

text \<open>A store through the pointer to the neighbour \<open>ip\<close>; a neighbour is known by its address.\<close>

definition set_neigh :: "u32 \<Rightarrow> (aodv_neigh \<Rightarrow> aodv_neigh) \<Rightarrow> node \<Rightarrow> node" where
  "set_neigh ip f s = s\<lparr>neigh_list := update_first (\<lambda>n. ng_ip n = ip) f (neigh_list s)\<rparr>"

text \<open>\<open>g_local_route->dst_id\<close>, the sequence number of the node.\<close>

definition local_dst_id :: "node \<Rightarrow> u32 option" where
  "local_dst_id s = map_option rt_dst_id (List.find (\<lambda>r. rt_addr r = local_route s) (route_table s))"

text \<open>
  \<open>route_aodv_neigh\<close>. When the kernel refuses the route, the node frees the table entry it
  leaves in the table; the first walk of the table would read it, so that is a fault.
\<close>

definition neigh_route_write :: "aodv_route \<Rightarrow> aodv_route" where
  "neigh_route_write r =
     r\<lparr>rt_num_hops := 1, rt_path_metric := 1, rt_state := ACTIVE, rt_neigh_route := True, rt_self_route := True\<rparr>"

definition route_aodv_neigh :: "u32 \<Rightarrow> node \<Rightarrow> (int \<times> node) option" where
  "route_aodv_neigh neigh_ip s = do {
     dst_id \<leftarrow> local_dst_id s;
     (case create_aodv_route (mesh_ip s) neigh_ip 0 dst_id s of
        (None, s) \<Rightarrow> Some (0, s)
      | (Some r, s) \<Rightarrow>
          let s = set_route (rt_addr r) neigh_route_write s in
          (case find_src_list_entry (mesh_ip s) s of
             None \<Rightarrow> Some (0, s)
           | Some e \<Rightarrow>
               (case rpdb_route True (sl_rt_table e) 0 (mesh_ip s) neigh_ip neigh_ip (dev_index (cfg s)) 1 s of
                  (error, s) \<Rightarrow> if error < 0 then None else Some (1, s))))
   }"

definition delay_vector_init :: "u32 list" where
  "delay_vector_init = replicate (unat ETT_PROBES_MAX) DEFAULT_ETT_METRIC"

definition new_neigh :: "u32 \<Rightarrow> node \<Rightarrow> aodv_neigh" where
  "new_neigh ip s =
     \<lparr>ng_ip = ip, ng_lifetime = 0, etx_count = 0, etx_send = 0, etx_recv = 0,
      ett_count_rcv = 0, ett_last_count = 0, ett_window = ETT_PROBES_MIN + 1, ett_sec = 0, ett_usec = 0,
      ett_meas_delay = DEFAULT_ETT_METRIC, ett_recv_delays = delay_vector_init, ett_reset = 0,
      ett_interval = ucast ETT_FAST_INTERVAL, ett_fixed_rate = 0, ng_load_seq = 0, ng_load = 0,
      ng_neigh_tx = replicate NEIGH_TABLESIZE 0, ng_recv_rate = 0, ng_send_rate = g_fixed_rate (cfg s),
      ng_etx_metric = 0\<rparr>"

fun insert_neigh :: "aodv_neigh \<Rightarrow> aodv_neigh list \<Rightarrow> aodv_neigh list" where
  "insert_neigh n [] = [n]"
| "insert_neigh n (x # xs) = (if ng_ip x < ng_ip n then x # insert_neigh n xs else n # x # xs)"

text \<open>The entry the insertion would stand in front of has the address already.\<close>

definition neigh_duplicate :: "u32 \<Rightarrow> aodv_neigh list \<Rightarrow> bool" where
  "neigh_duplicate ip ns \<longleftrightarrow>
     (case dropWhile (\<lambda>n. ng_ip n < ip) ns of [] \<Rightarrow> False | n # _ \<Rightarrow> ng_ip n = ip)"

definition probe_jitter :: "u32 \<Rightarrow> node \<Rightarrow> u64 \<times> node" where
  "probe_jitter ip s =
     (case get_random_bytes s of (rand, s) \<Rightarrow> (ucast ((rand * ip) mod 2000), s))"

definition create_aodv_neigh :: "u32 \<Rightarrow> node \<Rightarrow> (aodv_neigh option \<times> node) option" where
  "create_aodv_neigh ip s =
     (case kmalloc s of
        (None, s) \<Rightarrow> Some (None, s)
      | (Some _, s) \<Rightarrow>
          if neigh_duplicate ip (neigh_list s) then Some (None, s)
          else do {
            (ok, s) \<leftarrow> route_aodv_neigh ip s;
            if ok = 0 then Some (None, s)
            else
              let n = new_neigh ip s;
                  s = s\<lparr>neigh_list := insert_neigh n (neigh_list s)\<rparr>
              in if metric s \<noteq> HOPS then
                   (case probe_jitter ip s of
                      (jitter, s) \<Rightarrow>
                        let s = snd (insert_timer_simple TASK_SEND_ETT (1000 + 10 * jitter) ip s);
                            s = snd (insert_timer_simple TASK_ETT_CLEANUP
                                       (ETT_INTERVAL * (1 + ALLOWED_ETT_LOSS) + 100) ip s)
                        in Some (Some n, update_timer_queue s))
                 else Some (Some n, s)
          })"

text \<open>The refresh that every message of a neighbour makes.\<close>

definition update_neigh_timelife :: "u32 \<Rightarrow> node \<Rightarrow> node" where
  "update_neigh_timelife ip s =
     (let s = delete_timer ip ip NO_TOS TASK_NEIGHBOR s;
          s = snd (insert_timer_simple TASK_NEIGHBOR (HELLO_INTERVAL * (1 + ALLOWED_HELLO_LOSS) + 100) ip s);
          s = update_timer_queue s
      in set_neigh ip (\<lambda>n. n\<lparr>ng_lifetime := HELLO_INTERVAL * (1 + ALLOWED_HELLO_LOSS) + 20 + currtime s\<rparr>) s)"

definition cleanup_neigh_route :: "src_list_entry \<Rightarrow> aodv_neigh \<Rightarrow> node \<Rightarrow> node" where
  "cleanup_neigh_route e n s =
     (let s = snd (rpdb_route False (sl_rt_table e) NO_TOS (mesh_ip s) (ng_ip n) (ng_ip n) (dev_index (cfg s)) 1 s)
      in case find_aodv_route (mesh_ip s) (ng_ip n) 0 s of
           None \<Rightarrow> s
         | Some r \<Rightarrow> remove_aodv_route (rt_addr r) s)"

definition cleanup_neigh_routes :: "node \<Rightarrow> node" where
  "cleanup_neigh_routes s =
     (case find_src_list_entry (mesh_ip s) s of
        None \<Rightarrow> s
      | Some e \<Rightarrow> fold (cleanup_neigh_route e) (neigh_list s) s)"

section \<open>Two hops\<close>

definition init_aodv_neigh_list_2h :: "node \<Rightarrow> node" where
  "init_aodv_neigh_list_2h s = s\<lparr>neigh_list_2h := []\<rparr>"

definition delete_aodv_neigh_list_2h :: "node \<Rightarrow> node" where
  "delete_aodv_neigh_list_2h s = s\<lparr>neigh_list_2h := []\<rparr>"

fun look_neigh_2h :: "u32 \<Rightarrow> aodv_neigh_2h list \<Rightarrow> aodv_neigh_2h option" where
  "look_neigh_2h target_ip [] = None"
| "look_neigh_2h target_ip (n # ns) =
     (if n2_ip n \<le> target_ip then if n2_ip n = target_ip then Some n else look_neigh_2h target_ip ns
      else None)"

definition find_aodv_neigh_2h :: "u32 \<Rightarrow> node \<Rightarrow> aodv_neigh_2h option" where
  "find_aodv_neigh_2h target_ip s = look_neigh_2h target_ip (neigh_list_2h s)"

definition set_neigh_2h :: "u32 \<Rightarrow> (aodv_neigh_2h \<Rightarrow> aodv_neigh_2h) \<Rightarrow> node \<Rightarrow> node" where
  "set_neigh_2h ip f s = s\<lparr>neigh_list_2h := update_first (\<lambda>n. n2_ip n = ip) f (neigh_list_2h s)\<rparr>"

fun insert_neigh_2h :: "aodv_neigh_2h \<Rightarrow> aodv_neigh_2h list \<Rightarrow> aodv_neigh_2h list" where
  "insert_neigh_2h n [] = [n]"
| "insert_neigh_2h n (x # xs) = (if n2_ip x < n2_ip n then x # insert_neigh_2h n xs else n # x # xs)"

definition neigh_2h_duplicate :: "u32 \<Rightarrow> aodv_neigh_2h list \<Rightarrow> bool" where
  "neigh_2h_duplicate ip ns \<longleftrightarrow>
     (case dropWhile (\<lambda>n. n2_ip n < ip) ns of [] \<Rightarrow> False | n # _ \<Rightarrow> n2_ip n = ip)"

definition create_aodv_neigh_2h :: "u32 \<Rightarrow> node \<Rightarrow> aodv_neigh_2h option \<times> node" where
  "create_aodv_neigh_2h ip s =
     (case kmalloc s of
        (None, s) \<Rightarrow> (None, s)
      | (Some _, s) \<Rightarrow>
          if neigh_2h_duplicate ip (neigh_list_2h s) then (None, s)
          else
            let n = \<lparr>n2_ip = ip, n2_lifetime = currtime s + NEIGHBOR_2H_TIMEOUT, n2_load = 0, n2_load_seq = 0\<rparr>;
                s = s\<lparr>neigh_list_2h := insert_neigh_2h n (neigh_list_2h s)\<rparr>;
                s = snd (insert_timer_simple TASK_NEIGHBOR_2H (NEIGHBOR_2H_TIMEOUT + 100) ip s)
            in (Some n, update_timer_queue s))"

definition delete_aodv_neigh_2h :: "u32 \<Rightarrow> node \<Rightarrow> int \<times> node" where
  "delete_aodv_neigh_2h ip s =
     (if list_ex (\<lambda>n. n2_ip n = ip) (neigh_list_2h s)
      then (1, update_timer_queue (s\<lparr>neigh_list_2h := remove_first (\<lambda>n. n2_ip n = ip) (neigh_list_2h s)\<rparr>))
      else (0, s))"

section \<open>What the timer operations leave alone\<close>

lemma timers_only_all:
  "timers_only s s' \<Longrightarrow> cfg s' = cfg s \<and> now s' = now s \<and> neigh_list s' = neigh_list s \<and> neigh_list_2h s' = neigh_list_2h s \<and> route_table s' = route_table s \<and> src_list s' = src_list s \<and> brk_list s' = brk_list s \<and> gw_list s' = gw_list s \<and> default_gw s' = default_gw s \<and> ipq s' = ipq s \<and> local_route s' = local_route s \<and> out s' = out s \<and> dtn_register s' = dtn_register s \<and> flow_type_table s' = flow_type_table s \<and> sends s' = sends s \<and> rands s' = rands s \<and> nlreqs s' = nlreqs s \<and> hello_count s' = hello_count s \<and> count_send s' = count_send s \<and> mesh_load s' = mesh_load s \<and> mesh_load_seq s' = mesh_load_seq s \<and> task_queue s' = task_queue s"
  unfolding timers_only_def by (cases s; cases s') simp

lemma insert_timer_simple_frame [simp]:
  "cfg (snd (insert_timer_simple a b c s)) = cfg s" "now (snd (insert_timer_simple a b c s)) = now s"
  "neigh_list (snd (insert_timer_simple a b c s)) = neigh_list s" "neigh_list_2h (snd
  (insert_timer_simple a b c s)) = neigh_list_2h s" "route_table (snd (insert_timer_simple a b c s)) =
  route_table s" "src_list (snd (insert_timer_simple a b c s)) = src_list s" "brk_list (snd
  (insert_timer_simple a b c s)) = brk_list s" "gw_list (snd (insert_timer_simple a b c s)) = gw_list
  s" "default_gw (snd (insert_timer_simple a b c s)) = default_gw s" "ipq (snd (insert_timer_simple a
  b c s)) = ipq s" "local_route (snd (insert_timer_simple a b c s)) = local_route s" "out (snd
  (insert_timer_simple a b c s)) = out s" "dtn_register (snd (insert_timer_simple a b c s)) =
  dtn_register s" "flow_type_table (snd (insert_timer_simple a b c s)) = flow_type_table s" "sends
  (snd (insert_timer_simple a b c s)) = sends s" "rands (snd (insert_timer_simple a b c s)) = rands s"
  "nlreqs (snd (insert_timer_simple a b c s)) = nlreqs s" "hello_count (snd (insert_timer_simple a b c
  s)) = hello_count s" "count_send (snd (insert_timer_simple a b c s)) = count_send s" "mesh_load (snd
  (insert_timer_simple a b c s)) = mesh_load s" "mesh_load_seq (snd (insert_timer_simple a b c s)) =
  mesh_load_seq s" "task_queue (snd (insert_timer_simple a b c s)) = task_queue s"
  using timers_only_all [OF timers_only_simple [of s a b c]] by simp_all

lemma insert_timer_directional_frame [simp]:
  "cfg (snd (insert_timer_directional a b c d e f s)) = cfg s" "now (snd (insert_timer_directional a b
  c d e f s)) = now s" "neigh_list (snd (insert_timer_directional a b c d e f s)) = neigh_list s"
  "neigh_list_2h (snd (insert_timer_directional a b c d e f s)) = neigh_list_2h s" "route_table (snd
  (insert_timer_directional a b c d e f s)) = route_table s" "src_list (snd (insert_timer_directional
  a b c d e f s)) = src_list s" "brk_list (snd (insert_timer_directional a b c d e f s)) = brk_list s"
  "gw_list (snd (insert_timer_directional a b c d e f s)) = gw_list s" "default_gw (snd
  (insert_timer_directional a b c d e f s)) = default_gw s" "ipq (snd (insert_timer_directional a b c
  d e f s)) = ipq s" "local_route (snd (insert_timer_directional a b c d e f s)) = local_route s" "out
  (snd (insert_timer_directional a b c d e f s)) = out s" "dtn_register (snd (insert_timer_directional
  a b c d e f s)) = dtn_register s" "flow_type_table (snd (insert_timer_directional a b c d e f s)) =
  flow_type_table s" "sends (snd (insert_timer_directional a b c d e f s)) = sends s" "rands (snd
  (insert_timer_directional a b c d e f s)) = rands s" "nlreqs (snd (insert_timer_directional a b c d
  e f s)) = nlreqs s" "hello_count (snd (insert_timer_directional a b c d e f s)) = hello_count s"
  "count_send (snd (insert_timer_directional a b c d e f s)) = count_send s" "mesh_load (snd
  (insert_timer_directional a b c d e f s)) = mesh_load s" "mesh_load_seq (snd
  (insert_timer_directional a b c d e f s)) = mesh_load_seq s" "task_queue (snd
  (insert_timer_directional a b c d e f s)) = task_queue s"
  using timers_only_all [OF timers_only_directional [of s a b c d e f]] by simp_all

lemma delete_timer_frame [simp]:
  "cfg (delete_timer a b c d s) = cfg s" "now (delete_timer a b c d s) = now s" "neigh_list
  (delete_timer a b c d s) = neigh_list s" "neigh_list_2h (delete_timer a b c d s) = neigh_list_2h s"
  "route_table (delete_timer a b c d s) = route_table s" "src_list (delete_timer a b c d s) = src_list
  s" "brk_list (delete_timer a b c d s) = brk_list s" "gw_list (delete_timer a b c d s) = gw_list s"
  "default_gw (delete_timer a b c d s) = default_gw s" "ipq (delete_timer a b c d s) = ipq s"
  "local_route (delete_timer a b c d s) = local_route s" "out (delete_timer a b c d s) = out s"
  "dtn_register (delete_timer a b c d s) = dtn_register s" "flow_type_table (delete_timer a b c d s) =
  flow_type_table s" "sends (delete_timer a b c d s) = sends s" "rands (delete_timer a b c d s) =
  rands s" "nlreqs (delete_timer a b c d s) = nlreqs s" "hello_count (delete_timer a b c d s) =
  hello_count s" "count_send (delete_timer a b c d s) = count_send s" "mesh_load (delete_timer a b c d
  s) = mesh_load s" "mesh_load_seq (delete_timer a b c d s) = mesh_load_seq s" "task_queue
  (delete_timer a b c d s) = task_queue s"
  using timers_only_all [OF timers_only_delete [of s a b c d]] by simp_all

lemma update_timer_queue_frame [simp]:
  "cfg (update_timer_queue s) = cfg s" "now (update_timer_queue s) = now s" "neigh_list
  (update_timer_queue s) = neigh_list s" "neigh_list_2h (update_timer_queue s) = neigh_list_2h s"
  "route_table (update_timer_queue s) = route_table s" "src_list (update_timer_queue s) = src_list s"
  "brk_list (update_timer_queue s) = brk_list s" "gw_list (update_timer_queue s) = gw_list s"
  "default_gw (update_timer_queue s) = default_gw s" "ipq (update_timer_queue s) = ipq s" "local_route
  (update_timer_queue s) = local_route s" "out (update_timer_queue s) = out s" "dtn_register
  (update_timer_queue s) = dtn_register s" "flow_type_table (update_timer_queue s) = flow_type_table
  s" "sends (update_timer_queue s) = sends s" "rands (update_timer_queue s) = rands s" "nlreqs
  (update_timer_queue s) = nlreqs s" "hello_count (update_timer_queue s) = hello_count s" "count_send
  (update_timer_queue s) = count_send s" "mesh_load (update_timer_queue s) = mesh_load s"
  "mesh_load_seq (update_timer_queue s) = mesh_load_seq s" "task_queue (update_timer_queue s) =
  task_queue s"
  using timers_only_all [OF timers_only_update [of s]] by simp_all

section \<open>The lists are ordered and without duplicates\<close>

interpretation neighs: ordered_table ng_ip insert_neigh
proof (unfold_locales, goal_cases)
  case (1 x xs)
  show ?case by (induction xs) auto
qed

interpretation neighs_2h: ordered_table n2_ip insert_neigh_2h
proof (unfold_locales, goal_cases)
  case (1 x xs)
  show ?case by (induction xs) auto
qed

text \<open>
  A neighbour's vectors have the size of the arrays, and its measurement round, of at most ten
  delays, is not complete: the index that the next measurement is stored at is in the array.
\<close>

definition neigh_wf :: "aodv_neigh \<Rightarrow> bool" where
  "neigh_wf n \<longleftrightarrow>
     length (ett_recv_delays n) = 10 \<and> ett_count_rcv n < ett_window n \<and> ett_window n \<le> ETT_PROBES_MAX \<and>
     length (ng_neigh_tx n) = NEIGH_TABLESIZE"

definition neighs_ok :: "node \<Rightarrow> bool" where
  "neighs_ok s \<longleftrightarrow>
     sorted (map ng_ip (neigh_list s)) \<and> distinct (map ng_ip (neigh_list s)) \<and>
     (\<forall>n\<in>set (neigh_list s). neigh_wf n)"

definition neighs_2h_ok :: "node \<Rightarrow> bool" where
  "neighs_2h_ok s \<longleftrightarrow> sorted (map n2_ip (neigh_list_2h s)) \<and> distinct (map n2_ip (neigh_list_2h s))"

lemma neighs_ok_cong: "neigh_list s' = neigh_list s \<Longrightarrow> neighs_ok s' = neighs_ok s"
  by (simp add: neighs_ok_def)

lemma neighs_2h_ok_cong: "neigh_list_2h s' = neigh_list_2h s \<Longrightarrow> neighs_2h_ok s' = neighs_2h_ok s"
  by (simp add: neighs_2h_ok_def)

lemma look_neigh_sorted:
  "sorted (map ng_ip ns) \<Longrightarrow> look_neigh ip ns = List.find (\<lambda>n. ng_ip n = ip) ns"
proof (induction ns)
  case (Cons n ns)
  have "\<not> ng_ip n \<le> ip \<Longrightarrow> \<forall>m\<in>set ns. ng_ip m \<noteq> ip" using Cons.prems by fastforce
  then have "\<not> ng_ip n \<le> ip \<Longrightarrow> List.find (\<lambda>n. ng_ip n = ip) ns = None" by (simp add: find_None_iff)
  then show ?case using Cons by auto
qed simp

lemma find_aodv_neigh_iff:
  "neighs_ok s \<Longrightarrow> find_aodv_neigh ip s = List.find (\<lambda>n. ng_ip n = ip) (neigh_list s)"
  by (simp add: find_aodv_neigh_def neighs_ok_def look_neigh_sorted)

lemma find_aodv_neigh_D: "find_aodv_neigh ip s = Some n \<Longrightarrow> n \<in> set (neigh_list s) \<and> ng_ip n = ip"
proof -
  have "look_neigh ip ns = Some n \<Longrightarrow> n \<in> set ns \<and> ng_ip n = ip" for ns
    by (induction ns) (auto split: if_splits)
  then show "find_aodv_neigh ip s = Some n \<Longrightarrow> n \<in> set (neigh_list s) \<and> ng_ip n = ip"
    by (simp add: find_aodv_neigh_def)
qed

lemma look_neigh_2h_sorted:
  "sorted (map n2_ip ns) \<Longrightarrow> look_neigh_2h ip ns = List.find (\<lambda>n. n2_ip n = ip) ns"
proof (induction ns)
  case (Cons n ns)
  have "\<not> n2_ip n \<le> ip \<Longrightarrow> \<forall>m\<in>set ns. n2_ip m \<noteq> ip" using Cons.prems by fastforce
  then have "\<not> n2_ip n \<le> ip \<Longrightarrow> List.find (\<lambda>n. n2_ip n = ip) ns = None" by (simp add: find_None_iff)
  then show ?case using Cons by auto
qed simp

lemma dropWhile_less_eq:
  fixes key :: "'a \<Rightarrow> 'k::linorder"
  assumes "sorted (map key xs)"
  shows "(case dropWhile (\<lambda>x. key x < k) xs of [] \<Rightarrow> False | y # _ \<Rightarrow> key y = k) \<longleftrightarrow> k \<in> key ` set xs"
  using assms
proof (induction xs)
  case (Cons x xs)
  consider "key x < k" | "key x = k" | "k < key x" by fastforce
  then show ?case
  proof cases
    case 3
    then have "\<forall>y\<in>set (x # xs). key y \<noteq> k" using Cons.prems by fastforce
    with 3 show ?thesis by auto
  qed (use Cons in auto)
qed simp

lemma neigh_duplicate_iff: "neighs_ok s \<Longrightarrow> neigh_duplicate ip (neigh_list s) \<longleftrightarrow> ip \<in> ng_ip ` set (neigh_list s)"
  by (simp add: neigh_duplicate_def neighs_ok_def dropWhile_less_eq)

lemma neigh_2h_duplicate_iff:
  "neighs_2h_ok s \<Longrightarrow> neigh_2h_duplicate ip (neigh_list_2h s) \<longleftrightarrow> ip \<in> n2_ip ` set (neigh_list_2h s)"
  by (simp add: neigh_2h_duplicate_def neighs_2h_ok_def dropWhile_less_eq)

lemma distinct_insert_neigh:
  "distinct (map ng_ip (insert_neigh n xs)) \<longleftrightarrow> ng_ip n \<notin> ng_ip ` set xs \<and> distinct (map ng_ip xs)"
  by (induction xs) auto

lemma distinct_insert_neigh_2h:
  "distinct (map n2_ip (insert_neigh_2h n xs)) \<longleftrightarrow> n2_ip n \<notin> n2_ip ` set xs \<and> distinct (map n2_ip xs)"
  by (induction xs) auto

lemma find_insert_neigh:
  "ng_ip n \<notin> ng_ip ` set xs \<Longrightarrow> List.find (\<lambda>x. ng_ip x = ip) (insert_neigh n xs)
     = (if ng_ip n = ip then Some n else List.find (\<lambda>x. ng_ip x = ip) xs)"
  by (induction xs) auto

lemma find_distinct:
  "distinct (map k xs) \<Longrightarrow> x \<in> set xs \<Longrightarrow> k x = a \<Longrightarrow> List.find (\<lambda>y. k y = a) xs = Some x"
  by (induction xs) auto

lemma find_aodv_neigh_member: "neighs_ok s \<Longrightarrow> n \<in> set (neigh_list s) \<Longrightarrow> find_aodv_neigh (ng_ip n) s = Some n"
  by (simp add: find_aodv_neigh_iff) (simp add: neighs_ok_def find_distinct)

lemma set_neigh_ok [inv_intros]:
  assumes "neighs_ok s" and "\<And>n. ng_ip (f n) = ng_ip n"
    and "\<And>n. find_aodv_neigh ip s = Some n \<Longrightarrow> neigh_wf n \<Longrightarrow> neigh_wf (f n)"
  shows "neighs_ok (set_neigh ip f s)"
proof -
  have "neigh_wf (f n)" if "n \<in> set (neigh_list s)" "ng_ip n = ip" for n
    using that assms(1) assms(3) [of n] find_aodv_neigh_member [of s n] by (simp add: neighs_ok_def)
  then have "\<forall>n\<in>set (update_first (\<lambda>n. ng_ip n = ip) f (neigh_list s)). neigh_wf n"
    using set_update_first [of "\<lambda>n. ng_ip n = ip" f "neigh_list s"] assms(1) by (auto simp: neighs_ok_def)
  then show ?thesis
    using assms(1,2) by (simp add: neighs_ok_def set_neigh_def map_update_first)
qed

lemma find_set_neigh:
  assumes "neighs_ok s" and "\<And>n. ng_ip (f n) = ng_ip n"
    and "\<And>n. find_aodv_neigh ip s = Some n \<Longrightarrow> neigh_wf n \<Longrightarrow> neigh_wf (f n)"
  shows "find_aodv_neigh j (set_neigh ip f s)
     = (if j = ip then map_option f (find_aodv_neigh j s) else find_aodv_neigh j s)"
proof -
  have "List.find (\<lambda>n. ng_ip n = j) (update_first (\<lambda>n. ng_ip n = ip) f xs)
     = (if j = ip then map_option f (List.find (\<lambda>n. ng_ip n = j) xs) else List.find (\<lambda>n. ng_ip n = j) xs)" for xs
    by (induction xs) (auto simp: assms(2))
  note look = this [of "neigh_list s"]
  have ok: "neighs_ok (set_neigh ip f s)" by (rule set_neigh_ok) (use assms in auto)
  have l: "neigh_list (set_neigh ip f s) = update_first (\<lambda>n. ng_ip n = ip) f (neigh_list s)"
    by (simp add: set_neigh_def)
  show ?thesis
    unfolding find_aodv_neigh_iff [OF assms(1)] find_aodv_neigh_iff [OF ok] l by (rule look)
qed

section \<open>A new neighbour\<close>

text \<open>What a change of the routes, in the table and in the kernel, leaves alone.\<close>

definition routes_only :: "node \<Rightarrow> node \<Rightarrow> bool" where
  "routes_only s s' \<longleftrightarrow>
     s' = s\<lparr>allocs := allocs s', route_table := route_table s', nlreqs := nlreqs s', out := out s'\<rparr>"

lemma routes_only_refl [simp]: "routes_only s s"
  by (simp add: routes_only_def)

lemma routes_only_trans: "routes_only s t \<Longrightarrow> routes_only t u \<Longrightarrow> routes_only s u"
  unfolding routes_only_def by (cases s; cases t; cases u) simp

lemma routes_only_set [simp]: "routes_only s (set_route a f s)"
  by (simp add: routes_only_def set_route_def)

lemma routes_only_remove [simp]: "routes_only s (remove_aodv_route a s)"
  by (simp add: routes_only_def remove_aodv_route_def)

lemma routes_only_expire [simp]: "routes_only s (expire_aodv_route a s)"
  by (simp add: expire_aodv_route_def)

lemma routes_only_create: "create_aodv_route a b c d s = (r, s') \<Longrightarrow> routes_only s s'"
  by (auto simp: routes_only_def create_aodv_route_eq split: if_splits)

lemma routes_only_kernel: "rpdb_route a b c d e f g h s = (r, s') \<Longrightarrow> routes_only s s'"
  using rpdb_route_frame [of s a b c d e f g h] unfolding kernel_only_def routes_only_def
  by (cases s; cases s') simp

lemma routes_only_fields:
  "routes_only s s' \<Longrightarrow> cfg s' = cfg s \<and> now s' = now s \<and> rands s' = rands s \<and> sends s' = sends s
     \<and> dtn_register s' = dtn_register s \<and> local_route s' = local_route s \<and> mesh_load s' = mesh_load s
     \<and> mesh_load_seq s' = mesh_load_seq s \<and> src_list s' = src_list s \<and> neigh_list s' = neigh_list s
     \<and> neigh_list_2h s' = neigh_list_2h s \<and> gw_list s' = gw_list s \<and> default_gw s' = default_gw s
     \<and> brk_list s' = brk_list s \<and> timer_queue s' = timer_queue s \<and> aodv_timer s' = aodv_timer s
     \<and> task_queue s' = task_queue s \<and> flow_type_table s' = flow_type_table s \<and> ipq s' = ipq s
     \<and> hello_count s' = hello_count s \<and> count_send s' = count_send s"
  unfolding routes_only_def by (cases s; cases s') simp

section \<open>A new neighbour\<close>

lemma route_aodv_neigh_D:
  assumes "route_aodv_neigh ip s = Some (rc, s')"
  shows "routes_only s s' \<and> allocs s \<le> allocs s' \<and> (routes_ok s \<longrightarrow> routes_ok s')"
proof -
  obtain d where d: "local_dst_id s = Some d" using assms by (auto simp: route_aodv_neigh_def split: bind_splits)
  obtain ro s1 where c: "create_aodv_route (mesh_ip s) ip 0 d s = (ro, s1)" by fastforce
  have 1: "routes_only s s1" "allocs s \<le> allocs s1" "routes_ok s \<Longrightarrow> routes_ok s1"
    using routes_only_create [OF c] create_aodv_route_ok [of s "mesh_ip s" ip 0 d] c
    by (auto simp: create_aodv_route_eq split: if_splits)
  show ?thesis
  proof (cases ro)
    case None
    with assms d c 1 show ?thesis by (simp add: route_aodv_neigh_def)
  next
    case (Some r)
    define s2 where "s2 = set_route (rt_addr r) neigh_route_write s1"
    have 2: "routes_only s s2" "allocs s \<le> allocs s2" "routes_ok s \<Longrightarrow> routes_ok s2"
      unfolding s2_def using 1 routes_only_trans [OF 1(1) routes_only_set]
      by (auto intro!: set_route_ok simp: neigh_route_write_def)
    consider "s' = s2" | a b e where "rpdb_route True a 0 b ip ip e 1 s2 = (rc, s') \<or> (\<exists>x. rpdb_route True a 0 b ip ip e 1 s2 = (x, s'))"
      using assms d c Some by (auto simp: route_aodv_neigh_def Let_def s2_def [symmetric]
          split: option.splits prod.splits if_splits)
    then show ?thesis
    proof cases
      case 1
      with 2 show ?thesis by simp
    next
      case (2 a b e)
      then obtain x where x: "rpdb_route True a 0 b ip ip e 1 s2 = (x, s')" by blast
      note x' = rpdb_route_D [OF x] routes_only_trans [OF \<open>routes_only s s2\<close> routes_only_kernel [OF x]]
      have "routes_ok s2 \<Longrightarrow> routes_ok s'" using x' by (auto elim: routes_ok_cong [rotated 2])
      with x' \<open>allocs s \<le> allocs s2\<close> \<open>routes_ok s \<Longrightarrow> routes_ok s2\<close> show ?thesis by simp
    qed
  qed
qed

lemma new_neigh_wf [simp]: "neigh_wf (new_neigh ip s)"
  by (simp add: neigh_wf_def new_neigh_def delay_vector_init_def)

lemma new_neigh_ip [simp]: "ng_ip (new_neigh ip s) = ip"
  by (simp add: new_neigh_def)

lemma timers_only_D: "timers_only s s' \<Longrightarrow> neigh_list s' = neigh_list s \<and> neigh_list_2h s' = neigh_list_2h s
    \<and> route_table s' = route_table s \<and> cfg s' = cfg s"
  by (auto dest: timers_only_fields)

text \<open>What \<open>create_aodv_neigh\<close> does to the list; the rest of its effects only add timers.\<close>

lemma create_aodv_neigh_E:
  assumes "create_aodv_neigh ip s = Some (r, s')"
  obtains (refused) "r = None" "routes_only s s'" "allocs s \<le> allocs s'" "routes_ok s \<Longrightarrow> routes_ok s'"
  | (created) t u where "r = Some (new_neigh ip t)" "routes_only s t" "allocs s \<le> allocs t" "routes_ok s \<Longrightarrow> routes_ok t"
      "\<not> neigh_duplicate ip (neigh_list s)"
      "u = t\<lparr>neigh_list := insert_neigh (new_neigh ip t) (neigh_list t), rands := rands u\<rparr>"
      "timers_only u s'" "allocs u \<le> allocs s'"
proof (cases "kmalloc s")
  case (Pair k s1)
  have s1: "s1 = s\<lparr>allocs := Suc (allocs s)\<rparr>" using Pair by (simp add: kmalloc_def)
  have a: "routes_only s s1" "allocs s \<le> allocs s1" "routes_ok s \<Longrightarrow> routes_ok s1" "neigh_list s1 = neigh_list s"
    unfolding s1 by (auto simp: routes_only_def elim: routes_ok_cong [rotated 2])
  show ?thesis
  proof (cases "k = None \<or> neigh_duplicate ip (neigh_list s)")
    case True
    then have "r = None" "s' = s1" using assms Pair a(4) by (auto simp: create_aodv_neigh_def split: option.splits)
    with a refused show ?thesis by simp
  next
    case False
    then obtain rc t where t: "route_aodv_neigh ip s1 = Some (rc, t)"
      using assms Pair a(4) by (auto simp: create_aodv_neigh_def split: bind_splits option.splits)
    note T = route_aodv_neigh_D [OF t]
    have b: "routes_only s t" "allocs s \<le> allocs t" "routes_ok s \<Longrightarrow> routes_ok t"
      using T a routes_only_trans by auto
    show ?thesis
    proof (cases "rc = 0")
      case True
      then have "r = None" "s' = t" using assms Pair False t a(4) by (auto simp: create_aodv_neigh_def)
      with b refused show ?thesis by simp
    next
      case rc: False
      let ?u = "t\<lparr>neigh_list := insert_neigh (new_neigh ip t) (neigh_list t)\<rparr>"
      show ?thesis
      proof (cases "metric t = HOPS")
        case True
        then have "r = Some (new_neigh ip t)" "s' = ?u" using assms Pair False t a(4) rc
          by (auto simp: create_aodv_neigh_def Let_def)
        with b created [of t ?u] False show ?thesis by simp
      next
        case m: False
        define u where "u = snd (probe_jitter ip ?u)"
        define j where "j = fst (probe_jitter ip ?u)"
        have u: "u = t\<lparr>neigh_list := insert_neigh (new_neigh ip t) (neigh_list t), rands := rands u\<rparr>"
          by (simp add: u_def probe_jitter_def get_random_bytes_def)
        have p: "probe_jitter ip ?u = (j, u)" by (simp add: u_def j_def)
        define v where "v = update_timer_queue (snd (insert_timer_simple TASK_ETT_CLEANUP
             (ETT_INTERVAL * (1 + ALLOWED_ETT_LOSS) + 100) ip (snd (insert_timer_simple TASK_SEND_ETT (1000 + 10 * j) ip u))))"
        have "r = Some (new_neigh ip t)" "s' = v" using assms Pair False t a(4) rc m p
          by (auto simp: create_aodv_neigh_def Let_def v_def)
        moreover have "timers_only u v" "allocs u \<le> allocs v" unfolding v_def
          by (auto intro!: timers_only_trans [OF _ timers_only_update]
              timers_only_trans [OF timers_only_simple timers_only_simple])
        ultimately show ?thesis using b created [of t u] False u by simp
      qed
    qed
  qed
qed

lemma timers_only_neighs: "timers_only s s' \<Longrightarrow> neighs_ok s' = neighs_ok s \<and> find_aodv_neigh j s' = find_aodv_neigh j s"
  by (auto dest!: timers_only_D simp: neighs_ok_def find_aodv_neigh_def)

lemma create_aodv_neigh_outcome:
  assumes "neighs_ok s" and "create_aodv_neigh ip s = Some (r, s')"
  shows "neighs_ok s'
     \<and> (case r of
          None \<Rightarrow> neigh_list s' = neigh_list s
        | Some n \<Rightarrow> ng_ip n = ip \<and> find_aodv_neigh ip s = None \<and> find_aodv_neigh ip s' = Some n
            \<and> ett_count_rcv n = 0 \<and> ett_recv_delays n = replicate 10 DEFAULT_ETT_METRIC
            \<and> (\<forall>j. j \<noteq> ip \<longrightarrow> find_aodv_neigh j s' = find_aodv_neigh j s))"
  using assms(2)
proof (cases rule: create_aodv_neigh_E)
  case refused
  with assms(1) routes_only_fields [of s s'] show ?thesis by (simp add: neighs_ok_def)
next
  case (created t u)
  let ?n = "new_neigh ip t"
  have t: "neigh_list t = neigh_list s" using created(2) routes_only_fields by blast
  have fresh: "ip \<notin> ng_ip ` set (neigh_list s)" using created(5) assms(1) by (simp add: neigh_duplicate_iff)
  have u: "neigh_list u = insert_neigh ?n (neigh_list s)" using created(6) t
    by (metis (no_types) node.select_convs(15) node.surjective node.update_convs(15,6) t)
  have uok: "neighs_ok u"
    using assms(1) fresh unfolding neighs_ok_def u by (auto simp: neighs.sorted_ins distinct_insert_neigh)
  have f: "find_aodv_neigh j u = (if ip = j then Some ?n else find_aodv_neigh j s)" for j
    using fresh find_insert_neigh [of ?n "neigh_list s" j] uok assms(1) by (simp add: find_aodv_neigh_iff u)
  have "find_aodv_neigh ip s = None" using fresh assms(1) by (auto simp: find_aodv_neigh_iff find_None_iff)
  then show ?thesis
    using timers_only_neighs [OF created(7)] uok f created(1)
    by (simp add: new_neigh_def delay_vector_init_def)
qed

text \<open>
  C22: a neighbour is created only if the list has none of its address, with the initial
  measurements; the list stays in order, without duplicates; every other neighbour is still
  found as it was. A refused creation leaves the list alone.
\<close>

theorem create_aodv_neigh_spec:
  assumes "neighs_ok s" and "create_aodv_neigh ip s = Some (r, s')"
  shows "neighs_ok s'
     \<and> (case r of
          None \<Rightarrow> neigh_list s' = neigh_list s
        | Some n \<Rightarrow> ng_ip n = ip \<and> find_aodv_neigh ip s = None \<and> find_aodv_neigh ip s' = Some n
            \<and> ett_count_rcv n = 0 \<and> ett_recv_delays n = replicate 10 DEFAULT_ETT_METRIC
            \<and> (\<forall>j. j \<noteq> ip \<longrightarrow> find_aodv_neigh j s' = find_aodv_neigh j s))"
  by (rule create_aodv_neigh_outcome [OF assms])

text \<open>A node with its own route, the source entry of its own address, and one neighbour.\<close>

definition sample_self :: aodv_route where
  "sample_self =
     (sample_route 1 1 1)\<lparr>rt_num_hops := 0, rt_next_hop := 1, rt_self_route := True, rt_state := ACTIVE, rt_dst_id := 6\<rparr>"

definition sample_mesh :: node where
  "sample_mesh =
     sample_node\<lparr>allocs := 9, local_route := 1, route_table := [sample_self],
       src_list := [\<lparr>sl_ip = 1, sl_rt_table = 1, sl_num_routes = 1\<rparr>], neigh_list := [sample_neigh 5]\<rparr>"

lemma sample_mesh_simps [simp]:
  "cfg sample_mesh = sample_cfg" "now sample_mesh = now sample_node" "allocs sample_mesh = 9" "local_route sample_mesh = 1"
  "route_table sample_mesh = [sample_self]" "src_list sample_mesh = [\<lparr>sl_ip = 1, sl_rt_table = 1, sl_num_routes = 1\<rparr>]"
  "neigh_list sample_mesh = [sample_neigh 5]" "neigh_list_2h sample_mesh = []" "brk_list sample_mesh = []"
  "gw_list sample_mesh = []" "timer_queue sample_mesh = []" "task_queue sample_mesh = []"
  "sends sample_mesh = 0" "dtn_register sample_mesh = False" "out sample_mesh = []" "rands sample_mesh = 0"
  "nlreqs sample_mesh = 0" "mesh_load sample_mesh = 0" "mesh_load_seq sample_mesh = 0" "flow_type_table sample_mesh = []"
  "ipq sample_mesh = ipq sample_node" "hello_count sample_mesh = 0" "count_send sample_mesh = 0"
  by (simp_all add: sample_mesh_def sample_node_def)

lemma sample_cfg_simps [simp]:
  "g_mesh_ip sample_cfg = 1" "g_null_ip sample_cfg = 0" "g_aodv_gateway sample_cfg = 0" "g_routing_metric sample_cfg = HOPS"
  "g_fixed_rate sample_cfg = 0" "g_broadcast_ip sample_cfg = 0xFF" "alloc_ok sample_cfg n" "nl_sock_rc sample_cfg n = 0"
  "nl_send_rc sample_cfg n = 0" "sock_wspace sample_cfg n = 100000" "sock_rc sample_cfg n = 0" "rnd_bytes sample_cfg n = 5"
  "aodv_blacklist_ip sample_cfg = []" "dtn_blacklist_ip sample_cfg = []" "dev_index sample_cfg = 3"
  by (simp_all add: sample_cfg_def)

lemma sample_neigh_wf [simp]: "neigh_wf (sample_neigh ip)" "ng_ip (sample_neigh ip) = ip"
  by (simp_all add: neigh_wf_def sample_neigh_def)

lemma sample_mesh_neighs [simp]: "neighs_ok sample_mesh"
  by (simp add: neighs_ok_def)

lemma sample_create: "\<exists>r s'. create_aodv_neigh 7 sample_mesh = Some (Some r, s')"
  by (simp add: create_aodv_neigh_def kmalloc_def neigh_duplicate_def route_aodv_neigh_def local_dst_id_def
      sample_self_def sample_route_def create_aodv_route_eq find_src_list_entry_def set_route_def rpdb_route_def
      emit_def Let_def)

lemma create_aodv_neigh_spec_witness:
  "\<exists>r s'. create_aodv_neigh 7 sample_mesh = Some (Some r, s') \<and> neighs_ok s' \<and> find_aodv_neigh 7 s' = Some r
     \<and> find_aodv_neigh 5 s' = Some (sample_neigh 5)"
proof -
  obtain r s' where c: "create_aodv_neigh 7 sample_mesh = Some (Some r, s')" using sample_create by blast
  from create_aodv_neigh_spec [OF sample_mesh_neighs c] c show ?thesis
    by (simp add: find_aodv_neigh_def)
qed

section \<open>The timers of the neighbours\<close>

lemma timer_queue_timelife:
  "timer_queue (update_neigh_timelife ip s)
     = timer_queue (arm_simple (HELLO_INTERVAL * (1 + ALLOWED_HELLO_LOSS) + 100) (TASK_NEIGHBOR, ip)
                      (cancel_simple (TASK_NEIGHBOR, ip) s))"
  by (simp add: update_neigh_timelife_def Let_def set_neigh_def)

lemma timelife_count:
  "simple_count k (update_neigh_timelife ip s)
     = simple_count k (simple.rearm (HELLO_INTERVAL * (1 + ALLOWED_HELLO_LOSS) + 100) (TASK_NEIGHBOR, ip) s)"
  by (cases k) (simp only: simple.rearm_def simple_count.simps timer_queue_timelife)

text \<open>
  C23: however many messages the neighbours send and in whatever order, each neighbour keeps
  at most one timer for its expiry, and the timers of any other kind are not touched.
\<close>

theorem neighbour_timer_unique:
  assumes "simple_count (TASK_NEIGHBOR, ip) s \<le> 1"
  shows "simple_count (TASK_NEIGHBOR, ip) (fold update_neigh_timelife ips s) \<le> 1
     \<and> (\<forall>type j. type \<noteq> TASK_NEIGHBOR \<longrightarrow>
          simple_count (type, j) (fold update_neigh_timelife ips s) = simple_count (type, j) s)"
  using assms
proof (induction ips arbitrary: s)
  case (Cons i ips)
  have "simple_count (TASK_NEIGHBOR, ip) (update_neigh_timelife i s) \<le> 1"
    unfolding timelife_count by (rule simple.rearm_at_most_one [OF Cons.prems])
  moreover have "simple_count (type, j) (update_neigh_timelife i s) = simple_count (type, j) s"
    if "type \<noteq> TASK_NEIGHBOR" for type j
    unfolding timelife_count by (rule simple.rearm_other) (use that in simp)
  ultimately show ?case using Cons.IH [of "update_neigh_timelife i s"] by simp
qed simp

lemma neighbour_timer_unique_witness:
  "simple_count (TASK_NEIGHBOR, 5) (fold update_neigh_timelife [5, 7, 5] sample_mesh) \<le> 1"
  using neighbour_timer_unique [of 5 sample_mesh "[5, 7, 5]"] by simp

section \<open>Two hops\<close>

lemma create_aodv_neigh_2h_ok [inv_intros]:
  assumes "neighs_2h_ok s"
  shows "neighs_2h_ok (snd (create_aodv_neigh_2h ip s))"
  using assms
  by (auto simp: create_aodv_neigh_2h_def kmalloc_def Let_def neighs_2h_ok_def neigh_2h_duplicate_iff [OF assms]
      neighs_2h.sorted_ins distinct_insert_neigh_2h)

lemma set_neigh_2h_ok [inv_intros]:
  "neighs_2h_ok s \<Longrightarrow> (\<And>n. n2_ip (f n) = n2_ip n) \<Longrightarrow> neighs_2h_ok (set_neigh_2h ip f s)"
  by (simp add: neighs_2h_ok_def set_neigh_2h_def map_update_first)

lemma delete_aodv_neigh_2h_ok [inv_intros]: "neighs_2h_ok s \<Longrightarrow> neighs_2h_ok (snd (delete_aodv_neigh_2h ip s))"
  by (auto simp: delete_aodv_neigh_2h_def neighs_2h_ok_def sorted_remove_first distinct_remove_first)

end
