(* ===== verification/Gw_List.thy ===== *)
theory Gw_List
  imports Freshness Src_List
begin

text \<open>
  The gateways a node knows (\<open>gw_list.c\<close>), as the spanning-tree requests advertise them, and
  the default gateway it picks. A clean-up that meets an expired entry goes on through the
  \<open>next\<close> pointer of the entry it has just freed; that is a fault, the result \<open>None\<close>.
\<close>

section \<open>Operations\<close>

definition init_gw_list :: "node \<Rightarrow> node" where
  "init_gw_list s = s\<lparr>gw_list := [], default_gw := null_ip s\<rparr>"

definition delete_gw_list :: "node \<Rightarrow> node" where
  "delete_gw_list s = s\<lparr>gw_list := []\<rparr>"

text \<open>\<open>update_gw\<close> on an entry that is there: the old sequence number or a worse path is refused.\<close>

definition gw_refuses :: "u32 \<Rightarrow> u32 \<Rightarrow> gw_entry \<Rightarrow> bool" where
  "gw_refuses dst_id path_metric e \<longleftrightarrow>
     gw_dst_id e > dst_id \<or> (gw_dst_id e = dst_id \<and> gw_metric e < path_metric)"

definition gw_write :: "u32 \<Rightarrow> u8 \<Rightarrow> u32 \<Rightarrow> u64 \<Rightarrow> gw_entry \<Rightarrow> gw_entry" where
  "gw_write dst_id num_hops path_metric lifetime e =
     e\<lparr>gw_metric := path_metric, gw_num_hops := num_hops, gw_lifetime := lifetime, gw_dst_id := dst_id\<rparr>"

definition update_gw :: "u32 \<Rightarrow> u32 \<Rightarrow> u8 \<Rightarrow> u32 \<Rightarrow> node \<Rightarrow> int \<times> node" where
  "update_gw ip dst_id num_hops path_metric s =
     (let lifetime = currtime s + ACTIVE_GWROUTE_TIMEOUT in
      case List.find (\<lambda>e. gw_ip e = ip) (gw_list s) of
        Some e \<Rightarrow>
          if gw_refuses dst_id path_metric e then (0, s)
          else (1, s\<lparr>gw_list := update_first (\<lambda>e. gw_ip e = ip)
                       (gw_write dst_id num_hops path_metric lifetime) (gw_list s)\<rparr>)
      | None \<Rightarrow>
          (case kmalloc s of
             (None, s) \<Rightarrow> (1, s)
           | (Some _, s) \<Rightarrow>
               (1, s\<lparr>gw_list := \<lparr>gw_ip = ip, gw_lifetime = lifetime, gw_metric = path_metric,
                                 gw_num_hops = num_hops, gw_dst_id = dst_id\<rparr> # gw_list s\<rparr>)))"

definition delete_gw_list_entry :: "u32 \<Rightarrow> node \<Rightarrow> node" where
  "delete_gw_list_entry ip s = s\<lparr>gw_list := remove_first (\<lambda>e. gw_ip e = ip) (gw_list s)\<rparr>"

definition is_gw :: "u32 \<Rightarrow> node \<Rightarrow> bool" where
  "is_gw ip s \<longleftrightarrow> list_ex (\<lambda>e. gw_ip e = ip) (gw_list s)"

fun gw_scan :: "u64 \<Rightarrow> gw_entry list \<Rightarrow> u32 \<times> u32 \<Rightarrow> (u32 \<times> u32) option" where
  "gw_scan ct [] best = Some best"
| "gw_scan ct (e # es) (best_gw, best_metric) =
     (if time_after ct (gw_lifetime e) then None
      else gw_scan ct es
        (if gw_metric e < best_metric then (gw_ip e, gw_metric e) else (best_gw, best_metric)))"

definition update_gw_lifetimes :: "node \<Rightarrow> node option" where
  "update_gw_lifetimes s =
     map_option (\<lambda>(best_gw, best_metric). s\<lparr>default_gw := best_gw\<rparr>)
       (gw_scan (currtime s) (gw_list s) (null_ip s, DEFAULT_ETT_METRIC))"

section \<open>Freshness of an entry\<close>

definition gw_offer :: "u64 \<Rightarrow> u32 \<times> u32 \<times> u8 \<Rightarrow> gw_entry \<Rightarrow> gw_entry" where
  "gw_offer lifetime adv e =
     (case adv of (dst_id, path_metric, num_hops) \<Rightarrow>
        if gw_refuses dst_id path_metric e then e else gw_write dst_id num_hops path_metric lifetime e)"

definition gw_rank :: "gw_entry \<Rightarrow> rank" where
  "gw_rank e = Rank (gw_dst_id e) (gw_metric e)"

interpretation gw: freshness gw_rank "gw_offer lifetime" for lifetime
  by unfold_locales (auto simp: gw_offer_def gw_refuses_def gw_write_def gw_rank_def max_def)

definition gw_distinct :: "node \<Rightarrow> bool" where
  "gw_distinct s \<longleftrightarrow> distinct (map gw_ip (gw_list s))"

lemma update_gw_ips:
  "map gw_ip (gw_list (snd (update_gw ip a b c s))) = map gw_ip (gw_list s) \<or>
   (ip \<notin> gw_ip ` set (gw_list s) \<and>
    map gw_ip (gw_list (snd (update_gw ip a b c s))) = ip # map gw_ip (gw_list s))"
  by (auto simp: update_gw_def Let_def kmalloc_def gw_write_def map_update_first find_None_iff
      split: option.splits)

lemma update_gw_distinct [inv_intros]: "gw_distinct s \<Longrightarrow> gw_distinct (snd (update_gw ip a b c s))"
  using update_gw_ips [of ip a b c s] by (auto simp: gw_distinct_def)

lemma delete_gw_distinct [inv_intros]: "gw_distinct s \<Longrightarrow> gw_distinct (delete_gw_list_entry ip s)"
  by (simp add: gw_distinct_def delete_gw_list_entry_def distinct_remove_first)

lemma update_gw_find:
  assumes "List.find (\<lambda>e. gw_ip e = ip) (gw_list s) = Some e"
  shows "List.find (\<lambda>e. gw_ip e = ip) (gw_list (snd (update_gw ip n h m s)))
       = Some (gw_offer (currtime s + ACTIVE_GWROUTE_TIMEOUT) (n, m, h) e)"
    and "cfg (snd (update_gw ip n h m s)) = cfg s" "now (snd (update_gw ip n h m s)) = now s"
  using assms
  by (auto simp: update_gw_def Let_def gw_offer_def gw_write_def find_update_first)

fun advertise :: "u32 \<Rightarrow> u32 \<times> u32 \<times> u8 \<Rightarrow> node \<Rightarrow> node" where
  "advertise ip (n, m, h) s = snd (update_gw ip n h m s)"

lemma advertise_fold:
  "List.find (\<lambda>e. gw_ip e = ip) (gw_list s) = Some e \<Longrightarrow>
     List.find (\<lambda>e. gw_ip e = ip) (gw_list (fold (advertise ip) os s))
     = Some (fold (gw_offer (currtime s + ACTIVE_GWROUTE_TIMEOUT)) os e)"
proof (induction os arbitrary: s e)
  case (Cons a os)
  obtain n m h where "a = (n, m, h)" by (cases a)
  with Cons update_gw_find [OF Cons.prems, of n h m] show ?case by simp
qed simp

text \<open>
  C32: after any advertisements of a known gateway, its entry holds the best of them and of what
  it held before: the highest sequence number, and of that the lowest metric.
\<close>

theorem update_gw_freshest:
  assumes "List.find (\<lambda>e. gw_ip e = ip) (gw_list s) = Some e"
  shows "\<exists>e'. List.find (\<lambda>e. gw_ip e = ip) (gw_list (fold (advertise ip) os s)) = Some e'
     \<and> gw_rank e' = Max (insert (gw_rank e) ((\<lambda>(n, m, h). Rank n m) ` set os))"
  using advertise_fold [OF assms, of os] gw.offers_rank by blast

definition sample_gw :: "u32 \<Rightarrow> u64 \<Rightarrow> u32 \<Rightarrow> gw_entry" where
  "sample_gw ip t m = \<lparr>gw_ip = ip, gw_lifetime = t, gw_metric = m, gw_num_hops = 1, gw_dst_id = 4\<rparr>"

lemma update_gw_freshest_witness:
  "\<exists>e'. List.find (\<lambda>e. gw_ip e = 9) (gw_list (fold (advertise 9) [(4, 2, 1), (3, 1, 1)]
          (sample_node\<lparr>gw_list := [sample_gw 9 0 3]\<rparr>))) = Some e'
     \<and> gw_rank e' = Rank 4 2"
  using update_gw_freshest [of 9 "sample_node\<lparr>gw_list := [sample_gw 9 0 3]\<rparr>" "sample_gw 9 0 3" "[(4, 2, 1), (3, 1, 1)]"]
  by (fastforce simp: sample_gw_def gw_rank_def max_def)

section \<open>The default gateway\<close>

lemma gw_scan_None: "gw_scan ct es b = None \<longleftrightarrow> (\<exists>e\<in>set es. time_after ct (gw_lifetime e))"
  by (induction ct es b rule: gw_scan.induct) auto

lemma gw_scan_Some:
  "gw_scan ct es (g, m) = Some (g', m') \<Longrightarrow>
     m' \<le> m \<and> (\<forall>e\<in>set es. m' \<le> gw_metric e) \<and>
     ((g', m') = (g, m) \<or> (m' < m \<and> (\<exists>e\<in>set es. gw_ip e = g' \<and> gw_metric e = m')))"
proof (induction es arbitrary: g m)
  case (Cons e es)
  then show ?case by (fastforce split: if_splits)
qed simp

text \<open>
  The periodic clean-up faults exactly when a gateway has expired (it reads the entry it
  freed); otherwise the default gateway is a known gateway of the least metric, provided
  that is below 1000000, and the null address when there is none.
\<close>

lemma update_gw_lifetimes_spec:
  "case update_gw_lifetimes s of
     None \<Rightarrow> \<exists>e\<in>set (gw_list s). time_after (currtime s) (gw_lifetime e)
   | Some s' \<Rightarrow>
       (\<forall>e\<in>set (gw_list s). \<not> time_after (currtime s) (gw_lifetime e)) \<and>
       s' = s\<lparr>default_gw := default_gw s'\<rparr> \<and>
       (if \<exists>e\<in>set (gw_list s). gw_metric e < DEFAULT_ETT_METRIC
        then \<exists>e\<in>set (gw_list s). gw_ip e = default_gw s' \<and> (\<forall>f\<in>set (gw_list s). gw_metric e \<le> gw_metric f)
        else default_gw s' = null_ip s)"
proof (cases "gw_scan (currtime s) (gw_list s) (null_ip s, DEFAULT_ETT_METRIC)")
  case None
  with gw_scan_None [of "currtime s" "gw_list s"] show ?thesis
    by (simp add: update_gw_lifetimes_def)
next
  case (Some b)
  obtain g m where b: "b = (g, m)" by (cases b)
  have "\<forall>e\<in>set (gw_list s). \<not> time_after (currtime s) (gw_lifetime e)"
    using Some gw_scan_None [of "currtime s" "gw_list s" "(null_ip s, DEFAULT_ETT_METRIC)"] by auto
  moreover have "\<forall>e\<in>set (gw_list s). m \<le> gw_metric e"
    "(g, m) = (null_ip s, DEFAULT_ETT_METRIC) \<or>
     m < DEFAULT_ETT_METRIC \<and> (\<exists>e\<in>set (gw_list s). gw_ip e = g \<and> gw_metric e = m)"
    using gw_scan_Some [OF Some [unfolded b]] by auto
  ultimately show ?thesis
    using Some b by (auto simp: update_gw_lifetimes_def not_less) (metis leD)?
qed

lemma update_gw_lifetimes_spec_witness:
  "\<exists>s'. update_gw_lifetimes (sample_node\<lparr>gw_list := [sample_gw 9 200000 3, sample_gw 8 200000 2]\<rparr>) = Some s'
     \<and> default_gw s' = 8"
  using update_gw_lifetimes_spec [of "sample_node\<lparr>gw_list := [sample_gw 9 200000 3, sample_gw 8 200000 2]\<rparr>"]
  by (auto simp: sample_gw_def sample_simps time_after_def time_before_window update_gw_lifetimes_def)

end
