(* ===== verification/Node_Step.thy ===== *)
theory Node_Step
  imports Neighbours Gw_List
begin

text \<open>
  What holds of the whole node between two tasks, and the relation that every operation of
  the module stays in: the configuration, the clock and the task queue do not change, the
  addresses handed out grow, what was handed to the kernel stays handed out, and the
  invariant is kept; the packet queue neither comes nor goes, and no task puts a packet into it.
  The relation is reflexive and transitive; the locale \<open>evolution\<close> carries
  such a relation through loops and through computations that can fault.
\<close>

section \<open>Outcomes that may be faults\<close>

definition opt_ok :: "('r \<Rightarrow> bool) \<Rightarrow> 'r option \<Rightarrow> bool" where
  "opt_ok Q r \<longleftrightarrow> (\<forall>x. r = Some x \<longrightarrow> Q x)"

lemma opt_ok_simps [simp]: "opt_ok Q None" "opt_ok Q (Some x) = Q x"
  by (simp_all add: opt_ok_def)

lemma opt_ok_bind: "opt_ok P m \<Longrightarrow> (\<And>x. P x \<Longrightarrow> opt_ok Q (f x)) \<Longrightarrow> opt_ok Q (Option.bind m f)"
  by (cases m) simp_all

lemma opt_ok_map: "opt_ok (\<lambda>x. Q (f x)) m \<Longrightarrow> opt_ok Q (map_option f m)"
  by (cases m) simp_all

lemma opt_ok_map_iff: "opt_ok Q (map_option f m) = opt_ok (\<lambda>x. Q (f x)) m"
  by (cases m) simp_all

lemma opt_ok_mono: "opt_ok P m \<Longrightarrow> (\<And>x. P x \<Longrightarrow> Q x) \<Longrightarrow> opt_ok Q m"
  by (cases m) simp_all

lemma opt_okD: "opt_ok Q m \<Longrightarrow> m = Some x \<Longrightarrow> Q x"
  by simp

text \<open>A loop over the elements of a list whose body may fault, or leave the loop.\<close>

fun each :: "('a \<Rightarrow> 's \<Rightarrow> 's option) \<Rightarrow> 'a list \<Rightarrow> 's \<Rightarrow> 's option" where
  "each f [] s = Some s"
| "each f (x # xs) s = Option.bind (f x s) (each f xs)"

fun each_until :: "('a \<Rightarrow> 's \<Rightarrow> (bool \<times> 's) option) \<Rightarrow> 'a list \<Rightarrow> 's \<Rightarrow> (bool \<times> 's) option" where
  "each_until f [] s = Some (False, s)"
| "each_until f (x # xs) s =
     (case f x s of
        None \<Rightarrow> None
      | Some (stop, s') \<Rightarrow> if stop then Some (True, s') else each_until f xs s')"

locale evolution =
  fixes le :: "'s \<Rightarrow> 's \<Rightarrow> bool"
  assumes refl: "le s s"
    and trans: "le s t \<Longrightarrow> le t u \<Longrightarrow> le s u"
begin

lemma fold: "le a s \<Longrightarrow> (\<And>x t. x \<in> set xs \<Longrightarrow> le a t \<Longrightarrow> le a (f x t)) \<Longrightarrow> le a (fold f xs s)"
  by (induction xs arbitrary: s) auto

lemma each:
  "le a s \<Longrightarrow> (\<And>x t. x \<in> set xs \<Longrightarrow> le a t \<Longrightarrow> opt_ok (le a) (f x t)) \<Longrightarrow> opt_ok (le a) (each f xs s)"
proof (induction xs arbitrary: s)
  case (Cons x xs)
  show ?case
    unfolding each.simps by (rule opt_ok_bind [where P = "le a"]) (use Cons in auto)
qed simp

lemma each_until:
  "le a s \<Longrightarrow> (\<And>x t. x \<in> set xs \<Longrightarrow> le a t \<Longrightarrow> opt_ok (\<lambda>(b, u). le a u) (f x t)) \<Longrightarrow>
     opt_ok (\<lambda>(b, u). le a u) (each_until f xs s)"
proof (induction xs arbitrary: s)
  case (Cons x xs)
  have IH: "le a t \<Longrightarrow> opt_ok (\<lambda>(b, u). le a u) (each_until f xs t)" for t
    by (rule Cons.IH) (use Cons.prems in auto)
  from Cons.prems(2) [of x s] Cons.prems(1) have "opt_ok (\<lambda>(b, u). le a u) (f x s)" by simp
  then show ?case using IH by (cases "f x s") auto
qed simp

end

section \<open>The invariant of a node\<close>

definition node_ok :: "node \<Rightarrow> bool" where
  "node_ok s \<longleftrightarrow>
     routes_ok s \<and> links_ok s \<and> neighs_ok s \<and> neighs_2h_ok s \<and> src_tables_ok (null_ip s) (src_list s) \<and>
     gw_distinct s \<and> ipq_ok s"

text \<open>The local route, which every sequence number is drawn from, is in the table, without a class.\<close>

definition local_ok :: "node \<Rightarrow> bool" where
  "local_ok s \<longleftrightarrow> (\<exists>r\<in>set (route_table s). rt_addr r = local_route s \<and> rt_self_route r \<and> rt_tos r = 0)"

definition evolves :: "node \<Rightarrow> node \<Rightarrow> bool" where
  "evolves s s' \<longleftrightarrow>
     cfg s' = cfg s \<and> now s' = now s \<and> local_route s' = local_route s \<and> allocs s \<le> allocs s' \<and>
     prefix (out s) (out s') \<and> task_queue s' = task_queue s \<and> (node_ok s \<longrightarrow> node_ok s') \<and>
     (node_ok s \<and> local_ok s \<longrightarrow> local_ok s') \<and>
     (ipq s' = None \<longleftrightarrow> ipq s = None) \<and> set (waiting s') \<subseteq> set (waiting s)"

lemma evolves_refl [simp]: "evolves s s"
  by (simp add: evolves_def)

lemma evolves_trans: "evolves s t \<Longrightarrow> evolves t u \<Longrightarrow> evolves s u"
  unfolding evolves_def by (auto intro: prefix_order.trans)

interpretation evo: evolution evolves
  by unfold_locales (auto intro: evolves_trans)

named_theorems evolve "operations that stay in the relation evolves"

lemma evolvesI:
  assumes "evolves a s" and "cfg s' = cfg s" "now s' = now s" "local_route s' = local_route s"
    "allocs s \<le> allocs s'" "prefix (out s) (out s')"
    "task_queue s' = task_queue s"
    and "routes_ok s \<Longrightarrow> routes_ok s'" "links_ok s \<Longrightarrow> links_ok s'" "neighs_ok s \<Longrightarrow> neighs_ok s'"
    "neighs_2h_ok s \<Longrightarrow> neighs_2h_ok s'"
    "src_tables_ok (null_ip s) (src_list s) \<Longrightarrow> src_tables_ok (null_ip s) (src_list s')"
    "gw_distinct s \<Longrightarrow> gw_distinct s'" "ipq_ok s \<Longrightarrow> ipq_ok s'" "local_ok s \<Longrightarrow> local_ok s'"
    "ipq s' = None \<longleftrightarrow> ipq s = None" "set (waiting s') \<subseteq> set (waiting s)"
  shows "evolves a s'"
  by (rule evolves_trans [OF assms(1)]) (use assms(2-) in \<open>simp add: evolves_def node_ok_def\<close>)

lemmas table_defs = routes_ok_def links_ok_def neighs_ok_def neighs_2h_ok_def gw_distinct_def ipq_ok_def local_ok_def waiting_def

section \<open>Every primitive operation\<close>

lemma evolve_kmalloc [evolve]: "evolves a s \<Longrightarrow> evolves a (snd (kmalloc s))"
  by (erule evolvesI) (auto simp: table_defs intro: le_SucI)

lemma evolve_random [evolve]: "evolves a s \<Longrightarrow> evolves a (snd (get_random_bytes s))"
  by (erule evolvesI) (auto simp: table_defs get_random_bytes_def)

lemma evolve_emit [evolve]: "evolves a s \<Longrightarrow> evolves a (emit e s)"
  by (erule evolvesI) (auto simp: table_defs emit_def)

lemma evolve_sends [evolve]: "evolves a s \<Longrightarrow> evolves a (s\<lparr>sends := n\<rparr>)"
  by (erule evolvesI) (auto simp: table_defs)

lemma evolve_simple [evolve]: "evolves a s \<Longrightarrow> evolves a (snd (insert_timer_simple b c d s))"
  by (erule evolvesI) (auto simp: table_defs intro: le_SucI)

lemma insert_timer_directional_allocs [simp]: "allocs (snd (insert_timer_directional b c d e f g s)) = Suc (allocs s)"
  by (simp add: insert_timer_directional_eq queue_timer_def)

lemma evolve_directional [evolve]: "evolves a s \<Longrightarrow> evolves a (snd (insert_timer_directional b c d e f g s))"
  by (erule evolvesI) (auto simp: table_defs intro: le_SucI)

lemma delete_timer_allocs [simp]: "allocs (delete_timer b c d e s) = allocs s"
  by (simp add: delete_timer_def)

lemma evolve_delete_timer [evolve]: "evolves a s \<Longrightarrow> evolves a (delete_timer b c d e s)"
  by (erule evolvesI) (auto simp: table_defs)

lemma evolve_update_timer [evolve]: "evolves a s \<Longrightarrow> evolves a (update_timer_queue s)"
  by (erule evolvesI) (auto simp: table_defs)

lemma evolve_rpdb_route [evolve]: "evolves a s \<Longrightarrow> evolves a (snd (rpdb_route b c d e f g h i s))"
  by (erule evolvesI) (auto simp: table_defs rpdb_route_def emit_def Let_def)

lemma evolve_rpdb_rule [evolve]: "evolves a s \<Longrightarrow> evolves a (snd (rpdb_rule b c d e s))"
  by (erule evolvesI) (auto simp: table_defs rpdb_rule_def emit_def Let_def)

lemma local_ok_set_route:
  assumes "local_ok s" and "\<And>r. rt_addr (f r) = rt_addr r" 
    and "\<And>r. rt_self_route r \<Longrightarrow> rt_self_route (f r) \<and> rt_tos (f r) = rt_tos r"
  shows "local_ok (set_route b f s)"
proof -
  from assms(1) obtain r where r: "r \<in> set (route_table s)" "rt_addr r = local_route s" "rt_self_route r" "rt_tos r = 0"
    by (auto simp: local_ok_def)
  have "\<exists>q\<in>set (update_first P f xs). q = r \<or> q = f r" if "r \<in> set xs" for P xs
    using that by (induction xs) auto
  from this [OF r(1)] obtain q where "q \<in> set (route_table (set_route b f s))" "q = r \<or> q = f r"
    by (auto simp: set_route_def)
  with r(2-4) assms(2,3) show ?thesis unfolding local_ok_def by (intro bexI [of _ q]) (auto simp: set_route_def)
qed

lemma evolve_set_route [evolve]:
  "evolves a s \<Longrightarrow> (\<And>r. rt_dst_ip (f r) = rt_dst_ip r) \<Longrightarrow> (\<And>r. rt_addr (f r) = rt_addr r) \<Longrightarrow>
     (\<And>r. rt_self_route r \<Longrightarrow> rt_self_route (f r) \<and> rt_tos (f r) = rt_tos r) \<Longrightarrow> evolves a (set_route b f s)"
  by (erule evolvesI) (simp_all add: set_route_ok local_ok_set_route, simp_all add: set_route_def table_defs)

lemma evolve_expire_route [evolve]: "evolves a s \<Longrightarrow> evolves a (expire_aodv_route b s)"
  unfolding expire_aodv_route_def by (rule evolve_set_route) simp_all

lemma remove_first_others: "x \<in> set xs \<Longrightarrow> \<not> P x \<Longrightarrow> x \<in> set (remove_first P xs)"
  by (induction xs) auto

lemma evolve_remove_route:
  assumes "evolves a s" and "node_ok a \<Longrightarrow> local_ok a \<Longrightarrow> b \<noteq> local_route a"
  shows "evolves a (remove_aodv_route b s)"
proof -
  let ?t = "remove_aodv_route b s"
  have "node_ok s \<longrightarrow> node_ok ?t"
    using remove_aodv_route_ok [of s b] by (auto simp: node_ok_def) (simp_all add: remove_aodv_route_def table_defs)
  moreover have "local_ok ?t" if "local_ok s" "b \<noteq> local_route s"
    using that remove_first_others [of _ "route_table s" "\<lambda>r. rt_addr r = b"] by (fastforce simp: local_ok_def remove_aodv_route_def)
  ultimately show ?thesis using assms by (auto simp: evolves_def remove_aodv_route_def waiting_def)
qed

lemma evolve_create_route [evolve]: "evolves a s \<Longrightarrow> evolves a (snd (create_aodv_route b c d e s))"
  by (erule evolvesI) (simp_all add: create_aodv_route_ok, auto simp: create_aodv_route_eq table_defs intro: le_SucI)

lemma evolve_my_load [evolve]: "evolves a s \<Longrightarrow> evolves a (update_my_load s)"
  by (erule evolvesI) (auto simp: table_defs update_my_load_def Let_def)

lemma evolve_set_link [evolve]:
  "evolves a s \<Longrightarrow> (\<And>l. bl_dst_ip (f l) = bl_dst_ip l) \<Longrightarrow> (\<And>l. bl_addr (f l) = bl_addr l) \<Longrightarrow>
     evolves a (set_link b f s)"
  by (erule evolvesI) (simp_all add: set_link_ok, simp_all add: set_link_def table_defs)

lemma evolve_remove_link [evolve]: "evolves a s \<Longrightarrow> evolves a (remove_brk_link b s)"
  by (erule evolvesI) (simp_all add: remove_brk_link_ok, simp_all add: remove_brk_link_def table_defs)

lemma evolve_create_link [evolve]: "evolves a s \<Longrightarrow> evolves a (snd (create_brk_link b c d e s))"
  by (erule evolvesI)
    (simp_all add: create_brk_link_ok,
     auto simp: create_brk_link_def insert_brk_link_def kmalloc_def Let_def table_defs intro: le_SucI)

lemma evolve_flush_links [evolve]: "evolves a s \<Longrightarrow> opt_ok (evolves a) (flush_brk_list s)"
  unfolding opt_ok_def
proof (intro allI impI)
  fix s' assume f: "flush_brk_list s = Some s'" and e: "evolves a s"
  then obtain ls where "s' = s\<lparr>brk_list := ls\<rparr>" by (auto simp: flush_brk_list_def)
  with e f show "evolves a s'"
    by (auto intro!: evolvesI [OF e] dest: flush_brk_list_ok simp: table_defs)
qed

lemma evolve_set_neigh [evolve]:
  "evolves a s \<Longrightarrow> (\<And>n. ng_ip (f n) = ng_ip n) \<Longrightarrow>
     (\<And>n. find_aodv_neigh ip s = Some n \<Longrightarrow> neigh_wf n \<Longrightarrow> neigh_wf (f n)) \<Longrightarrow> evolves a (set_neigh ip f s)"
  by (erule evolvesI) (simp_all add: set_neigh_ok, simp_all add: set_neigh_def table_defs)

lemma evolve_set_neigh_2h [evolve]:
  "evolves a s \<Longrightarrow> (\<And>n. n2_ip (f n) = n2_ip n) \<Longrightarrow> evolves a (set_neigh_2h ip f s)"
  by (erule evolvesI) (simp_all add: set_neigh_2h_ok, simp_all add: set_neigh_2h_def table_defs)

lemma evolve_timelife [evolve]: "evolves a s \<Longrightarrow> evolves a (update_neigh_timelife ip s)"
  unfolding update_neigh_timelife_def Let_def
  by (intro evolve_set_neigh evolve_update_timer evolve_simple evolve_delete_timer) (simp_all add: neigh_wf_def)

lemma evolve_create_2h [evolve]: "evolves a s \<Longrightarrow> evolves a (snd (create_aodv_neigh_2h ip s))"
  by (erule evolvesI)
    (simp_all add: create_aodv_neigh_2h_ok,
     auto simp: create_aodv_neigh_2h_def kmalloc_def Let_def table_defs intro: le_SucI)

lemma evolve_delete_2h [evolve]: "evolves a s \<Longrightarrow> evolves a (snd (delete_aodv_neigh_2h ip s))"
  by (erule evolvesI) (simp_all add: delete_aodv_neigh_2h_ok, auto simp: delete_aodv_neigh_2h_def table_defs)

lemma evolve_set_num_routes [evolve]: "evolves a s \<Longrightarrow> evolves a (set_num_routes ip f s)"
  by (erule evolvesI) (simp_all add: set_num_routes_ok, simp_all add: set_num_routes_def table_defs)

lemma evolve_delete_src [evolve]: "evolves a s \<Longrightarrow> evolves a (delete_src_list_entry ip s)"
  by (erule evolvesI)
    (simp_all add: delete_src_list_entry_ok,
     auto simp: delete_src_list_entry_def rpdb_rule_def emit_def Let_def table_defs split: option.splits)

lemma evolve_insert_src [evolve]: "evolves a s \<Longrightarrow> evolves a (snd (insert_src_list_entry ip s))"
  by (erule evolvesI)
    (simp_all add: insert_src_list_entry_ok,
     auto simp: insert_src_list_entry_def rpdb_rule_def kmalloc_def emit_def Let_def table_defs intro: le_SucI
       split: option.splits prod.splits)

lemma evolve_ipq_drain [evolve]:
  assumes "evolves a s"
  shows "opt_ok (evolves a) (ipq_drain cmp fx s)"
  unfolding opt_ok_def
proof (intro allI impI)
  fix s' assume d: "ipq_drain cmp fx s = Some s'"
  then obtain q P es where "ipq s = Some q" "s' = s\<lparr>ipq := Some (drained P q), out := out s @ es\<rparr>"
    by (auto elim: ipq_drain_D)
  with ipq_drain_ok [OF d] show "evolves a s'"
    by (intro evolvesI [OF assms]) (simp_all, auto simp: table_defs)
qed

lemma evolve_send_ip [evolve]: "evolves a s \<Longrightarrow> opt_ok (evolves a) (ipq_send_ip b c d s)"
  unfolding ipq_send_ip_def by (rule evolve_ipq_drain)

lemma evolve_drop_ip [evolve]: "evolves a s \<Longrightarrow> opt_ok (evolves a) (ipq_drop_ip b c d s)"
  unfolding ipq_drop_ip_def by (rule evolve_ipq_drain)

lemma evolve_update_gw [evolve]: "evolves a s \<Longrightarrow> evolves a (snd (update_gw b c d e s))"
  by (erule evolvesI)
    (simp_all add: update_gw_distinct,
     auto simp: update_gw_def kmalloc_def Let_def table_defs intro: le_SucI split: option.splits)

lemma evolve_delete_gw [evolve]: "evolves a s \<Longrightarrow> evolves a (delete_gw_list_entry b s)"
  by (erule evolvesI) (simp_all add: delete_gw_distinct, simp_all add: delete_gw_list_entry_def table_defs)

lemma evolve_gw_lifetimes [evolve]: "evolves a s \<Longrightarrow> opt_ok (evolves a) (update_gw_lifetimes s)"
  unfolding opt_ok_def
  by (auto simp: update_gw_lifetimes_def table_defs intro!: evolvesI [of a s] split: option.splits prod.splits)

text \<open>A computation that returns a value beside the node, and one that does so through a pair.\<close>

abbreviation evolves_to :: "node \<Rightarrow> ('r \<times> node) option \<Rightarrow> bool" where
  "evolves_to a r \<equiv> opt_ok (\<lambda>p. evolves a (snd p)) r"

lemma evolves_toI: "evolves a (snd p) \<Longrightarrow> evolves_to a (Some p)"
  by (cases p) simp

lemma evolve_bind:
  "evolves_to a m \<Longrightarrow> (\<And>x s. evolves a s \<Longrightarrow> evolves_to a (f (x, s))) \<Longrightarrow> evolves_to a (Option.bind m f)"
  "evolves_to a m \<Longrightarrow> (\<And>x s. evolves a s \<Longrightarrow> opt_ok (evolves a) (g (x, s))) \<Longrightarrow> opt_ok (evolves a) (Option.bind m g)"
  "opt_ok (evolves a) n \<Longrightarrow> (\<And>s. evolves a s \<Longrightarrow> evolves_to a (h s)) \<Longrightarrow> evolves_to a (Option.bind n h)"
  "opt_ok (evolves a) n \<Longrightarrow> (\<And>s. evolves a s \<Longrightarrow> opt_ok (evolves a) (i s)) \<Longrightarrow> opt_ok (evolves a) (Option.bind n i)"
  by ((cases m; auto), (cases m; auto), (cases n; auto), (cases n; auto))

lemma evolve_map:
  "opt_ok (evolves a) m \<Longrightarrow> (\<And>s. evolves a s \<Longrightarrow> evolves a (f s)) \<Longrightarrow> opt_ok (evolves a) (map_option f m)"
  "opt_ok (evolves a) m \<Longrightarrow> (\<And>s. evolves a s \<Longrightarrow> evolves a (snd (g s))) \<Longrightarrow> evolves_to a (map_option g m)"
  "evolves_to a n \<Longrightarrow> (\<And>x s. evolves a s \<Longrightarrow> evolves a (snd (h (x, s)))) \<Longrightarrow> evolves_to a (map_option h n)"
  "evolves_to a n \<Longrightarrow> (\<And>x s. evolves a s \<Longrightarrow> evolves a (i (x, s))) \<Longrightarrow> opt_ok (evolves a) (map_option i n)"
  by ((cases m; auto simp: split_beta), (cases m; auto simp: split_beta), (cases n; auto simp: split_beta),
      (cases n; auto simp: split_beta))

text \<open>The control flow: what a conditional or a case distinction ends in, it stays in.\<close>

lemma evolve_flow:
  "(b \<Longrightarrow> evolves a s) \<Longrightarrow> (\<not> b \<Longrightarrow> evolves a t) \<Longrightarrow> evolves a (if b then s else t)"
  "(b \<Longrightarrow> opt_ok Q m) \<Longrightarrow> (\<not> b \<Longrightarrow> opt_ok Q m') \<Longrightarrow> opt_ok Q (if b then m else m')"
  "(b \<Longrightarrow> evolves a (snd p)) \<Longrightarrow> (\<not> b \<Longrightarrow> evolves a (snd q)) \<Longrightarrow> evolves a (snd (if b then p else q))"
  "(x = None \<Longrightarrow> evolves a s) \<Longrightarrow> (\<And>r. x = Some r \<Longrightarrow> evolves a (f r)) \<Longrightarrow> evolves a (case_option s f x)"
  "(x = None \<Longrightarrow> opt_ok Q m) \<Longrightarrow> (\<And>r. x = Some r \<Longrightarrow> opt_ok Q (g r)) \<Longrightarrow> opt_ok Q (case_option m g x)"
  "(x = None \<Longrightarrow> evolves a (snd p)) \<Longrightarrow> (\<And>r. x = Some r \<Longrightarrow> evolves a (snd (h r))) \<Longrightarrow>
     evolves a (snd (case_option p h x))"
  by (simp_all split: option.split)

lemma evolve_some:
  "evolves a (snd p) \<Longrightarrow> evolves_to a (Some p)" "evolves a s \<Longrightarrow> opt_ok (evolves a) (Some s)" "opt_ok Q None"
  "evolves a s \<Longrightarrow> evolves a (snd (x, s))"
  by (auto simp: split_beta)

lemmas evolve_vcg = evolve_flow evolve_some evolve_bind evolve_map

lemma evolve_read:
  "(\<And>x. m = Some x \<Longrightarrow> opt_ok Q (f x)) \<Longrightarrow> opt_ok Q (Option.bind m f)"
  by (cases m) auto

lemma evolve_allocs [evolve]: "evolves a s \<Longrightarrow> evolves a (s\<lparr>allocs := Suc (allocs s)\<rparr>)"
  by (erule evolvesI) (auto simp: table_defs intro: le_SucI)

lemma evolve_insert_neigh:
  assumes "evolves a s" and "ns = neigh_list s" and "neighs_ok s \<Longrightarrow> \<not> neigh_duplicate (ng_ip n) ns" and "neigh_wf n"
  shows "evolves a (s\<lparr>neigh_list := insert_neigh n ns\<rparr>)"
  unfolding assms(2)
proof (rule evolvesI [OF assms(1)])
  assume ok: "neighs_ok s"
  from assms(3) [OF ok, unfolded assms(2)] have "ng_ip n \<notin> ng_ip ` set (neigh_list s)" using neigh_duplicate_iff [OF ok] by simp
  with ok assms(4) show "neighs_ok (s\<lparr>neigh_list := insert_neigh n (neigh_list s)\<rparr>)"
    by (auto simp: neighs_ok_def neighs.sorted_ins distinct_insert_neigh)
qed (simp_all add: table_defs)

lemma neigh_route_write_fields [simp]:
  "rt_dst_ip (neigh_route_write r) = rt_dst_ip r" "rt_addr (neigh_route_write r) = rt_addr r"
  "rt_self_route (neigh_route_write r)" "rt_tos (neigh_route_write r) = rt_tos r"
  by (simp_all add: neigh_route_write_def)

lemma evolve_route_neigh [evolve]: "evolves a s \<Longrightarrow> evolves_to a (route_aodv_neigh ip s)"
  by (auto simp: route_aodv_neigh_def split_beta Let_def split: option.split intro!: evolve evolve_read)

lemma evolve_create_neigh [evolve]:
  assumes "evolves a s"
  shows "evolves_to a (create_aodv_neigh ip s)"
proof -
  have r: "opt_ok (\<lambda>(x, t). evolves a t \<and> neigh_list t = neigh_list u) (route_aodv_neigh ip u)" if "evolves a u" for u
    using evolve_route_neigh [OF that, of ip] routes_only_fields [OF conjunct1 [OF route_aodv_neigh_D]]
    unfolding opt_ok_def by fastforce
  show ?thesis
    unfolding create_aodv_neigh_def kmalloc_def
    using assms
    by (auto simp: split_beta Let_def probe_jitter_def split: option.split if_splits
        intro!: evolve opt_ok_bind [OF r] evolve_insert_neigh)
qed

end
