(* ===== verification/Socket.thy ===== *)
theory Socket
  imports Node_Step
begin

text \<open>
  Sending, \<open>socket.c\<close>. A message leaves when the socket has room for it and the kernel takes
  it; what left is an effect of the node. \<open>sends\<close> counts the calls of \<open>sock_sendmsg\<close>, and the
  configuration answers each (its result, and the free space before it).
\<close>

text \<open>
  \<open>init_sock\<close> makes the socket reuse its address and allocate atomically, and binds it to address,
  port and device. Of what the kernel answers to \<open>SO_BINDTODEVICE\<close> the result of the comparison, not of the
  call, is looked at, so that no failure is ever seen. \<open>close_sock\<close> is what the clean-up starts with.
\<close>

definition init_sock :: "int \<Rightarrow> u32 \<Rightarrow> string \<Rightarrow> node \<Rightarrow> int \<times> node" where
  "init_sock rc ip dev_name s =
     (let s = emit (SockInit ip AODVPORT dev_name) s;
          error = (if rc < 0 then 1 else 0 :: int)
      in (if error < 0 then 0 else 0, s))"

definition close_sock :: "node \<Rightarrow> node" where
  "close_sock s = emit SockRelease s"

definition sendmsg :: "effect \<Rightarrow> node \<Rightarrow> int \<times> node" where
  "sendmsg e s =
     (let len = sock_rc (cfg s) (sends s);
          s = s\<lparr>sends := Suc (sends s)\<rparr>
      in (len, if len < 0 then s else emit e s))"

definition wspace :: "node \<Rightarrow> nat" where
  "wspace s = sock_wspace (cfg s) (sends s)"

definition local_broadcast :: "u8 \<Rightarrow> msg \<Rightarrow> node \<Rightarrow> int \<times> node" where
  "local_broadcast ttl data s =
     (if ttl < 1 then (0, s)
      else if wspace s \<ge> msg_size data then sendmsg (Bcast ttl data) s
      else (0, s))"

text \<open>
  The DTN daemon gets 24 bytes from an array of four words: the two words behind it go along.
  \<open>send2dtn\<close>, \<open>query_location\<close>, \<open>send_message\<close> and \<open>send_ett_probe\<close> return 0 whatever happens,
  so the models return the node only.
\<close>

definition send2dtn :: "u32 \<times> u32 \<times> u32 \<times> u32 \<Rightarrow> u16 \<Rightarrow> node \<Rightarrow> node" where
  "send2dtn para port s =
     (case para of (src_ip, dst_ip, last_avail_ip, type) \<Rightarrow>
        if wspace s < 24 then s
        else snd (sendmsg (ToDtn [src_ip, dst_ip, last_avail_ip, type, ucast (junk (cfg s)),
                                  ucast (drop_bit 32 (junk (cfg s)))] port) s))"

definition query_location :: "u16 \<Rightarrow> node \<Rightarrow> node" where
  "query_location port s =
     (if wspace s < 16 then s else snd (sendmsg (ToLocation ''Query Location'' port) s))"

definition send_message :: "u32 \<Rightarrow> u8 \<Rightarrow> msg \<Rightarrow> node \<Rightarrow> node" where
  "send_message dst_ip ttl data s =
     (if ttl = 0 then s
      else
        (case find_aodv_neigh dst_ip s of
           None \<Rightarrow> s
         | Some n \<Rightarrow> if wspace s < msg_size data then s else snd (sendmsg (Ucast dst_ip ttl data) s)))"

definition send_ett_probe :: "u32 \<Rightarrow> msg \<Rightarrow> msg \<Rightarrow> node \<Rightarrow> node" where
  "send_ett_probe dst_ip data1 data2 s =
     (case find_aodv_neigh dst_ip s of
        None \<Rightarrow> s
      | Some n \<Rightarrow>
          if wspace s < msg_size data1 \<or> wspace s < msg_size data2 then s
          else
            (case sendmsg (Ucast dst_ip 1 data1) s of
               (len, s) \<Rightarrow> if len < 0 then s else snd (sendmsg (Ucast dst_ip 1 data2) s)))"

section \<open>Frames\<close>

lemma evolve_sendmsg [evolve]: "evolves a s \<Longrightarrow> evolves a (snd (sendmsg e s))"
  by (auto simp: sendmsg_def Let_def intro!: evolve evolve_sends)

lemma evolve_broadcast [evolve]: "evolves a s \<Longrightarrow> evolves a (snd (local_broadcast ttl m s))"
  by (simp add: local_broadcast_def evolve)

lemma evolve_send2dtn [evolve]: "evolves a s \<Longrightarrow> evolves a (send2dtn p port s)"
  by (auto simp: send2dtn_def evolve split: prod.split)

lemma evolve_query [evolve]: "evolves a s \<Longrightarrow> evolves a (query_location port s)"
  by (simp add: query_location_def evolve)

lemma evolve_send_message [evolve]: "evolves a s \<Longrightarrow> evolves a (send_message ip ttl m s)"
  by (auto simp: send_message_def evolve split: option.split)

lemma evolve_send_probe [evolve]: "evolves a s \<Longrightarrow> evolves a (send_ett_probe ip m m' s)"
  by (auto simp: send_ett_probe_def split_beta evolve split: option.split)

text \<open>Sending changes the effects and the count of calls, nothing else.\<close>

definition sends_only :: "node \<Rightarrow> node \<Rightarrow> bool" where
  "sends_only s s' \<longleftrightarrow> s' = s\<lparr>sends := sends s', out := out s'\<rparr>"

lemma sends_only_refl [simp]: "sends_only s s"
  by (simp add: sends_only_def)

lemma sends_only_trans: "sends_only s t \<Longrightarrow> sends_only t u \<Longrightarrow> sends_only s u"
  unfolding sends_only_def by (cases s; cases t; cases u) simp

lemma sends_only_sendmsg [simp]: "sends_only s (snd (sendmsg e s))"
  by (simp add: sends_only_def sendmsg_def emit_def Let_def)

lemma sends_only_ops [simp]:
  "sends_only s (snd (local_broadcast ttl m s))" "sends_only s (send2dtn p port s)"
  "sends_only s (query_location port s)" "sends_only s (send_message ip ttl m s)"
  by (auto simp: local_broadcast_def send2dtn_def query_location_def send_message_def
      split: prod.split option.split)

lemma sends_only_probe [simp]: "sends_only s (send_ett_probe ip m m' s)"
  by (auto simp: send_ett_probe_def split_beta split: option.split
      intro: sends_only_trans [OF sends_only_sendmsg sends_only_sendmsg])

lemma sends_only_fields:
  "sends_only s s' \<Longrightarrow> cfg s' = cfg s \<and> now s' = now s \<and> allocs s' = allocs s \<and> nlreqs s' = nlreqs s \<and> rands s' = rands s \<and> dtn_register s' = dtn_register s \<and> longitude s' = longitude s \<and> latitude s' = latitude s \<and> route_table s' = route_table s \<and> local_route s' = local_route s \<and> mesh_load s' = mesh_load s \<and> mesh_load_seq s' = mesh_load_seq s \<and> src_list s' = src_list s \<and> neigh_list s' = neigh_list s \<and> neigh_list_2h s' = neigh_list_2h s \<and> gw_list s' = gw_list s \<and> default_gw s' = default_gw s \<and> brk_list s' = brk_list s \<and> timer_queue s' = timer_queue s \<and> aodv_timer s' = aodv_timer s \<and> task_queue s' = task_queue s \<and> flow_type_table s' = flow_type_table s \<and> ipq s' = ipq s \<and> hello_count s' = hello_count s \<and> count_send s' = count_send s"
  unfolding sends_only_def by (cases s; cases s') simp

lemma sendmsg_frame [simp]:
  "cfg (snd (sendmsg e s)) = cfg s" "now (snd (sendmsg e s)) = now s" "allocs (snd (sendmsg e s)) =
  allocs s" "nlreqs (snd (sendmsg e s)) = nlreqs s" "rands (snd (sendmsg e s)) = rands s"
  "dtn_register (snd (sendmsg e s)) = dtn_register s" "longitude (snd (sendmsg e s)) = longitude s"
  "latitude (snd (sendmsg e s)) = latitude s" "route_table (snd (sendmsg e s)) = route_table s"
  "local_route (snd (sendmsg e s)) = local_route s" "mesh_load (snd (sendmsg e s)) = mesh_load s"
  "mesh_load_seq (snd (sendmsg e s)) = mesh_load_seq s" "src_list (snd (sendmsg e s)) = src_list s"
  "neigh_list (snd (sendmsg e s)) = neigh_list s" "neigh_list_2h (snd (sendmsg e s)) = neigh_list_2h
  s" "gw_list (snd (sendmsg e s)) = gw_list s" "default_gw (snd (sendmsg e s)) = default_gw s"
  "brk_list (snd (sendmsg e s)) = brk_list s" "timer_queue (snd (sendmsg e s)) = timer_queue s"
  "aodv_timer (snd (sendmsg e s)) = aodv_timer s" "task_queue (snd (sendmsg e s)) = task_queue s"
  "flow_type_table (snd (sendmsg e s)) = flow_type_table s" "ipq (snd (sendmsg e s)) = ipq s"
  "hello_count (snd (sendmsg e s)) = hello_count s" "count_send (snd (sendmsg e s)) = count_send s"
  using sends_only_fields [OF sends_only_sendmsg [of s e]] by simp_all

lemma local_broadcast_frame [simp]:
  "cfg (snd (local_broadcast ttl m s)) = cfg s" "now (snd (local_broadcast ttl m s)) = now s" "allocs
  (snd (local_broadcast ttl m s)) = allocs s" "nlreqs (snd (local_broadcast ttl m s)) = nlreqs s"
  "rands (snd (local_broadcast ttl m s)) = rands s" "dtn_register (snd (local_broadcast ttl m s)) =
  dtn_register s" "longitude (snd (local_broadcast ttl m s)) = longitude s" "latitude (snd
  (local_broadcast ttl m s)) = latitude s" "route_table (snd (local_broadcast ttl m s)) = route_table
  s" "local_route (snd (local_broadcast ttl m s)) = local_route s" "mesh_load (snd (local_broadcast
  ttl m s)) = mesh_load s" "mesh_load_seq (snd (local_broadcast ttl m s)) = mesh_load_seq s" "src_list
  (snd (local_broadcast ttl m s)) = src_list s" "neigh_list (snd (local_broadcast ttl m s)) =
  neigh_list s" "neigh_list_2h (snd (local_broadcast ttl m s)) = neigh_list_2h s" "gw_list (snd
  (local_broadcast ttl m s)) = gw_list s" "default_gw (snd (local_broadcast ttl m s)) = default_gw s"
  "brk_list (snd (local_broadcast ttl m s)) = brk_list s" "timer_queue (snd (local_broadcast ttl m s))
  = timer_queue s" "aodv_timer (snd (local_broadcast ttl m s)) = aodv_timer s" "task_queue (snd
  (local_broadcast ttl m s)) = task_queue s" "flow_type_table (snd (local_broadcast ttl m s)) =
  flow_type_table s" "ipq (snd (local_broadcast ttl m s)) = ipq s" "hello_count (snd (local_broadcast
  ttl m s)) = hello_count s" "count_send (snd (local_broadcast ttl m s)) = count_send s"
  using sends_only_fields [OF sends_only_ops(1) [of s ttl m]] by simp_all

lemma send2dtn_frame [simp]:
  "cfg (send2dtn p port s) = cfg s" "now (send2dtn p port s) = now s" "allocs (send2dtn p port s) =
  allocs s" "nlreqs (send2dtn p port s) = nlreqs s" "rands (send2dtn p port s) = rands s"
  "dtn_register (send2dtn p port s) = dtn_register s" "longitude (send2dtn p port s) = longitude s"
  "latitude (send2dtn p port s) = latitude s" "route_table (send2dtn p port s) = route_table s"
  "local_route (send2dtn p port s) = local_route s" "mesh_load (send2dtn p port s) = mesh_load s"
  "mesh_load_seq (send2dtn p port s) = mesh_load_seq s" "src_list (send2dtn p port s) = src_list s"
  "neigh_list (send2dtn p port s) = neigh_list s" "neigh_list_2h (send2dtn p port s) = neigh_list_2h
  s" "gw_list (send2dtn p port s) = gw_list s" "default_gw (send2dtn p port s) = default_gw s"
  "brk_list (send2dtn p port s) = brk_list s" "timer_queue (send2dtn p port s) = timer_queue s"
  "aodv_timer (send2dtn p port s) = aodv_timer s" "task_queue (send2dtn p port s) = task_queue s"
  "flow_type_table (send2dtn p port s) = flow_type_table s" "ipq (send2dtn p port s) = ipq s"
  "hello_count (send2dtn p port s) = hello_count s" "count_send (send2dtn p port s) = count_send s"
  using sends_only_fields [OF sends_only_ops(2) [of s p port]] by simp_all

lemma query_location_frame [simp]:
  "cfg (query_location port s) = cfg s" "now (query_location port s) = now s" "allocs (query_location
  port s) = allocs s" "nlreqs (query_location port s) = nlreqs s" "rands (query_location port s) =
  rands s" "dtn_register (query_location port s) = dtn_register s" "longitude (query_location port s)
  = longitude s" "latitude (query_location port s) = latitude s" "route_table (query_location port s)
  = route_table s" "local_route (query_location port s) = local_route s" "mesh_load (query_location
  port s) = mesh_load s" "mesh_load_seq (query_location port s) = mesh_load_seq s" "src_list
  (query_location port s) = src_list s" "neigh_list (query_location port s) = neigh_list s"
  "neigh_list_2h (query_location port s) = neigh_list_2h s" "gw_list (query_location port s) = gw_list
  s" "default_gw (query_location port s) = default_gw s" "brk_list (query_location port s) = brk_list
  s" "timer_queue (query_location port s) = timer_queue s" "aodv_timer (query_location port s) =
  aodv_timer s" "task_queue (query_location port s) = task_queue s" "flow_type_table (query_location
  port s) = flow_type_table s" "ipq (query_location port s) = ipq s" "hello_count (query_location port
  s) = hello_count s" "count_send (query_location port s) = count_send s"
  using sends_only_fields [OF sends_only_ops(3) [of s port]] by simp_all

lemma send_message_frame [simp]:
  "cfg (send_message ip ttl m s) = cfg s" "now (send_message ip ttl m s) = now s" "allocs
  (send_message ip ttl m s) = allocs s" "nlreqs (send_message ip ttl m s) = nlreqs s" "rands
  (send_message ip ttl m s) = rands s" "dtn_register (send_message ip ttl m s) = dtn_register s"
  "longitude (send_message ip ttl m s) = longitude s" "latitude (send_message ip ttl m s) = latitude
  s" "route_table (send_message ip ttl m s) = route_table s" "local_route (send_message ip ttl m s) =
  local_route s" "mesh_load (send_message ip ttl m s) = mesh_load s" "mesh_load_seq (send_message ip
  ttl m s) = mesh_load_seq s" "src_list (send_message ip ttl m s) = src_list s" "neigh_list
  (send_message ip ttl m s) = neigh_list s" "neigh_list_2h (send_message ip ttl m s) = neigh_list_2h
  s" "gw_list (send_message ip ttl m s) = gw_list s" "default_gw (send_message ip ttl m s) =
  default_gw s" "brk_list (send_message ip ttl m s) = brk_list s" "timer_queue (send_message ip ttl m
  s) = timer_queue s" "aodv_timer (send_message ip ttl m s) = aodv_timer s" "task_queue (send_message
  ip ttl m s) = task_queue s" "flow_type_table (send_message ip ttl m s) = flow_type_table s" "ipq
  (send_message ip ttl m s) = ipq s" "hello_count (send_message ip ttl m s) = hello_count s"
  "count_send (send_message ip ttl m s) = count_send s"
  using sends_only_fields [OF sends_only_ops(4) [of s ip ttl m]] by simp_all

lemma send_ett_probe_frame [simp]:
  "cfg (send_ett_probe ip m m' s) = cfg s" "now (send_ett_probe ip m m' s) = now s" "allocs
  (send_ett_probe ip m m' s) = allocs s" "nlreqs (send_ett_probe ip m m' s) = nlreqs s" "rands
  (send_ett_probe ip m m' s) = rands s" "dtn_register (send_ett_probe ip m m' s) = dtn_register s"
  "longitude (send_ett_probe ip m m' s) = longitude s" "latitude (send_ett_probe ip m m' s) = latitude
  s" "route_table (send_ett_probe ip m m' s) = route_table s" "local_route (send_ett_probe ip m m' s)
  = local_route s" "mesh_load (send_ett_probe ip m m' s) = mesh_load s" "mesh_load_seq (send_ett_probe
  ip m m' s) = mesh_load_seq s" "src_list (send_ett_probe ip m m' s) = src_list s" "neigh_list
  (send_ett_probe ip m m' s) = neigh_list s" "neigh_list_2h (send_ett_probe ip m m' s) = neigh_list_2h
  s" "gw_list (send_ett_probe ip m m' s) = gw_list s" "default_gw (send_ett_probe ip m m' s) =
  default_gw s" "brk_list (send_ett_probe ip m m' s) = brk_list s" "timer_queue (send_ett_probe ip m
  m' s) = timer_queue s" "aodv_timer (send_ett_probe ip m m' s) = aodv_timer s" "task_queue
  (send_ett_probe ip m m' s) = task_queue s" "flow_type_table (send_ett_probe ip m m' s) =
  flow_type_table s" "ipq (send_ett_probe ip m m' s) = ipq s" "hello_count (send_ett_probe ip m m' s)
  = hello_count s" "count_send (send_ett_probe ip m m' s) = count_send s"
  using sends_only_fields [OF sends_only_probe [of s ip m m']] by simp_all

section \<open>What leaves the node\<close>

lemma out_sendmsg: "out (snd (sendmsg e s)) = out s @ (if sock_rc (cfg s) (sends s) < 0 then [] else [e])"
  by (simp add: sendmsg_def emit_def Let_def)

text \<open>
  A unicast message leaves only with a positive TTL, for an address that is a neighbour at
  that moment, when the socket has room for its size and the kernel takes it; then it leaves
  once, and nothing else of the node changes.
\<close>

lemma send_message_spec:
  "out (send_message dst_ip ttl data s) =
     out s @ (if ttl \<noteq> 0 \<and> find_aodv_neigh dst_ip s \<noteq> None \<and> msg_size data \<le> wspace s \<and> 0 \<le> sock_rc (cfg s) (sends s)
              then [Ucast dst_ip ttl data] else [])
   \<and> sends_only s (send_message dst_ip ttl data s)"
  by (auto simp: send_message_def out_sendmsg split: option.split)

lemma send_message_spec_witness:
  "out (send_message 5 10 (M_RCVP \<lparr>rc_type = RCVP_MESSAGE, rc_num_hops = 0, rc_dst_ip = 9, rc_dst_id = 9, rc_src_ip = 2,
          rc_last_avail_ip = 0\<rparr>) sample_mesh) \<noteq> []"
  using send_message_spec [of 5 10 _ sample_mesh] by (simp add: find_aodv_neigh_def wspace_def)

end
