(* ===== verification/Rerr.thy ===== *)
theory Rerr
  imports Socket
begin

text \<open>
  Route errors, \<open>rerr.c\<close>, and the deletion of a neighbour (\<open>aodv_neigh.c\<close>), which generates
  them. A route that breaks is told to its last hop, unless this node is its source, and is
  remembered as a broken link; with a DTN daemon registered, the daemon is told as well.
  \<open>gen_rerr\<close> and \<open>recv_rerr\<close> always return 0; the flush of the broken links can fault (\<open>None\<close>).
\<close>

section \<open>Operations\<close>

definition reply_to_rrer :: "u32 \<Rightarrow> u32 \<Rightarrow> node \<Rightarrow> bool" where
  "reply_to_rrer source destination s \<longleftrightarrow> source = mesh_ip s \<or> (source = null_ip s \<and> is_gateway s)"

text \<open>Remember a broken link, or give the one that is known a new lifetime.\<close>

definition record_brk_link :: "u32 \<Rightarrow> u32 \<Rightarrow> u32 \<Rightarrow> u32 \<Rightarrow> node \<Rightarrow> node option" where
  "record_brk_link src_ip dst_ip lasthop lastavail s =
     (case find_brk_link src_ip dst_ip s of
        Some l \<Rightarrow>
          flush_brk_list (set_link (bl_addr l) (\<lambda>l. l\<lparr>bl_lifetime := currtime s + BRK_LINK_TIMEOUT\<rparr>) s)
      | None \<Rightarrow> flush_brk_list (snd (create_brk_link src_ip dst_ip lasthop lastavail s)))"

text \<open>
  \<open>gen_rerr\<close> for one route that breaks: the RERR, the daemon, the broken link. \<open>True\<close> when the
  handler returns early, for want of memory.
\<close>

definition rerr_to_last_hop :: "aodv_route \<Rightarrow> node \<Rightarrow> (bool \<times> node) option" where
  "rerr_to_last_hop r s =
     (if rt_state r = INVALID then Some (False, s)
      else
        (case kmalloc s of
           (None, s) \<Rightarrow> Some (True, s)
         | (Some _, s) \<Rightarrow>
             let avail = (if dtn_register s then mesh_ip s else 0);
                 tmp_rerr = \<lparr>re_type = RERR_MESSAGE, re_num_hops = 0, re_reserved = 0, re_n = False, re_dst_count = 0,
                     re_dst_ip = rt_dst_ip r, re_dst_id = htonl (rt_dst_id r), re_last_avail_ip = avail,
                     re_src_ip = rt_src_ip r\<rparr>;
                 s = (if dtn_register s
                      then send2dtn (rt_src_ip r, rt_dst_ip r, avail, ucast RERR_MESSAGE) DTNPORT s else s);
                 s = send_message (rt_last_hop r) NET_DIAMETER (M_RERR tmp_rerr) s
             in map_option (\<lambda>s. (False, s)) (record_brk_link (rt_src_ip r) (rt_dst_ip r) (rt_last_hop r) avail s)))"

definition rerr_at_source :: "aodv_route \<Rightarrow> node \<Rightarrow> (bool \<times> node) option" where
  "rerr_at_source r s =
     (let last_avail = (if dtn_register s then mesh_ip s else 0);
          s = (if dtn_register s
               then send2dtn (rt_src_ip r, rt_dst_ip r, last_avail, ucast RERR_MESSAGE) DTNPORT s else s)
      in map_option (\<lambda>s. (False, s)) (record_brk_link (rt_src_ip r) (rt_dst_ip r) 0 last_avail s))"

definition rerr_route :: "u32 \<Rightarrow> aodv_route \<Rightarrow> nat \<times> node \<Rightarrow> (bool \<times> nat \<times> node) option" where
  "rerr_route brk_dst_ip r st =
     (case st of (expired_routes, s) \<Rightarrow>
        if rt_next_hop r = brk_dst_ip \<and> \<not> rt_self_route r \<and> \<not> rt_neigh_route r then
          map_option
            (\<lambda>(stop, s).
               if stop then (True, expired_routes, s)
               else if rt_state r \<noteq> INVALID then (False, expired_routes + 1, expire_aodv_route (rt_addr r) s)
               else (False, expired_routes, s))
            (if \<not> reply_to_rrer (rt_src_ip r) (rt_dst_ip r) s then rerr_to_last_hop r s else rerr_at_source r s)
        else Some (False, expired_routes, s))"

definition gen_rerr :: "u32 \<Rightarrow> node \<Rightarrow> node option" where
  "gen_rerr brk_dst_ip s =
     map_option
       (\<lambda>(stop, expired_routes, s).
          if \<not> stop \<and> metric s = WCIM \<and> expired_routes \<noteq> 0 then update_my_load s else s)
       (each_until (rerr_route brk_dst_ip) (route_table s) (0, s))"

text \<open>A received RERR for the route \<open>r\<close> that runs through its sender.\<close>

definition relay_rerr :: "bool \<Rightarrow> rerr \<Rightarrow> aodv_route \<Rightarrow> node \<Rightarrow> node option" where
  "relay_rerr first_dtn tmp_rerr r s =
     (if \<not> reply_to_rrer (rt_src_ip r) (rt_dst_ip r) s then
        if rt_state r \<noteq> INVALID then
          let m = tmp_rerr\<lparr>re_type := RERR_MESSAGE, re_dst_count := 0, re_reserved := 0, re_n := False,
                    re_num_hops := re_num_hops tmp_rerr + 1, re_dst_ip := rt_dst_ip r,
                    re_dst_id := htonl (rt_dst_id r), re_src_ip := rt_src_ip r,
                    re_last_avail_ip := (if first_dtn then mesh_ip s else re_last_avail_ip tmp_rerr)\<rparr>
          in record_brk_link (rt_src_ip r) (rt_dst_ip r) (rt_last_hop r) (re_last_avail_ip m)
               (send_message (rt_last_hop r) NET_DIAMETER (M_RERR m) s)
        else Some s
      else record_brk_link (rt_src_ip r) (rt_dst_ip r) 0 (if first_dtn then mesh_ip s else 0) s)"

definition break_route :: "aodv_route \<Rightarrow> node \<Rightarrow> node" where
  "break_route r s =
     (if rt_state r \<noteq> INVALID then
        let s = expire_aodv_route (rt_addr r) s in if metric s = WCIM then update_my_load s else s
      else s)"

definition recv_rerr :: "u32 \<Rightarrow> rerr \<Rightarrow> node \<Rightarrow> node option" where
  "recv_rerr packet_src tmp_rerr s =
     (let first_dtn = dtn_register s \<and> re_last_avail_ip tmp_rerr = 0;
          avail = (if first_dtn then mesh_ip s else re_last_avail_ip tmp_rerr);
          s = (if dtn_register s
               then send2dtn (re_src_ip tmp_rerr, re_dst_ip tmp_rerr, avail, ucast (re_type tmp_rerr)) DTNPORT s
               else s)
      in case find_aodv_route_by_id (re_dst_ip tmp_rerr) (ntohl (re_dst_id tmp_rerr)) s of
           None \<Rightarrow> Some s
         | Some r \<Rightarrow>
             if rt_next_hop r = packet_src then map_option (break_route r) (relay_rerr first_dtn tmp_rerr r s)
             else Some s)"

text \<open>\<open>ENODATA\<close> is 61.\<close>

definition delete_aodv_neigh :: "u32 \<Rightarrow> node \<Rightarrow> (int \<times> node) option" where
  "delete_aodv_neigh ip s =
     (if list_ex (\<lambda>n. ng_ip n = ip) (neigh_list s) then
        let s = s\<lparr>neigh_list := remove_first (\<lambda>n. ng_ip n = ip) (neigh_list s)\<rparr>;
            s = (if metric s \<noteq> HOPS
                 then update_timer_queue (delete_timer ip ip NO_TOS TASK_ETT_CLEANUP
                        (delete_timer ip ip NO_TOS TASK_SEND_ETT s))
                 else s)
        in map_option (\<lambda>s. (0, s)) (gen_rerr ip s)
      else Some (-61, s))"

section \<open>The handlers keep the invariant\<close>

interpretation counted: evolution "\<lambda>(p :: nat \<times> node) q. evolves (snd p) (snd q)"
  by unfold_locales (auto intro: evolves_trans)

lemma evolve_record [evolve]: "evolves a s \<Longrightarrow> opt_ok (evolves a) (record_brk_link b c d e s)"
  by (auto simp: record_brk_link_def split: option.split intro!: evolve)

lemma evolve_last_hop [evolve]: "evolves a s \<Longrightarrow> evolves_to a (rerr_to_last_hop r s)"
  by (auto simp: rerr_to_last_hop_def kmalloc_def Let_def opt_ok_map_iff intro!: evolve)

lemma evolve_at_source [evolve]: "evolves a s \<Longrightarrow> evolves_to a (rerr_at_source r s)"
  by (auto simp: rerr_at_source_def Let_def opt_ok_map_iff intro!: evolve)

lemma evolve_rerr_route: "evolves a (snd p) \<Longrightarrow> opt_ok (\<lambda>(b, q). evolves a (snd q)) (rerr_route ip r p)"
proof (cases p)
  case (Pair n s)
  assume "evolves a (snd p)"
  then have "evolves a s" using Pair by simp
  then have "evolves_to a (rerr_to_last_hop r s)" "evolves_to a (rerr_at_source r s)" "evolves a s"
    by (simp_all add: evolve)
  then show ?thesis
    by (auto simp: Pair rerr_route_def opt_ok_map_iff elim!: opt_ok_mono intro: evolve_expire_route split: if_splits)
qed

lemma evolve_gen_rerr [evolve]:
  assumes "evolves a s"
  shows "opt_ok (evolves a) (gen_rerr ip s)"
proof -
  have "opt_ok (\<lambda>(b, q). evolves a (snd q)) (each_until (rerr_route ip) (route_table s) (0, s))"
    using counted.each_until [of "(0, a)" "(0, s)" "route_table s" "rerr_route ip"] assms evolve_rerr_route by simp
  then show ?thesis
    by (auto simp: gen_rerr_def opt_ok_map_iff elim!: opt_ok_mono intro: evolve_my_load)
qed

lemma evolve_relay [evolve]: "evolves a s \<Longrightarrow> opt_ok (evolves a) (relay_rerr f m r s)"
  by (simp add: relay_rerr_def Let_def evolve)

lemma evolve_break [evolve]: "evolves a s \<Longrightarrow> evolves a (break_route r s)"
  by (simp add: break_route_def Let_def evolve)

lemma evolve_recv_rerr [evolve]: "evolves a s \<Longrightarrow> opt_ok (evolves a) (recv_rerr src m s)"
  unfolding recv_rerr_def Let_def by (intro evolve evolve_vcg) assumption+

lemma evolve_remove_neigh: "evolves a s \<Longrightarrow> evolves a (s\<lparr>neigh_list := remove_first P (neigh_list s)\<rparr>)"
  by (erule evolvesI) (auto simp: table_defs sorted_remove_first distinct_remove_first dest: in_remove_firstD)

lemma evolve_delete_neigh [evolve]: "evolves a s \<Longrightarrow> evolves_to a (delete_aodv_neigh ip s)"
  by (auto simp: delete_aodv_neigh_def Let_def opt_ok_map_iff intro!: evolve evolve_remove_neigh)

section \<open>What a broken next hop does\<close>

text \<open>No remembered link has outlived its time: the flush has nothing to do.\<close>

definition links_fresh :: "node \<Rightarrow> bool" where
  "links_fresh s \<longleftrightarrow> (\<forall>l\<in>set (brk_list s). \<not> time_before (bl_lifetime l) (currtime s))"

definition remembered :: "u32 \<Rightarrow> u32 \<Rightarrow> node \<Rightarrow> bool" where
  "remembered src_ip dst_ip s \<longleftrightarrow> (\<exists>l\<in>set (brk_list s). bl_src_ip l = src_ip \<and> bl_dst_ip l = dst_ip)"

lemma not_before_later: "\<not> time_before (t + BRK_LINK_TIMEOUT) t"
proof -
  have "((uint t + 60000) mod 2 ^ 64 - uint t) mod 2 ^ 32 = ((uint t + 60000) mod 2 ^ 64 mod 2 ^ 32 - uint t) mod 2 ^ 32"
    by (simp only: mod_diff_left_eq)
  also have "(uint t + 60000) mod 2 ^ 64 mod 2 ^ 32 = (uint t + 60000) mod 2 ^ 32"
    by (rule mod_mod_cancel) simp
  finally have "((uint t + 60000) mod 2 ^ 64 - uint t) mod 2 ^ 32 = 60000"
    by (simp only: mod_diff_left_eq) simp
  then show ?thesis
    unfolding time_before_def sint_neg_iff32 uint_ulong_diff by (simp add: uint_word_ariths)
qed

lemma flush_fresh: "links_fresh s \<Longrightarrow> flush_brk_list s = Some s"
  by (simp add: flush_brk_list_def links_fresh_def flush_links_none_expired)

text \<open>What recording a link leaves alone, and what it adds.\<close>

definition records :: "node \<Rightarrow> node \<Rightarrow> bool" where
  "records s s' \<longleftrightarrow>
     route_table s' = route_table s \<and> cfg s' = cfg s \<and> now s' = now s \<and> dtn_register s' = dtn_register s \<and>
     (\<forall>x y. remembered x y s \<longrightarrow> remembered x y s') \<and> (links_fresh s \<longrightarrow> links_fresh s')"

lemma records_refl [simp]: "records s s"
  by (simp add: records_def)

lemma records_trans: "records s t \<Longrightarrow> records t u \<Longrightarrow> records s u"
  by (simp add: records_def)

lemma sends_only_records: "sends_only s s' \<Longrightarrow> records s s'"
  by (drule sends_only_fields) (simp add: records_def remembered_def links_fresh_def)

lemma find_brk_link_D: "find_brk_link src_ip dst_ip s = Some l \<Longrightarrow>
    l \<in> set (brk_list s) \<and> bl_src_ip l = src_ip \<and> bl_dst_ip l = dst_ip"
  unfolding find_brk_link_def by (auto dest: link_search.look_SomeD)

lemma record_brk_link_fresh:
  assumes "links_fresh s" and "\<forall>n. alloc_ok (cfg s) n"
  shows "\<exists>s'. record_brk_link src_ip dst_ip lasthop lastavail s = Some s' \<and> records s s' \<and> remembered src_ip dst_ip s'"
proof (cases "find_brk_link src_ip dst_ip s")
  case None
  let ?s = "snd (create_brk_link src_ip dst_ip lasthop lastavail s)"
  have l: "\<exists>l. brk_list ?s = insert_link l (brk_list s) \<and> bl_src_ip l = src_ip \<and> bl_dst_ip l = dst_ip
      \<and> bl_lifetime l = currtime s + BRK_LINK_TIMEOUT"
    using assms(2) by (simp add: create_brk_link_def kmalloc_def insert_brk_link_def Let_def) (rule exI, auto)
  have "route_table ?s = route_table s \<and> cfg ?s = cfg s \<and> now ?s = now s \<and> dtn_register ?s = dtn_register s"
    by (simp add: create_brk_link_def kmalloc_def insert_brk_link_def Let_def)
  with l assms(1) have "links_fresh ?s" "records s ?s" "remembered src_ip dst_ip ?s"
    by (auto simp: links_fresh_def records_def remembered_def not_before_later)
  with None flush_fresh show ?thesis by (auto simp: record_brk_link_def)
next
  case (Some l)
  let ?f = "\<lambda>l. l\<lparr>bl_lifetime := currtime s + BRK_LINK_TIMEOUT\<rparr>"
  let ?s = "set_link (bl_addr l) ?f s"
  have sub: "x \<in> set (brk_list ?s) \<Longrightarrow> x \<in> set (brk_list s) \<or> (\<exists>y\<in>set (brk_list s). x = ?f y)" for x
    using set_update_first [of "\<lambda>k. bl_addr k = bl_addr l" ?f "brk_list s"] by (auto simp: set_link_def)
  have keys: "map (\<lambda>l. (bl_src_ip l, bl_dst_ip l)) (brk_list ?s) = map (\<lambda>l. (bl_src_ip l, bl_dst_ip l)) (brk_list s)"
    by (simp add: set_link_def map_update_first)
  have rem: "remembered x y u \<longleftrightarrow> (x, y) \<in> set (map (\<lambda>l. (bl_src_ip l, bl_dst_ip l)) (brk_list u))" for x y u
    by (auto simp: remembered_def image_iff)
  have "links_fresh ?s"
    using assms(1) sub not_before_later by (fastforce simp: links_fresh_def set_link_def)
  moreover from this have "records s ?s" unfolding records_def rem keys by (simp add: set_link_def)
  moreover have "remembered src_ip dst_ip ?s"
    using find_brk_link_D [OF Some] unfolding rem keys by force
  ultimately show ?thesis using Some flush_fresh by (auto simp: record_brk_link_def)
qed

definition uses_hop :: "u32 \<Rightarrow> aodv_route \<Rightarrow> bool" where
  "uses_hop ip r \<longleftrightarrow> rt_next_hop r = ip \<and> \<not> rt_self_route r \<and> \<not> rt_neigh_route r"

definition broken :: "u32 \<Rightarrow> u64 \<Rightarrow> aodv_route \<Rightarrow> aodv_route" where
  "broken ip c r =
     (if uses_hop ip r \<and> rt_state r \<noteq> INVALID then r\<lparr>rt_lifetime := c + DELETE_PERIOD, rt_state := INVALID\<rparr> else r)"

lemma broken_addr [simp]: "rt_addr (broken ip c r) = rt_addr r"
  by (simp add: broken_def)

lemma broken_state: "uses_hop ip (broken ip c r) \<Longrightarrow> rt_state (broken ip c r) = INVALID"
  by (cases "rt_state r = INVALID") (simp_all add: broken_def uses_hop_def split: if_splits)

lemma rerr_told:
  assumes "links_fresh s" and "\<forall>n. alloc_ok (cfg s) n"
  shows "\<exists>s'. (if \<not> reply_to_rrer (rt_src_ip r) (rt_dst_ip r) s then rerr_to_last_hop r s else rerr_at_source r s)
        = Some (False, s') \<and> records s s'
      \<and> (rt_state r \<noteq> INVALID \<or> reply_to_rrer (rt_src_ip r) (rt_dst_ip r) s \<longrightarrow>
           remembered (rt_src_ip r) (rt_dst_ip r) s')"
proof -
  have rec: "\<exists>s'. map_option (\<lambda>s. (False, s)) (record_brk_link a b c d u) = Some (False, s') \<and> records s s' \<and> remembered a b s'"
    if "records s u" for a b c d u
  proof -
    have "links_fresh u" "\<forall>n. alloc_ok (cfg u) n" using that assms by (simp_all add: records_def)
    from record_brk_link_fresh [OF this, of a b c d] records_trans [OF that] show ?thesis by auto
  qed
  have d: "records u (if b then send2dtn p port u else u)" for u b p port
    by (simp add: sends_only_records)
  have m: "records u (send_message ip ttl x u)" for u ip ttl x
    by (simp add: sends_only_records)
  have k: "records s (s\<lparr>allocs := n\<rparr>)" for n by (simp add: records_def remembered_def links_fresh_def)
  show ?thesis
  proof (cases "reply_to_rrer (rt_src_ip r) (rt_dst_ip r) s")
    case True
    then show ?thesis
      using rec [OF d] unfolding rerr_at_source_def Let_def by simp
  next
    case not: False
    show ?thesis
    proof (cases "rt_state r = INVALID")
      case True
      with not show ?thesis by (simp add: rerr_to_last_hop_def)
    next
      case False
      with not assms(2) show ?thesis
        using rec [OF records_trans [OF k records_trans [OF d m]]]
        unfolding rerr_to_last_hop_def kmalloc_def Let_def by simp
    qed
  qed
qed

lemma rerr_route_step:
  assumes "links_fresh s" and "\<forall>n. alloc_ok (cfg s) n" and t: "route_table s = ds @ r # rs"
    and "distinct (map rt_addr (ds @ r # rs))"
  shows "\<exists>k s'. rerr_route ip r (n, s) = Some (False, k, s') \<and> route_table s' = ds @ broken ip (currtime s) r # rs
     \<and> cfg s' = cfg s \<and> now s' = now s \<and> links_fresh s' \<and> (\<forall>x y. remembered x y s \<longrightarrow> remembered x y s')
     \<and> (uses_hop ip r \<and> (rt_state r \<noteq> INVALID \<or> reply_to_rrer (rt_src_ip r) (rt_dst_ip r) s) \<longrightarrow>
          remembered (rt_src_ip r) (rt_dst_ip r) s')"
proof (cases "uses_hop ip r")
  case False
  with assms show ?thesis by (auto simp: rerr_route_def uses_hop_def broken_def)
next
  case True
  obtain u where u: "(if \<not> reply_to_rrer (rt_src_ip r) (rt_dst_ip r) s then rerr_to_last_hop r s else rerr_at_source r s)
        = Some (False, u)" and rec: "records s u"
      "rt_state r \<noteq> INVALID \<or> reply_to_rrer (rt_src_ip r) (rt_dst_ip r) s \<longrightarrow> remembered (rt_src_ip r) (rt_dst_ip r) u"
    using rerr_told [OF assms(1,2), of r] by blast
  have "\<forall>x\<in>set ds. rt_addr x \<noteq> rt_addr r" using assms(4) by (auto simp: image_iff)
  then have "rt_state r \<noteq> INVALID \<Longrightarrow>
      route_table (expire_aodv_route (rt_addr r) u) = ds @ broken ip (currtime s) r # rs"
    using rec t True
    by (simp add: records_def expire_aodv_route_def set_route_def update_first_split broken_def)
  moreover have "remembered x y (expire_aodv_route b u) = remembered x y u"
    "links_fresh (expire_aodv_route b u) = links_fresh u" for x y b
    by (simp_all add: remembered_def links_fresh_def expire_aodv_route_def set_route_def)
  moreover have "cfg (expire_aodv_route b u) = cfg u" "now (expire_aodv_route b u) = now u" for b
    by (simp_all add: expire_aodv_route_def)
  moreover have "rerr_route ip r (n, s) = Some (if rt_state r \<noteq> INVALID
      then (False, n + 1, expire_aodv_route (rt_addr r) u) else (False, n, u))"
    using True u by (simp add: rerr_route_def uses_hop_def)
  ultimately show ?thesis
    using rec assms(1) t True by (cases "rt_state r = INVALID") (auto simp: records_def broken_def)
qed

lemma rerr_loop:
  assumes "links_fresh s" and "\<forall>n. alloc_ok (cfg s) n" and "route_table s = ds @ rs"
    and "distinct (map rt_addr (ds @ rs))"
  shows "\<exists>k s'. each_until (rerr_route ip) rs (n, s) = Some (False, k, s')
     \<and> route_table s' = ds @ map (broken ip (currtime s)) rs \<and> cfg s' = cfg s \<and> now s' = now s
     \<and> (\<forall>x y. remembered x y s \<longrightarrow> remembered x y s')
     \<and> (\<forall>r\<in>set rs. uses_hop ip r \<and> (rt_state r \<noteq> INVALID \<or> reply_to_rrer (rt_src_ip r) (rt_dst_ip r) s) \<longrightarrow>
          remembered (rt_src_ip r) (rt_dst_ip r) s')"
  using assms
proof (induction rs arbitrary: s ds n)
  case (Cons r rs)
  obtain k s1 where s1: "rerr_route ip r (n, s) = Some (False, k, s1)"
    "route_table s1 = (ds @ [broken ip (currtime s) r]) @ rs" "cfg s1 = cfg s" "now s1 = now s" "links_fresh s1"
    "\<forall>x y. remembered x y s \<longrightarrow> remembered x y s1"
    "uses_hop ip r \<and> (rt_state r \<noteq> INVALID \<or> reply_to_rrer (rt_src_ip r) (rt_dst_ip r) s) \<longrightarrow>
       remembered (rt_src_ip r) (rt_dst_ip r) s1"
    using rerr_route_step [OF Cons.prems, of ip n] by auto
  have "distinct (map rt_addr ((ds @ [broken ip (currtime s) r]) @ rs))" using Cons.prems(4) by simp
  from Cons.IH [OF s1(5) _ s1(2) this, of k] s1 Cons.prems(2) show ?case
    by (auto simp: reply_to_rrer_def)
qed simp

text \<open>
  C12: when a neighbour is lost, memory is there and no broken link has outlived its time (\<open>links_fresh\<close>;
  an outlived one makes the flush of the broken links misbehave), \<open>gen_rerr\<close> returns: every route
  through the neighbour that was in use is invalid for three more seconds, every other route is as it
  was, and each route that broke is remembered as a broken link, so that it can be recovered.
\<close>

theorem gen_rerr_breaks_routes:
  assumes "routes_ok s" and "links_fresh s" and "\<forall>n. alloc_ok (cfg s) n"
  shows "\<exists>s'. gen_rerr ip s = Some s'
     \<and> route_table s' = map (broken ip (currtime s)) (route_table s)
     \<and> (\<forall>r\<in>set (route_table s'). uses_hop ip r \<longrightarrow> rt_state r = INVALID)
     \<and> (\<forall>r\<in>set (route_table s). uses_hop ip r \<and> rt_state r \<noteq> INVALID \<longrightarrow>
          remembered (rt_src_ip r) (rt_dst_ip r) s')"
proof -
  obtain k u where u: "each_until (rerr_route ip) (route_table s) (0, s) = Some (False, k, u)"
    "route_table u = map (broken ip (currtime s)) (route_table s)"
    "\<forall>r\<in>set (route_table s). uses_hop ip r \<and> rt_state r \<noteq> INVALID \<longrightarrow> remembered (rt_src_ip r) (rt_dst_ip r) u"
    using rerr_loop [OF assms(2,3), of "[]" "route_table s" ip 0] assms(1) by (auto simp: routes_ok_def)
  have l: "remembered x y (update_my_load u) = remembered x y u" for x y
    by (simp add: remembered_def update_my_load_def Let_def)
  define w where "w = (if metric u = WCIM \<and> k \<noteq> 0 then update_my_load u else u)"
  have w1: "gen_rerr ip s = Some w"
    unfolding gen_rerr_def u(1) w_def by simp
  have w2: "route_table w = route_table u"
    unfolding w_def by simp
  have w3: "remembered x y w = remembered x y u" for x y
    unfolding w_def using l by simp
  have "\<forall>r\<in>set (route_table w). uses_hop ip r \<longrightarrow> rt_state r = INVALID"
    unfolding w2 u(2) by (simp add: broken_state)
  then show ?thesis
    by (intro exI [of _ w]) (simp add: w1 w2 w3 u(2,3))
qed

definition sample_active :: node where
  "sample_active =
     sample_mesh\<lparr>route_table := [(sample_route 2 3 9)\<lparr>rt_state := ACTIVE, rt_lifetime := 150000\<rparr>, sample_route 3 3 11]\<rparr>"

lemma sample_active_simps:
  "route_table sample_active = [(sample_route 2 3 9)\<lparr>rt_state := ACTIVE, rt_lifetime := 150000\<rparr>, sample_route 3 3 11]"
  "cfg sample_active = sample_cfg" "brk_list sample_active = []" "allocs sample_active = 9" "currtime sample_active = 100000"
  by (simp_all add: sample_active_def sample_simps sample_node_def getcurrtime_def)

lemma gen_rerr_breaks_routes_witness:
  "\<exists>s'. gen_rerr 5 sample_active = Some s' \<and> map rt_state (route_table s') = [INVALID, INVALID] \<and> remembered 3 9 s'"
proof -
  have "routes_ok sample_active" "links_fresh sample_active" "\<forall>n. alloc_ok (cfg sample_active) n"
    by (simp_all add: sample_active_simps routes_ok_def links_fresh_def sample_route_def)
  from gen_rerr_breaks_routes [OF this, of 5] obtain s' where
    "gen_rerr 5 sample_active = Some s'" "route_table s' = map (broken 5 (currtime sample_active)) (route_table sample_active)"
    "\<forall>r\<in>set (route_table sample_active). uses_hop 5 r \<and> rt_state r \<noteq> INVALID \<longrightarrow> remembered (rt_src_ip r) (rt_dst_ip r) s'"
    by blast
  then show ?thesis
    unfolding sample_active_simps by (simp add: sample_route_def broken_def uses_hop_def)
qed

end
