(* ===== verification/Recovery.thy ===== *)
theory Recovery
  imports Rerr
begin

text \<open>
  Recovery of broken paths, \<open>rcvp.c\<close>. When a lost destination is reachable again, every broken
  link to it is dropped and its last hop gets an RCVP, which travels back to the source along
  the remembered links; an RRDP tells the sources of running routes that a neighbour is back.
\<close>

section \<open>Operations\<close>

text \<open>One broken link; \<open>True\<close> when there was no memory for the packet.\<close>

definition rcvp_link :: "u32 \<Rightarrow> brk_link \<Rightarrow> node \<Rightarrow> bool \<times> node" where
  "rcvp_link dst_ip l s =
     (if bl_src_ip l \<noteq> mesh_ip s then
        (case kmalloc s of
           (None, s) \<Rightarrow> (True, s)
         | (Some _, s) \<Rightarrow>
             let tmp_rcvp = \<lparr>rc_type = RCVP_MESSAGE, rc_num_hops = 0, rc_dst_ip = dst_ip, rc_dst_id = htonl dst_ip,
                     rc_src_ip = bl_src_ip l, rc_last_avail_ip = bl_last_avail_ip l\<rparr>;
                 s = (if dtn_register s
                      then send2dtn (bl_src_ip l, dst_ip, bl_last_avail_ip l, ucast RCVP_MESSAGE) DTNPORT s else s);
                 s = send_message (bl_last_hop l) NET_DIAMETER (M_RCVP tmp_rcvp) s
             in (False, remove_brk_link (bl_addr l) s))
      else
        let s = (if dtn_register s
                 then send2dtn (bl_src_ip l, dst_ip, bl_last_avail_ip l, ucast RCVP_MESSAGE) DTNPORT s else s)
        in (False, remove_brk_link (bl_addr l) s))"

fun rcvp_links :: "u32 \<Rightarrow> brk_link list \<Rightarrow> node \<Rightarrow> int \<times> node" where
  "rcvp_links dst_ip [] s = (1, s)"
| "rcvp_links dst_ip (l # ls) s =
     (case rcvp_link dst_ip l s of (stop, s) \<Rightarrow> if stop then (0, s) else rcvp_links dst_ip ls s)"

definition links_to :: "u32 \<Rightarrow> brk_link list \<Rightarrow> brk_link list" where
  "links_to dst_ip ls = takeWhile (\<lambda>l. bl_dst_ip l = dst_ip) (dropWhile (\<lambda>l. bl_dst_ip l < dst_ip) ls)"

definition gen_rcvp :: "u32 \<Rightarrow> node \<Rightarrow> int \<times> node" where
  "gen_rcvp dst_ip s =
     (if find_first_brk_link_with_dst dst_ip s = None then (0, s)
      else rcvp_links dst_ip (links_to dst_ip (brk_list s)) s)"

definition recv_rcvp :: "rcvp \<Rightarrow> node \<Rightarrow> int \<times> node" where
  "recv_rcvp tmp_rcvp s =
     (let num_hops = rc_num_hops tmp_rcvp + 1;
          s = (if dtn_register s
               then send2dtn (rc_src_ip tmp_rcvp, rc_dst_ip tmp_rcvp, rc_last_avail_ip tmp_rcvp,
                              ucast (rc_type tmp_rcvp)) DTNPORT s
               else s)
      in case find_brk_link (rc_src_ip tmp_rcvp) (rc_dst_ip tmp_rcvp) s of
           None \<Rightarrow> (0, s)
         | Some l \<Rightarrow>
             if rc_src_ip tmp_rcvp = mesh_ip s then (1, remove_brk_link (bl_addr l) s)
             else
               (case kmalloc s of
                  (None, s) \<Rightarrow> (0, s)
                | (Some _, s) \<Rightarrow>
                    let new_rcvp = \<lparr>rc_type = RCVP_MESSAGE, rc_num_hops = num_hops, rc_dst_ip = rc_dst_ip tmp_rcvp,
                            rc_dst_id = htonl (rc_dst_ip tmp_rcvp), rc_src_ip = rc_src_ip tmp_rcvp,
                            rc_last_avail_ip = bl_last_avail_ip l\<rparr>;
                        s = send_message (bl_last_hop l) NET_DIAMETER (M_RCVP new_rcvp) s
                    in (1, remove_brk_link (bl_addr l) s)))"

definition gen_rrdp :: "u32 \<Rightarrow> u32 \<Rightarrow> u32 \<Rightarrow> u8 \<Rightarrow> node \<Rightarrow> int \<times> node" where
  "gen_rrdp src_ip dst_ip last_hop tos s =
     (case kmalloc s of
        (None, s) \<Rightarrow> (0, s)
      | (Some _, s) \<Rightarrow>
          (1, send_message last_hop NET_DIAMETER
                (M_RRDP \<lparr>rd_type = RRDP_MESSAGE, rd_num_hops = 0, rd_reserved = 0, rd_n = False, rd_dst_count = 0,
                        rd_dst_ip = dst_ip, rd_src_ip = src_ip, rd_tos = tos\<rparr>) s))"

text \<open>
  \<open>recv_rrdp\<close> returns 1. At the source of the route it frees the packet, which its caller
  frees again: the first component says so.
\<close>

definition recv_rrdp :: "u32 \<Rightarrow> rrdp \<Rightarrow> node \<Rightarrow> bool \<times> node" where
  "recv_rrdp packet_src tmp_rrdp s =
     (case find_aodv_route (rd_src_ip tmp_rrdp) (rd_dst_ip tmp_rrdp) (rd_tos tmp_rrdp) s of
        None \<Rightarrow> (False, s)
      | Some r \<Rightarrow>
          if rt_next_hop r \<noteq> packet_src then (False, s)
          else if \<not> (rt_src_ip r = mesh_ip s \<or> (rt_src_ip r = null_ip s \<and> is_gateway s)) then
            (False,
             if rt_state r \<noteq> INVALID
             then send_message (rt_last_hop r) NET_DIAMETER
                    (M_RRDP (tmp_rrdp\<lparr>rd_num_hops := rd_num_hops tmp_rrdp + 1\<rparr>)) s
             else s)
          else
            (True,
             if dtn_register s
             then send2dtn (rd_src_ip tmp_rrdp, rd_dst_ip tmp_rrdp, 0, ucast (rd_type tmp_rrdp)) DTNPORT s
             else s))"

section \<open>The handlers keep the invariant\<close>

lemma evolve_rcvp_link [evolve]: "evolves a s \<Longrightarrow> evolves a (snd (rcvp_link d l s))"
  unfolding rcvp_link_def Let_def split_beta by (intro evolve evolve_vcg) assumption+

lemma evolve_rcvp_links [evolve]: "evolves a s \<Longrightarrow> evolves a (snd (rcvp_links d ls s))"
proof (induction ls arbitrary: s)
  case (Cons l ls)
  from evolve_rcvp_link [OF Cons.prems, of d l] Cons.IH show ?case by (simp add: split_beta)
qed simp

lemma evolve_gen_rcvp [evolve]: "evolves a s \<Longrightarrow> evolves a (snd (gen_rcvp d s))"
  by (simp add: gen_rcvp_def evolve)

lemma evolve_recv_rcvp [evolve]: "evolves a s \<Longrightarrow> evolves a (snd (recv_rcvp m s))"
  unfolding recv_rcvp_def Let_def split_beta by (intro evolve evolve_vcg) assumption+

lemma evolve_gen_rrdp [evolve]: "evolves a s \<Longrightarrow> evolves a (snd (gen_rrdp b c d e s))"
  unfolding gen_rrdp_def Let_def split_beta by (intro evolve evolve_vcg) assumption+

lemma evolve_recv_rrdp [evolve]: "evolves a s \<Longrightarrow> evolves a (snd (recv_rrdp b m s))"
  unfolding recv_rrdp_def Let_def split_beta by (intro evolve evolve_vcg) assumption+

section \<open>Recovered destinations\<close>


lemma remove_first_addr:
  "distinct (map bl_addr ls) \<Longrightarrow> l \<in> set ls \<Longrightarrow>
     remove_first (\<lambda>x. bl_addr x = bl_addr l) ls = filter (\<lambda>x. x \<noteq> l) ls"
proof (induction ls)
  case (Cons k ks)
  show ?case
  proof (cases "k = l")
    case True
    with Cons.prems have "\<forall>x\<in>set ks. x \<noteq> l" by auto
    then have "filter (\<lambda>x. x \<noteq> l) ks = ks" by (simp add: filter_id_conv)
    with True show ?thesis by simp
  next
    case False
    with Cons.prems have "bl_addr k \<noteq> bl_addr l" by (auto simp: image_iff)
    with False Cons show ?thesis by auto
  qed
qed simp





definition sample_broken :: node where
  "sample_broken = sample_mesh\<lparr>brk_list := [sample_link 1 150000 8, sample_link 2 150000 9]\<rparr>"

lemma sample_broken_simps [simp]:
  "brk_list sample_broken = [sample_link 1 150000 8, sample_link 2 150000 9]" "cfg sample_broken = sample_cfg"
  "allocs sample_broken = 9"
  by (simp_all add: sample_broken_def)

lemma sample_broken_ok: "links_ok sample_broken"
  by (simp add: links_ok_def sample_link_def)


text \<open>The node after the DTN daemon, if there is one, was told of an RCVP, and the RCVP that goes on.\<close>

definition rcvp_told :: "rcvp \<Rightarrow> node \<Rightarrow> node" where
  "rcvp_told m s =
     (if dtn_register s
      then send2dtn (rc_src_ip m, rc_dst_ip m, rc_last_avail_ip m, ucast (rc_type m)) DTNPORT s else s)"

definition rcvp_onward :: "rcvp \<Rightarrow> brk_link \<Rightarrow> rcvp" where
  "rcvp_onward m l =
     \<lparr>rc_type = RCVP_MESSAGE, rc_num_hops = rc_num_hops m + 1, rc_dst_ip = rc_dst_ip m,
      rc_dst_id = htonl (rc_dst_ip m), rc_src_ip = rc_src_ip m, rc_last_avail_ip = bl_last_avail_ip l\<rparr>"

lemma rcvp_told_frame [simp]:
  "brk_list (rcvp_told m s) = brk_list s" "cfg (rcvp_told m s) = cfg s" "allocs (rcvp_told m s) = allocs s"
  "neigh_list (rcvp_told m s) = neigh_list s"
  by (simp_all add: rcvp_told_def)

text \<open>
  C21: an RCVP is followed one hop. The DTN daemon is told of it if there is one. The RCVP of an unknown
  link does nothing else. Otherwise, the link of its source and destination is dropped, no other; and
  unless this node is the source, the RCVP with one more hop goes to the last hop of the link, which it
  does exactly when that is a neighbour, the socket has room and the kernel takes it. Without memory for
  that packet nothing is sent on and the link stays.
\<close>

theorem recv_rcvp_spec:
  fixes m :: rcvp
  assumes "links_ok s"
  defines "s1 \<equiv> rcvp_told m s"
  shows "case find_brk_link (rc_src_ip m) (rc_dst_ip m) s of
       None \<Rightarrow> recv_rcvp m s = (0, s1)
     | Some l \<Rightarrow>
         if rc_src_ip m \<noteq> mesh_ip s \<and> \<not> alloc_ok (cfg s) (allocs s)
         then recv_rcvp m s = (0, s1\<lparr>allocs := Suc (allocs s)\<rparr>)
         else fst (recv_rcvp m s) = 1
           \<and> brk_list (snd (recv_rcvp m s)) = filter (\<lambda>x. x \<noteq> l) (brk_list s)
           \<and> out (snd (recv_rcvp m s)) = out s1 @
               (if rc_src_ip m \<noteq> mesh_ip s \<and> find_aodv_neigh (bl_last_hop l) s \<noteq> None
                  \<and> msg_size (M_RCVP (rcvp_onward m l)) \<le> wspace s1 \<and> 0 \<le> sock_rc (cfg s) (sends s1)
                then [Ucast (bl_last_hop l) NET_DIAMETER (M_RCVP (rcvp_onward m l))] else [])"
proof -
  have f: "find_brk_link a b s1 = find_brk_link a b s" for a b by (simp add: find_brk_link_def s1_def)
  have r: "recv_rcvp m s =
     (case find_brk_link (rc_src_ip m) (rc_dst_ip m) s1 of
        None \<Rightarrow> (0, s1)
      | Some l \<Rightarrow>
          if rc_src_ip m = mesh_ip s1 then (1, remove_brk_link (bl_addr l) s1)
          else
            (case kmalloc s1 of
               (None, s) \<Rightarrow> (0, s)
             | (Some _, s) \<Rightarrow>
                 (1, remove_brk_link (bl_addr l) (send_message (bl_last_hop l) NET_DIAMETER (M_RCVP (rcvp_onward m l)) s))))"
    unfolding recv_rcvp_def s1_def rcvp_told_def rcvp_onward_def Let_def by (rule refl)
  show ?thesis
  proof (cases "find_brk_link (rc_src_ip m) (rc_dst_ip m) s")
    case None
    with r f show ?thesis by simp
  next
    case (Some l)
    have d: "distinct (map bl_addr (brk_list s))" using assms(1) by (simp add: links_ok_def)
    have l: "l \<in> set (brk_list s)" using find_brk_link_D [OF Some] by simp
    have n: "find_aodv_neigh ip (s1\<lparr>allocs := k\<rparr>) = find_aodv_neigh ip s" "wspace (s1\<lparr>allocs := k\<rparr>) = wspace s1" for ip k
      by (simp_all add: find_aodv_neigh_def wspace_def s1_def)
    have c: "brk_list s1 = brk_list s" "cfg s1 = cfg s" "allocs s1 = allocs s" by (simp_all add: s1_def)
    show ?thesis
      unfolding r f Some option.case
      using remove_first_addr [OF d l]
      by (simp add: kmalloc_def remove_brk_link_def send_message_spec n c)
  qed
qed

lemma recv_rcvp_spec_witness:
  "brk_list (snd (recv_rcvp \<lparr>rc_type = RCVP_MESSAGE, rc_num_hops = 0, rc_dst_ip = 9, rc_dst_id = 9, rc_src_ip = 2,
      rc_last_avail_ip = 0\<rparr> sample_broken)) = [sample_link 1 150000 8]"
proof -
  have "find_brk_link 2 9 sample_broken = Some (sample_link 2 150000 9)" "\<not> dtn_register sample_broken"
    by (simp_all add: find_brk_link_def search_links_def sample_link_def sample_broken_def)
  with recv_rcvp_spec [OF sample_broken_ok, of "\<lparr>rc_type = RCVP_MESSAGE, rc_num_hops = 0, rc_dst_ip = 9, rc_dst_id = 9,
      rc_src_ip = 2, rc_last_avail_ip = 0\<rparr>"]
  show ?thesis by (simp add: sample_link_def sample_simps)
qed

end
