(* ===== verification/Ett.thy ===== *)
theory Ett
  imports Recovery
begin

text \<open>
  The expected transmission time, \<open>probe_ett.c\<close>, and the metrics built on it (\<open>route_alg.c\<close>).
  A neighbour measures the delay between a small and a large probe and reports it; the delays
  of a round, kept in order, give the rate of the link when enough of them agree. A handler
  that finds no neighbour where it holds a pointer, divides by zero or leaves an array faults.
\<close>

section \<open>The delay vector\<close>

text \<open>
  \<open>find_delay_range\<close>: how many of the measurements behind \<open>pos\<close> are, one after the other, at
  most \<open>ETT_RANGE\<close> above \<open>delay\<close> (the difference is unsigned).
\<close>

definition find_delay_range :: "u32 list \<Rightarrow> u32 \<Rightarrow> nat \<Rightarrow> nat \<Rightarrow> nat" where
  "find_delay_range r_delay delay pos num_probes =
     length (takeWhile (\<lambda>d. d - delay \<le> ETT_RANGE) (drop (Suc pos) (take num_probes r_delay)))"

text \<open>The first position with the most; \<open>None\<close> if the window leaves the array.\<close>

fun best_range :: "u32 list \<Rightarrow> nat \<Rightarrow> nat list \<Rightarrow> nat \<times> nat \<Rightarrow> nat \<times> nat" where
  "best_range r_delay w [] best = best"
| "best_range r_delay w (i # is) (max_pos, max_count) =
     (let c = find_delay_range r_delay (r_delay ! i) i w in
      best_range r_delay w is (if c > max_count then (i, c) else (max_pos, max_count)))"

definition compute_delay :: "aodv_neigh \<Rightarrow> (u32 \<times> aodv_neigh) option" where
  "compute_delay n =
     (let w = unat (ett_window n); ds = ett_recv_delays n in
      if length ds < w then None
      else
        (case best_range ds w [0..<w] (0, 0) of
           (max_pos, max_count) \<Rightarrow>
             if max_count < 2 then Some (0, n)
             else
               let fin_delay = sum_list (take (Suc max_count) (drop max_pos ds))
               in Some (fin_delay div of_nat (max_count + 1), n\<lparr>ett_recv_delays := delay_vector_init\<rparr>)))"

text \<open>
  \<open>delay_vector_add\<close>: among the first \<open>count_rcv + 1\<close> entries, in front of the first larger one;
  the last of them is overwritten.
\<close>

fun insert_delay :: "u32 \<Rightarrow> u32 list \<Rightarrow> u32 list" where
  "insert_delay delay [] = []"
| "insert_delay delay (d # ds) = (if delay < d then delay # butlast (d # ds) else d # insert_delay delay ds)"

definition delay_vector_add :: "u32 \<Rightarrow> aodv_neigh \<Rightarrow> aodv_neigh option" where
  "delay_vector_add delay n =
     (let c = Suc (unat (ett_count_rcv n)); ds = ett_recv_delays n in
      if length ds < c then None
      else Some (n\<lparr>ett_recv_delays := insert_delay delay (take c ds) @ drop c ds\<rparr>))"

definition compute_rate :: "u32 \<Rightarrow> u16 option" where
  "compute_rate estimation =
     (let e = (ucast estimation :: u16) in
      if e = 0 then None
      else
        let bps = of_nat (61740 div unat e) :: u16 in
        Some (if bps < 38 then 60 else if bps < 53 then 90 else if bps < 78 then 120 else if bps < 105 then 180
              else if bps < 150 then 240 else if bps < 210 then 360 else if bps < 255 then 480 else 540))"

section \<open>Estimations\<close>

definition reset_write :: "aodv_neigh \<Rightarrow> aodv_neigh" where
  "reset_write n =
     n\<lparr>ett_last_count := 0, ett_count_rcv := 0, ett_sec := 0, ett_usec := 0, ett_reset := 0,
       ett_meas_delay := DEFAULT_ETT_METRIC, ett_window := ETT_PROBES_MIN + 1, ett_interval := ucast ETT_FAST_INTERVAL,
       ett_fixed_rate := 0, ett_recv_delays := delay_vector_init, ng_send_rate := 0\<rparr>"

text \<open>\<open>reset_ett\<close> takes a pointer, which its callers do not check: \<open>None\<close> is NULL.\<close>

definition reset_ett :: "aodv_neigh option \<Rightarrow> node \<Rightarrow> node option" where
  "reset_ett reset_neigh s =
     (case reset_neigh of
        None \<Rightarrow> None
      | Some n \<Rightarrow>
          let ip = ng_ip n;
              s = delete_timer ip ip NO_TOS TASK_SEND_ETT s;
              s = set_neigh ip reset_write s;
              (jitter, s) = probe_jitter ip s;
              s = snd (insert_timer_simple TASK_SEND_ETT (1000 + 10 * jitter) ip s);
              s = snd (insert_timer_simple TASK_ETT_CLEANUP (ETT_INTERVAL * (1 + ALLOWED_ETT_LOSS) + 100) ip s);
              s = update_timer_queue s
          in gen_rerr ip s)"

definition send_ett_info :: "u32 \<Rightarrow> u16 \<Rightarrow> bool \<Rightarrow> node \<Rightarrow> node option" where
  "send_ett_info ip my_rate fixed s =
     (case kmalloc s of
        (None, s) \<Rightarrow> Some s
      | (Some _, s) \<Rightarrow>
          (case find_aodv_neigh ip s of
             None \<Rightarrow> None
           | Some n \<Rightarrow>
               Some (send_message ip NET_DIAMETER
                       (M_ETTINFO \<lparr>ei_type = ETT_INFO_MSG, ei_fixed_rate = (if fixed then 1 else 0),
                          ei_my_rate = htons my_rate, ei_last_meas_delay = htonl (ett_meas_delay n)\<rparr>) s)))"

text \<open>A new round: at first glance, or after an estimation.\<close>

definition new_round :: "u8 \<Rightarrow> aodv_neigh \<Rightarrow> aodv_neigh" where
  "new_round reset n =
     n\<lparr>ett_recv_delays := delay_vector_init, ett_count_rcv := 0, ett_window := ETT_PROBES_MIN, ett_reset := reset\<rparr>"

text \<open>
  \<open>compute_estimation\<close> on the neighbour's record \<open>n\<close>: what it does to the record, and what
  follows. The pointer it works on is the one of \<open>n\<close>; the stores come before the calls. Where the
  estimation is reset, \<open>reset_ett\<close> overwrites everything that the round has stored.
\<close>

datatype estimate = Wait | Reset_and_info | Reset | Info u16

definition estimate_round :: "aodv_neigh \<Rightarrow> (aodv_neigh \<times> estimate) option" where
  "estimate_round n0 =
     (let n = n0\<lparr>ett_count_rcv := ett_count_rcv n0 + 1\<rparr> in
      if ett_count_rcv n \<noteq> ett_window n then Some (n, Wait)
      else do {
        (recv_delay, n) \<leftarrow> compute_delay n;
        if recv_delay = 0 \<and> ett_window n = ETT_PROBES_MAX then
          if ett_reset n \<noteq> 0 then Some (n, Reset_and_info)
          else Some (new_round 1 n, Info (ng_send_rate n))
        else if recv_delay = 0 then
          let w = ett_window n + 2 in
          Some (n\<lparr>ett_window := (if w > ETT_PROBES_MAX then ETT_PROBES_MAX else w)\<rparr>, Wait)
        else if recv_delay = DEFAULT_ETT_METRIC then Some (n, Reset)
        else do {
          rate \<leftarrow> compute_rate recv_delay;
          Some ((new_round 0 n)\<lparr>ng_send_rate := rate\<rparr>, Info rate)
        }
      })"

definition compute_estimation :: "u32 \<Rightarrow> node \<Rightarrow> node option" where
  "compute_estimation ip s = do {
     n \<leftarrow> find_aodv_neigh ip s;
     (n', e) \<leftarrow> estimate_round n;
     (case e of
        Wait \<Rightarrow> Some (set_neigh ip (\<lambda>_. n') s)
      | Reset_and_info \<Rightarrow> do {
          s \<leftarrow> reset_ett (Some n') s;
          n \<leftarrow> find_aodv_neigh ip s;
          send_ett_info ip (ng_send_rate n) False s
        }
      | Reset \<Rightarrow> reset_ett (Some n') s
      | Info rate \<Rightarrow> send_ett_info ip rate False (set_neigh ip (\<lambda>_. n') s))
   }"

section \<open>Probes\<close>

definition send_probe :: "u32 \<Rightarrow> node \<Rightarrow> node option" where
  "send_probe ip s =
     (case find_aodv_neigh ip s of
        None \<Rightarrow> Some s
      | Some n \<Rightarrow>
          let s = s\<lparr>count_send := (if count_send s + 1 = 100 then 0 else count_send s + 1)\<rparr>;
              rearm = (\<lambda>s. update_timer_queue (snd (insert_timer_simple TASK_SEND_ETT (ucast (ett_interval n)) ip s)))
          in if g_fixed_rate (cfg s) \<noteq> 0 then
               map_option rearm (send_ett_info ip (g_fixed_rate (cfg s)) True s)
             else
               (case kmalloc s of
                  (None, s) \<Rightarrow> Some s
                | (Some _, s) \<Rightarrow>
                    (case kmalloc s of
                       (None, s) \<Rightarrow> Some s
                     | (Some _, s) \<Rightarrow>
                         let sec = ucast (junk (cfg s)); usec = ucast (drop_bit 32 (junk (cfg s)));
                             tmp_sprobe = \<lparr>sp_type = ETT_S_MESSAGE, sp_n_probe = count_send s, sp_dst_ip = ip,
                                sp_src_ip = mesh_ip s, sp_sec = sec, sp_usec = usec\<rparr>;
                             tmp_lprobe = \<lparr>lp_type = ETT_L_MESSAGE, lp_n_probe = count_send s,
                                lp_my_rate = htons (ng_send_rate n), lp_dst_ip = ip, lp_src_ip = mesh_ip s,
                                lp_sec = sec, lp_usec = usec, lp_last_meas_delay = htonl (ett_meas_delay n)\<rparr>
                         in Some (rearm (send_ett_probe ip (M_SPROBE tmp_sprobe) (M_LPROBE tmp_lprobe) s)))))"

definition recv_sprobe :: "u32 \<Rightarrow> s_probe \<Rightarrow> node \<Rightarrow> node" where
  "recv_sprobe packet_src tmp_sprobe s =
     (case find_aodv_neigh packet_src s of
        None \<Rightarrow> s
      | Some n \<Rightarrow>
          set_neigh packet_src
            (\<lambda>n. n\<lparr>ett_last_count := sp_n_probe tmp_sprobe, ett_sec := ucast (sp_sec tmp_sprobe),
                  ett_usec := ucast (sp_usec tmp_sprobe)\<rparr>) s)"

definition rearm_ett_cleanup :: "u32 \<Rightarrow> node \<Rightarrow> node" where
  "rearm_ett_cleanup ip s =
     update_timer_queue (snd (insert_timer_simple TASK_ETT_CLEANUP (ETT_INTERVAL * (1 + ALLOWED_ETT_LOSS) + 100) ip
       (delete_timer ip ip NO_TOS TASK_ETT_CLEANUP s)))"

text \<open>The delay between the probes of a pair; \<open>ett.sec\<close> in the second case is the source's.\<close>

definition probe_delay :: "l_probe \<Rightarrow> aodv_neigh \<Rightarrow> u32" where
  "probe_delay tmp_lprobe n =
     (let res_sec = lp_sec tmp_lprobe - ucast (ett_sec n) in
      if res_sec = 0 then lp_usec tmp_lprobe - ucast (ett_usec n)
      else if res_sec = 1 then 1000000 + lp_usec tmp_lprobe - ucast (ett_sec n)
      else DEFAULT_ETT_METRIC)"

definition set_interval :: "aodv_neigh \<Rightarrow> aodv_neigh" where
  "set_interval n =
     n\<lparr>ett_interval :=
         (if ng_recv_rate n = 0 \<or> ng_send_rate n = 0 then ucast ETT_FAST_INTERVAL else ucast ETT_INTERVAL)\<rparr>"

text \<open>A measurement that the neighbour reports: into the vector, and one more of the round.\<close>

definition add_measurement :: "u32 \<Rightarrow> u32 \<Rightarrow> node \<Rightarrow> node option" where
  "add_measurement ip delay s = do {
     n \<leftarrow> find_aodv_neigh ip s;
     n' \<leftarrow> delay_vector_add delay n;
     Some (set_neigh ip (\<lambda>_. n') s)
   }"

definition recv_lprobe :: "u32 \<Rightarrow> l_probe \<Rightarrow> node \<Rightarrow> node option" where
  "recv_lprobe packet_src tmp_lprobe s =
     (case find_aodv_neigh packet_src s of
        None \<Rightarrow> Some s
      | Some n \<Rightarrow>
          let s = update_neigh_timelife packet_src s in
          if lp_n_probe tmp_lprobe \<noteq> ett_last_count n then Some s
          else
            let s = rearm_ett_cleanup packet_src s;
                s = set_neigh packet_src
                      (\<lambda>n. n\<lparr>ett_meas_delay := probe_delay tmp_lprobe n, ng_recv_rate := ntohs (lp_my_rate tmp_lprobe)\<rparr>) s
            in map_option (set_neigh packet_src set_interval)
                 (if g_fixed_rate (cfg s) = 0
                  then Option.bind (add_measurement packet_src (ntohl (lp_last_meas_delay tmp_lprobe)) s)
                         (compute_estimation packet_src)
                  else Some s))"

definition recv_ett_info :: "u32 \<Rightarrow> ett_info \<Rightarrow> node \<Rightarrow> node option" where
  "recv_ett_info packet_src tmp_ett_info s =
     (case find_aodv_neigh packet_src s of
        None \<Rightarrow> Some s
      | Some n \<Rightarrow>
          let s = update_neigh_timelife packet_src s;
              s = set_neigh packet_src (\<lambda>n. n\<lparr>ng_recv_rate := ntohs (ei_my_rate tmp_ett_info)\<rparr>) s
          in map_option (set_neigh packet_src set_interval)
               (if ei_fixed_rate tmp_ett_info = 1 then
                  let s = set_neigh packet_src (\<lambda>n. n\<lparr>ett_fixed_rate := 1\<rparr>) s;
                      s = rearm_ett_cleanup packet_src s
                  in Option.bind (add_measurement packet_src (ntohl (ei_last_meas_delay tmp_ett_info)) s)
                       (\<lambda>s. if g_fixed_rate (cfg s) = 0 then compute_estimation packet_src s else Some s)
                else Some s))"

section \<open>Metrics\<close>

text \<open>
  The metrics refuse the request (1) or add the cost of the link to its path metric (0).
  \<open>int\<close> arithmetic that leaves 32 bits is a fault.
\<close>

definition ett_metric :: "aodv_neigh \<Rightarrow> rreq \<Rightarrow> int \<times> rreq" where
  "ett_metric n r =
     (if ng_recv_rate n = 0 \<or> ng_send_rate n = 0 \<or> ng_etx_metric n = 0 then (1, r)
      else
        (0, r\<lparr>rq_path_metric := rq_path_metric r
                + of_nat (11776 * 1000 div (unat (ng_recv_rate n) * unat (ng_etx_metric n)))\<rparr>))"

definition heard_by :: "aodv_neigh \<Rightarrow> u32 \<Rightarrow> bool" where
  "heard_by n ip \<longleftrightarrow> ip \<noteq> 0 \<and> ip \<in> set (ng_neigh_tx n)"

definition wcim_load :: "aodv_neigh \<Rightarrow> node \<Rightarrow> u8" where
  "wcim_load n s =
     (let l1 = fold (\<lambda>m l. if ng_ip m = ng_ip n then l + ng_load n
                           else l + ng_load m * (if heard_by n (ng_ip m) then 1 else 2))
                    (neigh_list s) (mesh_load s)
      in fold (\<lambda>m l. l + of_nat (unat (n2_load m) * (if heard_by n (n2_ip m) then 2 else 1) div 2))
           (neigh_list_2h s) l1)"

text \<open>C's division truncates towards zero, and the result goes into 16 bits.\<close>

definition cdiv :: "int \<Rightarrow> int \<Rightarrow> int" where
  "cdiv a b = (if a < 0 then - ((- a) div b) else a div b)"

definition wcim_metric :: "aodv_neigh \<Rightarrow> rreq \<Rightarrow> node \<Rightarrow> (int \<times> rreq) option" where
  "wcim_metric n r s =
     (if ng_recv_rate n = 0 \<or> ng_send_rate n = 0 \<or> ng_etx_metric n = 0 then Some (1, r)
      else do {
        flow \<leftarrow> find_flow_type (rq_tos r) s;
        let coef_recv = compute_coef (fl_avg_size flow) (ng_recv_rate n);
        let bw = uint (ng_recv_rate n) * uint (ng_etx_metric n) * uint coef_recv;
        if bw \<ge> 2 ^ 31 then None
        else
          let recv_bw = (of_int (bw div 100) :: u16);
              recv_bw = (of_int (cdiv (uint recv_bw * (100 - uint (wcim_load n s))) 100) :: u16)
          in if recv_bw \<le> fl_avg_rate flow then Some (1, r)
             else Some (0, r\<lparr>rq_path_metric := rq_path_metric r
                               + of_nat (unat (fl_avg_size flow) * 8000 div unat recv_bw)\<rparr>)
      })"

section \<open>A round stays in the array\<close>

lemma delay_vector_init_length [simp]: "length delay_vector_init = 10"
  by (simp add: delay_vector_init_def)

lemma length_insert_delay [simp]: "length (insert_delay d ds) = length ds"
  by (induction ds) auto

lemma neigh_wf_count: "neigh_wf n \<Longrightarrow> unat (ett_count_rcv n) < unat (ett_window n) \<and> unat (ett_window n) \<le> 10"
  by (simp add: neigh_wf_def word_less_nat_alt word_le_nat_alt)

lemma delay_vector_add_wf:
  assumes "neigh_wf n"
  shows "\<exists>n'. delay_vector_add delay n = Some n' \<and> neigh_wf n' \<and> ng_ip n' = ng_ip n"
  using neigh_wf_count [OF assms] assms by (auto simp: delay_vector_add_def Let_def neigh_wf_def)

lemma reset_write_wf [simp]: "neigh_wf n \<Longrightarrow> neigh_wf (reset_write n)"
  by (simp add: neigh_wf_def reset_write_def)

lemma reset_write_ip [simp]: "ng_ip (reset_write n) = ng_ip n"
  by (simp add: reset_write_def)

lemma new_round_wf: "neigh_wf n \<Longrightarrow> neigh_wf ((new_round z n)\<lparr>ng_send_rate := x\<rparr>) \<and> neigh_wf (new_round z n)"
  by (simp add: neigh_wf_def new_round_def)

lemma count_not_full: "neigh_wf n \<Longrightarrow> ett_count_rcv n + 1 \<noteq> ett_window n \<Longrightarrow> ett_count_rcv n + 1 < ett_window n"
  unfolding neigh_wf_def by (metis inc_le le_less)

lemma window_grows:
  assumes "w \<le> ETT_PROBES_MAX" and "w \<noteq> ETT_PROBES_MAX"
  shows "w < (if w + 2 > ETT_PROBES_MAX then ETT_PROBES_MAX else w + 2)"
    and "(if w + 2 > ETT_PROBES_MAX then ETT_PROBES_MAX else w + 2) \<le> ETT_PROBES_MAX"
proof -
  have "w < 10" using assms by simp
  then have "unat w < 10" by (simp add: word_less_nat_alt)
  then show "w < (if w + 2 > ETT_PROBES_MAX then ETT_PROBES_MAX else w + 2)"
    using \<open>w < 10\<close> by (simp add: word_less_nat_alt unat_word_ariths)
qed (simp add: not_less)

lemma compute_delay_wf:
  assumes "length (ett_recv_delays n) = 10" and "ett_window n \<le> ETT_PROBES_MAX"
  shows "\<exists>d n'. compute_delay n = Some (d, n') \<and> (n' = n \<or> n' = n\<lparr>ett_recv_delays := delay_vector_init\<rparr>)"
proof -
  have "\<not> length (ett_recv_delays n) < unat (ett_window n)" using assms by (simp add: word_le_nat_alt)
  then show ?thesis by (auto simp: compute_delay_def Let_def split: prod.split)
qed

text \<open>
  A round on a well-formed neighbour gives a well-formed one, or ends in a reset; the only
  fault is the division of \<open>compute_rate\<close>, when the delay is a multiple of 65536.
\<close>

lemma estimate_round_wf:
  assumes "neigh_wf n" and "estimate_round n = Some (n', e)"
  shows "ng_ip n' = ng_ip n \<and> (e = Wait \<or> (\<exists>r. e = Info r) \<longrightarrow> neigh_wf n')"
proof (cases "ett_count_rcv n + 1 = ett_window n")
  case False
  with assms count_not_full show ?thesis
    by (auto simp: estimate_round_def Let_def neigh_wf_def)
next
  case True
  let ?n = "n\<lparr>ett_count_rcv := ett_count_rcv n + 1\<rparr>"
  have wf: "length (ett_recv_delays n) = 10" "ett_window n \<le> ETT_PROBES_MAX" "length (ng_neigh_tx n) = 32"
    using assms(1) by (simp_all add: neigh_wf_def)
  obtain d m where m: "compute_delay ?n = Some (d, m)" "m = ?n \<or> m = ?n\<lparr>ett_recv_delays := delay_vector_init\<rparr>"
    using compute_delay_wf [of ?n] wf by auto
  have f: "ng_ip m = ng_ip n" "ett_window m = ett_window n" "length (ett_recv_delays m) = 10" "length (ng_neigh_tx m) = 32"
    using m(2) wf by auto
  have c: "ett_count_rcv m = ett_window n" using m(2) True by auto
  have r: "neigh_wf (new_round z m)" "neigh_wf ((new_round z m)\<lparr>ng_send_rate := x\<rparr>)" "ng_ip (new_round z m) = ng_ip m" for z x
    using f by (simp_all add: neigh_wf_def new_round_def)
  have est: "estimate_round n = (if d = 0 \<and> ett_window m = ETT_PROBES_MAX then
          if ett_reset m \<noteq> 0 then Some (m, Reset_and_info)
          else Some (new_round 1 m, Info (ng_send_rate m))
        else if d = 0 then
          Some (m\<lparr>ett_window := (if ett_window m + 2 > ETT_PROBES_MAX then ETT_PROBES_MAX else ett_window m + 2)\<rparr>, Wait)
        else if d = DEFAULT_ETT_METRIC then Some (m, Reset)
        else Option.bind (compute_rate d) (\<lambda>rate. Some ((new_round 0 m)\<lparr>ng_send_rate := rate\<rparr>, Info rate)))"
    using True m(1) by (simp add: estimate_round_def Let_def)
  show ?thesis
  proof (cases "d = 0 \<and> ett_window m \<noteq> ETT_PROBES_MAX")
    case True
    then have "n' = m\<lparr>ett_window := (if ett_window m + 2 > ETT_PROBES_MAX then ETT_PROBES_MAX else ett_window m + 2)\<rparr>"
      "e = Wait" using assms(2) est by simp_all
    with True f c wf window_grows [of "ett_window m"] show ?thesis by (simp add: neigh_wf_def)
  next
    case False
    with assms(2) r f show ?thesis unfolding est by (auto split: if_splits bind_splits)
  qed
qed

section \<open>The handlers keep the invariant\<close>

lemma evolve_jitter [evolve]: "evolves a s \<Longrightarrow> evolves a (snd (probe_jitter ip s))"
  by (simp add: probe_jitter_def split_beta evolve)

lemma evolve_reset_ett [evolve]: "evolves a s \<Longrightarrow> opt_ok (evolves a) (reset_ett n s)"
  unfolding reset_ett_def Let_def split_beta by (intro evolve evolve_vcg) (assumption | simp)+

lemma evolve_send_info [evolve]: "evolves a s \<Longrightarrow> opt_ok (evolves a) (send_ett_info ip r b s)"
  unfolding send_ett_info_def Let_def split_beta by (intro evolve evolve_vcg) assumption+

lemma evolve_store_neigh:
  "evolves a s \<Longrightarrow> (neigh_wf n \<Longrightarrow> neigh_wf n' \<and> ng_ip n' = ng_ip n) \<Longrightarrow> find_aodv_neigh ip s = Some n \<Longrightarrow>
     evolves a (set_neigh ip (\<lambda>_. n') s)"
proof (erule evolvesI)
  assume w: "neigh_wf n \<Longrightarrow> neigh_wf n' \<and> ng_ip n' = ng_ip n" and f: "find_aodv_neigh ip s = Some n" and ok: "neighs_ok s"
  have n: "n \<in> set (neigh_list s)" "ng_ip n = ip" using find_aodv_neigh_D [OF f] by simp_all
  with ok w have w': "neigh_wf n'" "ng_ip n' = ip" by (auto simp: neighs_ok_def)
  have "map ng_ip (update_first (\<lambda>n. ng_ip n = ip) (\<lambda>_. n') xs) = map ng_ip xs" for xs
    using w'(2) by (induction xs) auto
  with ok w' set_update_first [of "\<lambda>n. ng_ip n = ip" "\<lambda>_. n'" "neigh_list s"]
  show "neighs_ok (set_neigh ip (\<lambda>_. n') s)" by (auto simp: neighs_ok_def set_neigh_def)
qed (simp_all add: set_neigh_def table_defs)

lemma evolve_estimation [evolve]:
  assumes "evolves a s"
  shows "opt_ok (evolves a) (compute_estimation ip s)"
proof (cases "find_aodv_neigh ip s")
  case (Some n)
  show ?thesis
  proof (cases "estimate_round n")
    case None
    with Some show ?thesis by (simp add: compute_estimation_def)
  next
    case r: (Some p)
    obtain n' e where p: "p = (n', e)" by (cases p)
    have "e = Wait \<or> (\<exists>x. e = Info x) \<Longrightarrow> evolves a (set_neigh ip (\<lambda>_. n') s)"
      using evolve_store_neigh [OF assms _ Some] estimate_round_wf [of n n' e] r p by blast
    moreover have "opt_ok (evolves a) (Option.bind (reset_ett (Some n') s)
        (\<lambda>s. Option.bind (find_aodv_neigh ip s) (\<lambda>n. send_ett_info ip (ng_send_rate n) False s)))"
      by (rule evolve_bind(4) [OF evolve_reset_ett [OF assms]]) (rule evolve_read, rule evolve_send_info)
    ultimately show ?thesis
      using Some r p assms by (cases e) (simp_all add: compute_estimation_def evolve)
  qed
qed (simp add: compute_estimation_def)

lemma evolve_count_send [evolve]: "evolves a s \<Longrightarrow> evolves a (s\<lparr>count_send := n\<rparr>)"
  by (erule evolvesI) (simp_all add: table_defs)

lemma evolve_ett_probe [evolve]: "evolves a s \<Longrightarrow> opt_ok (evolves a) (send_probe ip s)"
  unfolding send_probe_def Let_def split_beta by (intro evolve evolve_vcg) assumption+

lemma evolve_recv_sprobe [evolve]: "evolves a s \<Longrightarrow> evolves a (recv_sprobe src m s)"
  unfolding recv_sprobe_def by (intro evolve evolve_vcg) (assumption | simp add: neigh_wf_def)+

lemma evolve_rearm_cleanup [evolve]: "evolves a s \<Longrightarrow> evolves a (rearm_ett_cleanup ip s)"
  unfolding rearm_ett_cleanup_def by (intro evolve) assumption

lemma evolve_add_measurement [evolve]:
  assumes "evolves a s"
  shows "opt_ok (evolves a) (add_measurement ip d s)"
proof (cases "find_aodv_neigh ip s")
  case (Some n)
  show ?thesis
  proof (cases "delay_vector_add d n")
    case r: (Some n')
    have "evolves a (set_neigh ip (\<lambda>_. n') s)"
      by (rule evolve_store_neigh [OF assms _ Some]) (use r delay_vector_add_wf [of n d] in auto)
    with Some r show ?thesis by (simp add: add_measurement_def)
  qed (use Some in \<open>simp add: add_measurement_def\<close>)
qed (simp add: add_measurement_def)

lemma evolve_set_interval [evolve]: "evolves a s \<Longrightarrow> evolves a (set_neigh ip set_interval s)"
  by (rule evolve_set_neigh) (simp_all add: set_interval_def neigh_wf_def)

lemma evolve_recv_lprobe [evolve]: "evolves a s \<Longrightarrow> opt_ok (evolves a) (recv_lprobe src m s)"
  unfolding recv_lprobe_def Let_def by (intro evolve evolve_vcg) (assumption | simp add: neigh_wf_def)+

lemma evolve_recv_ett_info [evolve]: "evolves a s \<Longrightarrow> opt_ok (evolves a) (recv_ett_info src m s)"
  unfolding recv_ett_info_def Let_def by (intro evolve evolve_vcg) (assumption | simp add: neigh_wf_def)+

section \<open>What an estimation is worth\<close>

lemma best_range_spec:
  assumes "best_range ds w is (p0, c0) = (p, c)"
    and "c0 = 0 \<or> (p0 < w \<and> c0 = find_delay_range ds (ds ! p0) p0 w)" and "\<forall>i\<in>set is. i < w"
  shows "c = 0 \<or> (p < w \<and> c = find_delay_range ds (ds ! p) p w)"
  using assms
proof (induction "is" arbitrary: p0 c0)
  case (Cons i "is")
  let ?c = "find_delay_range ds (ds ! i) i w"
  have "best_range ds w is (if ?c > c0 then (i, ?c) else (p0, c0)) = (p, c)"
    using Cons.prems(1) by (simp add: Let_def)
  then show ?case
    using Cons.IH [of i ?c] Cons.IH [of p0 c0] Cons.prems(2,3) by (cases "?c > c0") simp_all
qed simp

lemma find_delay_range_members:
  assumes "length ds = 10" and "w \<le> 10" and "pos < w" and "c = find_delay_range ds (ds ! pos) pos w"
    and "j \<le> c"
  shows "pos + j < w \<and> ds ! (pos + j) - ds ! pos \<le> ETT_RANGE"
proof (cases j)
  case 0
  with assms(3) show ?thesis by simp
next
  case (Suc k)
  let ?P = "\<lambda>d. d - ds ! pos \<le> ETT_RANGE"
  let ?xs = "drop (Suc pos) (take w ds)"
  have k: "k < length (takeWhile ?P ?xs)" using assms(4,5) Suc by (simp add: find_delay_range_def)
  then have l: "k < length ?xs" using length_takeWhile_le [of ?P ?xs] by (rule less_le_trans)
  then have n: "?xs ! k = ds ! (pos + j)" "pos + j < w" using Suc assms(1,2) by (simp_all add: nth_append)
  have "takeWhile ?P ?xs ! k = ?xs ! k" using k by (rule takeWhile_nth)
  moreover have "?P (takeWhile ?P ?xs ! k)" using k by (meson nth_mem set_takeWhileD)
  ultimately show ?thesis using n by simp
qed

lemma sum_list_bounds:
  fixes xs :: "u32 list"
  assumes "\<forall>x\<in>set xs. l \<le> unat x \<and> unat x \<le> h" and "length xs * h < 2 ^ 32"
  shows "unat (sum_list xs) = sum_list (map unat xs)" and "length xs * l \<le> sum_list (map unat xs)"
    and "sum_list (map unat xs) \<le> length xs * h"
proof -
  have b: "length xs * l \<le> sum_list (map unat xs) \<and> sum_list (map unat xs) \<le> length xs * h"
    using assms(1) by (induction xs) auto
  then show "length xs * l \<le> sum_list (map unat xs)" "sum_list (map unat xs) \<le> length xs * h" by simp_all
  show "unat (sum_list xs) = sum_list (map unat xs)"
    using assms
  proof (induction xs)
    case (Cons x xs)
    have "unat (sum_list xs) = sum_list (map unat xs)" using Cons by simp
    moreover have "sum_list (map unat (x # xs)) \<le> length (x # xs) * h" using Cons.prems(1) by (induction xs) auto
    ultimately show ?case using Cons.prems(2) by (simp add: unat_word_ariths)
  qed simp
qed

lemma near_word:
  fixes x l :: u32
  assumes "x - l \<le> 50" and "unat l \<le> 400000000"
  shows "unat l \<le> unat x \<and> unat x \<le> unat l + 50"
proof -
  have "unat (l + (x - l)) = (unat l + unat (x - l)) mod 2 ^ 32" by (simp only: unat_word_ariths) simp
  then have "unat x = (unat l + unat (x - l)) mod 2 ^ 32" by simp
  moreover have "unat (x - l) \<le> 50" using assms(1) by (simp add: word_le_nat_alt)
  ultimately show ?thesis using assms(2) by simp
qed

text \<open>
  C36: a rate is only estimated from measurements that agree. While no reported delay is above 400
  seconds (the sum of ten of them would not fit 32 bits), a delay that \<open>compute_delay\<close> gives, other
  than 0, lies within 50 microseconds above the least of at least three measurements in a row, the
  one at \<open>p\<close>, all of them within those 50 microseconds.
\<close>

theorem compute_delay_agrees:
  assumes "neigh_wf n" and "compute_delay n = Some (d, n')" and "d \<noteq> 0"
    and "\<forall>x\<in>set (ett_recv_delays n). unat x \<le> 400000000"
  shows "\<exists>p c. 2 \<le> c \<and> p + c < unat (ett_window n)
     \<and> (\<forall>j\<le>c. unat (ett_recv_delays n ! p) \<le> unat (ett_recv_delays n ! (p + j))
           \<and> unat (ett_recv_delays n ! (p + j)) \<le> unat (ett_recv_delays n ! p) + 50)
     \<and> unat (ett_recv_delays n ! p) \<le> unat d \<and> unat d \<le> unat (ett_recv_delays n ! p) + 50"
proof -
  define ds where "ds = ett_recv_delays n"
  define w where "w = unat (ett_window n)"
  have len: "length ds = 10" and w10: "w \<le> 10"
    using assms(1) neigh_wf_count by (simp_all add: neigh_wf_def ds_def w_def)
  obtain p c where pc: "best_range ds w [0..<w] (0, 0) = (p, c)" by fastforce
  have cd: "compute_delay n = (if c < 2 then Some (0, n)
      else Some (sum_list (take (Suc c) (drop p ds)) div of_nat (c + 1), n\<lparr>ett_recv_delays := delay_vector_init\<rparr>))"
    using pc len w10 by (simp add: compute_delay_def Let_def flip: ds_def w_def)
  then have c2: "2 \<le> c" and d: "d = sum_list (take (Suc c) (drop p ds)) div of_nat (c + 1)"
    using assms(2,3) by (auto split: if_splits)
  have "p < w \<and> c = find_delay_range ds (ds ! p) p w" using best_range_spec [OF pc] c2 by simp
  then have mem: "\<And>j. j \<le> c \<Longrightarrow> p + j < w \<and> ds ! (p + j) - ds ! p \<le> ETT_RANGE"
    using find_delay_range_members [OF len w10] by blast
  have pcw: "p + c < w" using mem [of c] by simp
  let ?low = "unat (ds ! p)"
  have low: "?low \<le> 400000000" using assms(4) pcw len w10 by (simp flip: ds_def)
  have near: "\<And>j. j \<le> c \<Longrightarrow> ?low \<le> unat (ds ! (p + j)) \<and> unat (ds ! (p + j)) \<le> ?low + 50"
    using mem near_word [OF _ low] by blast
  let ?xs = "take (Suc c) (drop p ds)"
  have lx: "length ?xs = Suc c" using pcw w10 len by simp
  have "\<forall>x\<in>set ?xs. ?low \<le> unat x \<and> unat x \<le> ?low + 50"
    using near lx by (auto simp: in_set_conv_nth less_Suc_eq_le)
  moreover have "length ?xs * (?low + 50) < 2 ^ 32"
  proof -
    have "length ?xs * (?low + 50) \<le> 10 * 400000050" using lx low pcw w10 by (intro mult_le_mono) simp_all
    then show ?thesis by simp
  qed
  ultimately have s: "unat (sum_list ?xs) = sum_list (map unat ?xs)" "Suc c * ?low \<le> sum_list (map unat ?xs)"
    "sum_list (map unat ?xs) \<le> Suc c * (?low + 50)"
    using sum_list_bounds [of ?xs ?low "?low + 50"] lx by simp_all
  have "unat (of_nat (c + 1) :: u32) = Suc c"
    using pcw w10 unat_of_nat [of "c + 1", where ?'a = 32] by (simp del: of_nat_Suc of_nat_add)
  then have "unat d = sum_list (map unat ?xs) div Suc c" using d s(1) by (simp add: unat_div)
  moreover have "?low \<le> sum_list (map unat ?xs) div Suc c"
    using div_le_mono [OF s(2), of "Suc c"] nonzero_mult_div_cancel_left [of "Suc c" ?low] by (simp del: mult_Suc)
  moreover have "sum_list (map unat ?xs) div Suc c \<le> ?low + 50"
    using div_le_mono [OF s(3), of "Suc c"] nonzero_mult_div_cancel_left [of "Suc c" "?low + 50"] by (simp del: mult_Suc)
  ultimately show ?thesis using c2 pcw near unfolding ds_def w_def by metis
qed

text \<open>A neighbour with a window of four and three measurements that agree.\<close>

definition sample_measured :: aodv_neigh where
  "sample_measured =
     (sample_neigh 5)\<lparr>ett_recv_delays := [900, 1000, 1010, 1030] @ replicate 6 DEFAULT_ETT_METRIC\<rparr>"

lemma sample_measured_delay: "compute_delay sample_measured = Some (1013, sample_measured\<lparr>ett_recv_delays := delay_vector_init\<rparr>)"
  by (simp add: sample_measured_def compute_delay_def sample_neigh_def find_delay_range_def Let_def upt_rec)

lemma compute_delay_agrees_witness:
  "\<exists>p c. 2 \<le> c \<and> p + c < (4::nat) \<and> unat (ett_recv_delays sample_measured ! p) \<le> unat (1013 :: u32)
     \<and> unat (1013 :: u32) \<le> unat (ett_recv_delays sample_measured ! p) + 50"
proof -
  have "neigh_wf sample_measured" "\<forall>x\<in>set (ett_recv_delays sample_measured). unat x \<le> 400000000"
    "unat (ett_window sample_measured) = 4"
    by (simp_all add: sample_measured_def neigh_wf_def sample_neigh_def)
  with compute_delay_agrees [OF _ sample_measured_delay] show ?thesis by fastforce
qed

text \<open>
  C37: a measurement round stays in its arrays. Storing a reported delay never leaves the vector,
  and ending the round faults exactly by the division in \<open>compute_rate\<close>: when the round is complete
  and the delay its measurements agree on, cut to 16 bits, is zero, because it is a multiple of 65536
  microseconds. A round that goes on, or ends in a report, leaves the neighbour well-formed.
\<close>

theorem measurement_round_in_bounds:
  assumes "neigh_wf n"
  shows "\<exists>n1. delay_vector_add delay n = Some n1 \<and> neigh_wf n1
     \<and> (estimate_round n1 = None \<longleftrightarrow>
          ett_count_rcv n1 + 1 = ett_window n1
          \<and> (\<exists>d n'. compute_delay (n1\<lparr>ett_count_rcv := ett_count_rcv n1 + 1\<rparr>) = Some (d, n')
                 \<and> d \<noteq> 0 \<and> 65536 dvd uint d))
     \<and> (\<forall>n2 e. estimate_round n1 = Some (n2, e) \<longrightarrow>
          ng_ip n2 = ng_ip n \<and> (e = Wait \<or> (\<exists>r. e = Info r) \<longrightarrow> neigh_wf n2))"
proof -
  obtain n1 where n1: "delay_vector_add delay n = Some n1" "neigh_wf n1" "ng_ip n1 = ng_ip n"
    using delay_vector_add_wf [OF assms] by blast
  let ?n = "n1\<lparr>ett_count_rcv := ett_count_rcv n1 + 1\<rparr>"
  obtain d m where d: "compute_delay ?n = Some (d, m)"
    using compute_delay_wf [of ?n] n1(2) by (auto simp: neigh_wf_def)
  have rate: "compute_rate d = None \<longleftrightarrow> 65536 dvd uint d"
  proof -
    have "uint (ucast d :: u16) = uint d mod 2 ^ 16" by (simp add: unsigned_ucast_eq take_bit_eq_mod)
    then have "(ucast d :: u16) = 0 \<longleftrightarrow> 65536 dvd uint d" by (simp add: word_uint_eq_iff dvd_eq_mod_eq_0)
    then show ?thesis by (simp add: compute_rate_def Let_def)
  qed
  have big: "\<not> 65536 dvd uint (DEFAULT_ETT_METRIC :: u32)" by (simp add: dvd_eq_mod_eq_0)
  have "estimate_round n1 = None \<longleftrightarrow> ett_count_rcv n1 + 1 = ett_window n1 \<and> d \<noteq> 0 \<and> 65536 dvd uint d"
    using d rate big by (auto simp: estimate_round_def Let_def bind_eq_None_conv split: if_splits)
  then have none: "estimate_round n1 = None \<longleftrightarrow> ett_count_rcv n1 + 1 = ett_window n1
      \<and> (\<exists>d n'. compute_delay ?n = Some (d, n') \<and> d \<noteq> 0 \<and> 65536 dvd uint d)"
    unfolding d by simp
  have "\<forall>n2 e. estimate_round n1 = Some (n2, e) \<longrightarrow> ng_ip n2 = ng_ip n \<and> (e = Wait \<or> (\<exists>r. e = Info r) \<longrightarrow> neigh_wf n2)"
    using estimate_round_wf [OF n1(2)] n1(3) by (intro allI impI) simp
  with n1 none show ?thesis by (intro exI [of _ n1] conjI) assumption+
qed

lemma measurement_round_in_bounds_witness:
  "\<exists>n1. delay_vector_add 1000 (sample_neigh 5) = Some n1 \<and> neigh_wf n1"
  using measurement_round_in_bounds [of "sample_neigh 5" 1000] by auto

text \<open>
  C40: the WCIM metric takes an overloaded neighbourhood for a free one. When the 8-bit sum of the
  loads around the link is above 100 percent, the bandwidth that is left is negative, and what is
  compared with the rate of the flow, and divided by, is its low 16 bits. An excess of at least 1 kb/s
  that, with the rate of the flow, stays below 65536 kb/s leaves a large number there: the request is
  let through and made cheap. (The link has rates, the class of the flow is known, and the bandwidth
  does not leave the \<open>int\<close> it is computed in.)
\<close>

theorem wcim_metric_overload:
  assumes "ng_recv_rate n \<noteq> 0" "ng_send_rate n \<noteq> 0" "ng_etx_metric n \<noteq> 0"
    and "find_flow_type (rq_tos r) s = Some flow"
    and "bw = uint (ng_recv_rate n) * uint (ng_etx_metric n) * uint (compute_coef (fl_avg_size flow) (ng_recv_rate n))"
    and "bw < 2 ^ 31" and "100 < uint (wcim_load n s)"
    and "over = (bw div 100) mod 65536 * (uint (wcim_load n s) - 100) div 100"
  shows "wcim_metric n r s =
       (if (- over) mod 65536 \<le> uint (fl_avg_rate flow) then Some (1, r)
        else Some (0, r\<lparr>rq_path_metric := rq_path_metric r
               + of_nat (unat (fl_avg_size flow) * 8000 div nat ((- over) mod 65536))\<rparr>))
     \<and> (1 \<le> over \<and> over + uint (fl_avg_rate flow) < 65536 \<longrightarrow>
          wcim_metric n r s = Some (0, r\<lparr>rq_path_metric := rq_path_metric r
               + of_nat (unat (fl_avg_size flow) * 8000 div (65536 - nat over))\<rparr>))"
proof -
  let ?l = "uint (wcim_load n s)"
  let ?b = "(bw div 100) mod 65536"
  let ?left = "of_int (- over) :: u16"
  have ub: "uint (of_int (bw div 100) :: u16) = ?b" by (simp add: uint_word_of_int_eq take_bit_eq_mod)
  have b0: "0 \<le> ?b" by simp
  have c: "cdiv (?b * (100 - ?l)) 100 = - over"
  proof -
    have neg: "?b * (100 - ?l) = - (?b * (?l - 100))" by (simp add: algebra_simps)
    have "0 \<le> ?b * (?l - 100)" using assms(7) b0 by simp
    then show ?thesis unfolding neg cdiv_def assms(8) by auto
  qed
  have u: "uint ?left = (- over) mod 65536"
    using uint_word_of_int [of "- over", where ?'a = 16] by (simp del: of_int_minus)
  have un: "unat ?left = nat ((- over) mod 65536)" using u by (simp add: unat_eq_nat_uint)
  have w: "wcim_metric n r s =
      (if ?left \<le> fl_avg_rate flow then Some (1, r)
       else Some (0, r\<lparr>rq_path_metric := rq_path_metric r + of_nat (unat (fl_avg_size flow) * 8000 div unat ?left)\<rparr>))"
    using assms(1-4,6) unfolding wcim_metric_def
    by (simp add: Let_def ub c del: of_int_minus flip: assms(5))
  have r: "wcim_metric n r s =
       (if (- over) mod 65536 \<le> uint (fl_avg_rate flow) then Some (1, r)
        else Some (0, r\<lparr>rq_path_metric := rq_path_metric r
               + of_nat (unat (fl_avg_size flow) * 8000 div nat ((- over) mod 65536))\<rparr>))"
    unfolding w un word_le_def u ..
  have m: "(- over) mod 65536 = 65536 - over" if "1 \<le> over" "over + uint (fl_avg_rate flow) < 65536"
  proof -
    have "0 \<le> uint (fl_avg_rate flow)" by simp
    then have "(- over + 65536) mod 65536 = - over + 65536" using that by (intro mod_pos_pos_trivial) linarith+
    then show ?thesis by simp
  qed
  show ?thesis
  proof (intro conjI impI, rule r)
    assume o: "1 \<le> over \<and> over + uint (fl_avg_rate flow) < 65536"
    moreover have "0 \<le> uint (fl_avg_rate flow)" by simp
    ultimately have "0 \<le> over" "over \<le> 65536" by linarith+
    then have "nat (65536 - over) = 65536 - nat over" by (simp add: nat_diff_distrib)
    with o m show "wcim_metric n r s = Some (0, r\<lparr>rq_path_metric := rq_path_metric r
               + of_nat (unat (fl_avg_size flow) * 8000 div (65536 - nat over))\<rparr>)"
      unfolding r by simp
  qed
qed

text \<open>A link of 54 Mb/s without loss, in a neighbourhood with a load of 155 percent.\<close>

definition sample_rreq :: "u8 \<Rightarrow> rreq" where
  "sample_rreq tos =
     \<lparr>rq_type = RREQ_MESSAGE, rq_reserved = 0, rq_u = False, rq_d = False, rq_g = False, rq_r = False, rq_j = False,
      rq_tos = tos, rq_num_hops = 1, rq_gateway = 5, rq_dst_ip = 9, rq_src_ip = 5, rq_dst_id = 7, rq_path_metric = 2,
      rq_dttl = 15\<rparr>"

definition sample_loaded :: node where
  "sample_loaded = sample_mesh\<lparr>mesh_load := 155, flow_type_table := [\<lparr>fl_tos = 2, fl_avg_size = 1472, fl_avg_rate = 100\<rparr>]\<rparr>"

lemma wcim_metric_overload_witness:
  "\<exists>r'. wcim_metric ((sample_neigh 5)\<lparr>ng_recv_rate := 540, ng_etx_metric := 100\<rparr>) (sample_rreq 2) sample_loaded = Some (0, r')"
proof -
  let ?n = "(sample_neigh 5)\<lparr>ng_recv_rate := 540, ng_etx_metric := 100\<rparr>"
  have coef: "compute_coef 1472 540 = 62" by (simp add: compute_coef_def Let_def)
  have l: "wcim_load ?n sample_loaded = 155"
    by (simp add: wcim_load_def sample_loaded_def sample_neigh_def Let_def)
  have "wcim_metric ?n (sample_rreq 2) sample_loaded = Some (0, (sample_rreq 2)\<lparr>rq_path_metric := rq_path_metric (sample_rreq 2)
               + of_nat (unat (fl_avg_size \<lparr>fl_tos = 2, fl_avg_size = 1472, fl_avg_rate = 100\<rparr>) * 8000 div (65536 - nat 18414))\<rparr>)"
    by (rule wcim_metric_overload [where flow = "\<lparr>fl_tos = 2, fl_avg_size = 1472, fl_avg_rate = 100\<rparr>"
          and bw = 3348000 and over = 18414, THEN conjunct2, THEN mp])
      (simp_all add: l, simp_all add: coef sample_neigh_def sample_rreq_def sample_loaded_def find_flow_type_def)
  then show ?thesis by blast
qed

end
