(* ===== verification/Rreq.thy ===== *)
theory Rreq
  imports Ett
begin

text \<open>
  Route requests: \<open>rreq.c\<close>, and the gateways' periodic ST-RREQ of \<open>st_rreq.c\<close>. A request sets up
  the reverse route and travels on, or starts the timer of the reply at its destination.
  A fault (\<open>None\<close>) is one of the metric (\<open>wcim_metric\<close>, \<open>compute_load\<close>) or a lost local route.
\<close>

section \<open>The local route\<close>

definition route_at :: "nat \<Rightarrow> node \<Rightarrow> aodv_route option" where
  "route_at a s = List.find (\<lambda>r. rt_addr r = a) (route_table s)"

text \<open>\<open>g_local_route->dst_id = g_local_route->dst_id + 1\<close>, and the new number.\<close>

definition next_dst_id :: "node \<Rightarrow> (u32 \<times> node) option" where
  "next_dst_id s =
     map_option (\<lambda>r. (rt_dst_id r + 1, set_route (local_route s) (\<lambda>r. r\<lparr>rt_dst_id := rt_dst_id r + 1\<rparr>) s))
       (route_at (local_route s) s)"

section \<open>RREQ\<close>

definition convert_rreq_to_host :: "rreq \<Rightarrow> rreq" where
  "convert_rreq_to_host r = r\<lparr>rq_dst_id := ntohl (rq_dst_id r), rq_path_metric := ntohl (rq_path_metric r)\<rparr>"

definition convert_rreq_to_network :: "rreq \<Rightarrow> rreq" where
  "convert_rreq_to_network r = r\<lparr>rq_dst_id := htonl (rq_dst_id r), rq_path_metric := htonl (rq_path_metric r)\<rparr>"

definition rreq_metric :: "aodv_neigh \<Rightarrow> rreq \<Rightarrow> node \<Rightarrow> (int \<times> rreq) option" where
  "rreq_metric n r s =
     (if metric s = ETT then Some (ett_metric n r)
      else if metric s = WCIM then wcim_metric n r s
      else Some (0, r\<lparr>rq_path_metric := ucast (rq_num_hops r)\<rparr>))"

definition forward_rreq :: "u8 \<Rightarrow> rreq \<Rightarrow> node \<Rightarrow> node" where
  "forward_rreq ttl r s =
     (let tell = dtn_register s \<and> rq_dttl r \<ge> 1;
          s = (if tell then send2dtn (rq_src_ip r, ucast (rq_tos r), 0, 0) DTN_LOCATION_PORT s else s);
          r = (if tell then r\<lparr>rq_dttl := rq_dttl r - 1\<rparr> else r)
      in snd (local_broadcast (ttl - 1) (M_RREQ (convert_rreq_to_network r)) s))"

definition schedule_rrep :: "rreq \<Rightarrow> node \<Rightarrow> node" where
  "schedule_rrep r s =
     (if \<not> find_timer (rq_src_ip r) (rq_dst_ip r) (rq_tos r) TASK_SEND_RREP s
      then update_timer_queue
             (snd (insert_timer_directional TASK_SEND_RREP RREP_TIMER 0 (rq_src_ip r) (rq_dst_ip r) (rq_tos r) s))
      else s)"

text \<open>\<open>ETIMEDOUT\<close> is 110.\<close>

definition recv_rreq :: "u32 \<Rightarrow> u8 \<Rightarrow> rreq \<Rightarrow> node \<Rightarrow> (int \<times> node) option" where
  "recv_rreq packet_src ttl tmp_rreq s =
     (let r = convert_rreq_to_host tmp_rreq;
          iam_destination = rq_dst_ip r = mesh_ip s \<or> rq_gateway r = mesh_ip s
      in if ttl \<le> 1 \<and> \<not> iam_destination then Some (-110, s)
         else
           (case find_aodv_neigh packet_src s of
              None \<Rightarrow> Some (1, s)
            | Some n \<Rightarrow>
                let s = update_neigh_timelife packet_src s in
                if mesh_ip s = rq_src_ip r then Some (1, s)
                else if is_gateway s \<and> rq_dst_ip r = null_ip s \<and> rq_gateway r \<noteq> mesh_ip s then Some (1, s)
                else do {
                  (error, r) \<leftarrow> rreq_metric n (r\<lparr>rq_num_hops := rq_num_hops r + 1\<rparr>) s;
                  if error \<noteq> 0 then Some (1, s)
                  else do {
                    (taken, s) \<leftarrow> rreq_aodv_route (rq_dst_ip r) (rq_src_ip r) (rq_tos r) n (rq_num_hops r)
                                   (rq_dst_id r) (rq_path_metric r) s;
                    if taken = 0 then Some (1, s)
                    else Some (0, if iam_destination then schedule_rrep r s else forward_rreq ttl r s)
                  }
                }))"

definition new_rreq :: "u32 \<Rightarrow> u32 \<Rightarrow> u8 \<Rightarrow> u8 \<Rightarrow> u32 \<Rightarrow> node \<Rightarrow> rreq" where
  "new_rreq src_ip dst_ip tos dttl dst_id s =
     \<lparr>rq_type = RREQ_MESSAGE, rq_reserved = 0, rq_u = False, rq_d = True, rq_g = False, rq_r = False, rq_j = False,
      rq_tos = tos, rq_num_hops = 0, rq_gateway = (if dst_ip = null_ip s then default_gw s else null_ip s),
      rq_dst_ip = dst_ip, rq_src_ip = src_ip, rq_dst_id = dst_id, rq_path_metric = 0, rq_dttl = dttl\<rparr>"

text \<open>\<open>resend_rreq\<close> returns 0, \<open>gen_rreq\<close> returns 1.\<close>

definition resend_rreq :: "task \<Rightarrow> node \<Rightarrow> node option" where
  "resend_rreq p s =
     (if tk_retries p = 0 then ipq_drop_ip (tk_src_ip p) (tk_dst_ip p) (tk_tos p) s
      else
        (case kmalloc s of
           (None, s) \<Rightarrow> Some s
         | (Some _, s) \<Rightarrow> do {
             (dst_id, s) \<leftarrow> next_dst_id s;
             let out_rreq = new_rreq (tk_src_ip p) (tk_dst_ip p) (tk_tos p) 0 dst_id s;
             let s = snd (local_broadcast NET_DIAMETER (M_RREQ (convert_rreq_to_network out_rreq)) s);
             let s = snd (insert_timer_directional TASK_RESEND_RREQ 0 (ucast (tk_retries p - 1)) (tk_src_ip p)
                            (tk_dst_ip p) (tk_tos p) s);
             Some (update_timer_queue s)
           }))"

definition gen_rreq :: "u32 \<Rightarrow> u32 \<Rightarrow> u8 \<Rightarrow> node \<Rightarrow> node option" where
  "gen_rreq src_ip dst_ip tos s =
     (let dttl = (if dst_ip = dtn_hello_ip (cfg s) then DTTL else 0) in
      case kmalloc s of
        (None, s) \<Rightarrow> Some s
      | (Some _, s) \<Rightarrow> do {
          (dst_id, s) \<leftarrow> next_dst_id s;
          let out_rreq = new_rreq src_ip dst_ip tos dttl dst_id s;
          let s = snd (local_broadcast NET_DIAMETER (M_RREQ (convert_rreq_to_network out_rreq)) s);
          let s = snd (insert_timer_directional TASK_RESEND_RREQ 0 RREQ_RETRIES src_ip dst_ip tos s);
          Some (update_timer_queue s)
        })"

section \<open>ST-RREQ\<close>

definition convert_rreq_to_host_st :: "rreq_st \<Rightarrow> rreq_st" where
  "convert_rreq_to_host_st r = r\<lparr>gs_dst_id := ntohl (gs_dst_id r), gs_path_metric := ntohl (gs_path_metric r)\<rparr>"

definition convert_rreq_to_network_st :: "rreq_st \<Rightarrow> rreq_st" where
  "convert_rreq_to_network_st r = r\<lparr>gs_dst_id := htonl (gs_dst_id r), gs_path_metric := htonl (gs_path_metric r)\<rparr>"

text \<open>\<open>EHOSTUNREACH\<close> is 113; \<open>dttl\<close> of the message is not set.\<close>

definition gen_st_rreq :: "node \<Rightarrow> int \<times> node" where
  "gen_st_rreq s =
     (if \<not> is_gateway s then (0, s)
      else
        (case kmalloc s of
           (None, s) \<Rightarrow> (0, s)
         | (Some _, s) \<Rightarrow>
             (case find_aodv_route (mesh_ip s) (mesh_ip s) 0 s of
                None \<Rightarrow> (-113, s)
              | Some r \<Rightarrow>
                  let s = set_route (rt_addr r) (\<lambda>r. r\<lparr>rt_dst_id := rt_dst_id r + 1\<rparr>) s;
                      out_rreq = \<lparr>gs_type = ST_RREQ_MESSAGE, gs_reserved = 1, gs_u = True, gs_d = True, gs_g = False,
                         gs_r = False, gs_j = False, gs_second_reserved = 0, gs_num_hops = 0, gs_gw_ip = mesh_ip s,
                         gs_dst_id = rt_dst_id r + 1, gs_path_metric = 0, gs_dttl = ucast (junk (cfg s))\<rparr>;
                      s = snd (local_broadcast NET_DIAMETER (M_STRREQ (convert_rreq_to_network_st out_rreq)) s);
                      s = snd (insert_timer_simple TASK_ST ST_INTERVAL (mesh_ip s) s)
                  in (0, update_timer_queue s))))"

definition st_metric :: "aodv_neigh \<Rightarrow> rreq_st \<Rightarrow> node \<Rightarrow> rreq_st option" where
  "st_metric n r s =
     (if metric s = HOPS then Some (r\<lparr>gs_path_metric := ucast (gs_num_hops r)\<rparr>)
      else if ng_recv_rate n = 0 \<or> ng_send_rate n = 0 \<or> ng_etx_metric n = 0 then None
      else Some (r\<lparr>gs_path_metric := gs_path_metric r
                    + of_nat (11776 * 1000 div (unat (ng_recv_rate n) * unat (ng_etx_metric n)))\<rparr>))"

definition recv_rreq_st :: "u32 \<Rightarrow> u8 \<Rightarrow> rreq_st \<Rightarrow> node \<Rightarrow> int \<times> node" where
  "recv_rreq_st packet_src ttl tmp_rreq s =
     (let r = convert_rreq_to_host_st tmp_rreq in
      case find_aodv_neigh packet_src s of
        None \<Rightarrow> (1, s)
      | Some n \<Rightarrow>
          let s = update_neigh_timelife packet_src s in
          if mesh_ip s = gs_gw_ip r then (1, s)
          else
            (case st_metric n (r\<lparr>gs_num_hops := gs_num_hops r + 1\<rparr>) s of
               None \<Rightarrow> (1, s)
             | Some r \<Rightarrow>
                 (case update_gw (gs_gw_ip r) (gs_dst_id r) (gs_num_hops r) (gs_path_metric r) s of
                    (taken, s) \<Rightarrow>
                      if taken \<noteq> 0
                      then (0, snd (local_broadcast (ttl - 1) (M_STRREQ (convert_rreq_to_network_st r)) s))
                      else (1, s))))"

section \<open>The handlers keep the invariant\<close>

lemma evolve_next_id [evolve]: "evolves a s \<Longrightarrow> evolves_to a (next_dst_id s)"
  unfolding next_dst_id_def by (cases "route_at (local_route s) s") (simp_all add: evolve_set_route)

lemma rreq_write_keys [simp]:
  "rt_dst_ip (rreq_write n h d p s r) = rt_dst_ip r" "rt_addr (rreq_write n h d p s r) = rt_addr r"
  "rt_self_route (rreq_write n h d p s r) = rt_self_route r" "rt_tos (rreq_write n h d p s r) = rt_tos r"
  by (simp_all add: rreq_write_def)

lemma evolve_rreq_finish [evolve]: "evolves a s \<Longrightarrow> evolves_to a (rreq_finish r p n h d m s)"
  unfolding rreq_finish_def Let_def by (intro evolve evolve_vcg) (assumption | simp)+

lemma evolve_rreq_route [evolve]:
  assumes "evolves a s"
  shows "evolves_to a (rreq_aodv_route b c d n h i m s)"
  unfolding rreq_aodv_route_def split_beta
  by (intro evolve evolve_vcg) (auto simp: assms evolve split: option.split intro!: evolve)

lemma evolve_rrep_route [evolve]: "evolves a s \<Longrightarrow> evolves_to a (rrep_aodv_route r s)"
  unfolding rrep_aodv_route_def split_beta Let_def by (intro evolve evolve_vcg) (assumption | simp)+

lemma evolve_forward [evolve]: "evolves a s \<Longrightarrow> evolves a (forward_rreq ttl r s)"
  unfolding forward_rreq_def Let_def by (intro evolve evolve_vcg) assumption+

lemma evolve_schedule [evolve]: "evolves a s \<Longrightarrow> evolves a (schedule_rrep r s)"
  unfolding schedule_rrep_def by (intro evolve evolve_vcg) assumption+

lemma evolve_recv_rreq [evolve]: "evolves a s \<Longrightarrow> evolves_to a (recv_rreq src ttl m s)"
  unfolding recv_rreq_def Let_def split_beta
  by (intro evolve_flow(2,5) evolve_some evolve_read evolve_bind(1) [OF evolve_rreq_route] evolve_timelife)
    (auto intro: evolve)

lemma evolve_resend [evolve]: "evolves a s \<Longrightarrow> opt_ok (evolves a) (resend_rreq p s)"
  unfolding resend_rreq_def Let_def split_beta by (intro evolve evolve_vcg) (auto intro: evolve)

lemma evolve_gen_rreq [evolve]: "evolves a s \<Longrightarrow> opt_ok (evolves a) (gen_rreq b c d s)"
  unfolding gen_rreq_def Let_def split_beta by (intro evolve evolve_vcg) (auto intro: evolve)

lemma evolve_gen_st [evolve]: "evolves a s \<Longrightarrow> evolves a (snd (gen_st_rreq s))"
  unfolding gen_st_rreq_def Let_def split_beta by (intro evolve evolve_vcg) (assumption | simp)+

lemma evolve_recv_st [evolve]: "evolves a s \<Longrightarrow> evolves a (snd (recv_rreq_st src ttl m s))"
  unfolding recv_rreq_st_def Let_def split_beta by (intro evolve evolve_vcg) (assumption | simp)+

section \<open>The local route is there\<close>

lemma local_ok_next_id: "local_ok s \<Longrightarrow> next_dst_id s \<noteq> None"
  by (auto simp: local_ok_def next_dst_id_def route_at_def find_None_iff)

lemma local_ok_kmalloc: "kmalloc s = (x, u) \<Longrightarrow> local_ok u = local_ok s"
  by (drule kmalloc_simps) (simp add: local_ok_def)

text \<open>The source of a request needs nothing but the local route, and to give up the packet queue.\<close>

lemma discovery_no_fault:
  assumes "local_ok s"
  shows "gen_rreq b c d s \<noteq> None" "resend_rreq p s = None \<longleftrightarrow> tk_retries p = 0 \<and> ipq s = None"
proof -
  obtain x u where u: "kmalloc s = (x, u)" by fastforce
  with assms local_ok_kmalloc obtain y where "next_dst_id u = Some y" using local_ok_next_id by blast
  with u show "gen_rreq b c d s \<noteq> None" "resend_rreq p s = None \<longleftrightarrow> tk_retries p = 0 \<and> ipq s = None"
    by (auto simp: gen_rreq_def resend_rreq_def Let_def split_beta ipq_drop_ip_None split: option.split)
qed

section \<open>The reverse route\<close>

text \<open>The route of a source, destination and ToS is in use through a hop, with these figures.\<close>

definition routed_via :: "u32 \<Rightarrow> u32 \<Rightarrow> u8 \<Rightarrow> u32 \<Rightarrow> u8 \<Rightarrow> u32 \<Rightarrow> u32 \<Rightarrow> node \<Rightarrow> bool" where
  "routed_via src_ip dst_ip tos hop hops dst_id path_metric s \<longleftrightarrow>
     (case find_aodv_route src_ip dst_ip tos s of
        None \<Rightarrow> False
      | Some r \<Rightarrow> rt_next_hop r = hop \<and> rt_num_hops r = hops \<and> rt_dst_id r = dst_id
          \<and> rt_path_metric r = path_metric \<and> rt_state r = ACTIVE)"

lemma routed_via_cong:
  "route_table s' = route_table s \<Longrightarrow> routed_via a b c d e f g s' = routed_via a b c d e f g s"
  by (simp add: routed_via_def find_aodv_route_cong [of s' s])

lemma rreq_finish_routed:
  assumes "routes_ok s" and "find_aodv_route src_ip dst_ip tos s = Some r"
    and "rreq_finish r p n h i m s = Some (rc, s')"
  shows "routed_via src_ip dst_ip tos (ng_ip n) h i m s' \<and> rc = 1"
proof -
  let ?r = "rreq_write n h i m s r"
  let ?s = "set_route (rt_addr r) (rreq_write n h i m s) s"
  have s: "find_aodv_route src_ip dst_ip tos ?s = Some ?r" "routes_ok ?s"
    using find_set_route [OF assms(1,2), of "rreq_write n h i m s"] set_route_ok [OF assms(1)] by simp_all
  have v: "routed_via src_ip dst_ip tos (ng_ip n) h i m ?s" using s(1) by (simp add: routed_via_def rreq_write_def)
  have l: "routed_via src_ip dst_ip tos (ng_ip n) h i m (set_route (rt_addr r) (\<lambda>r. r\<lparr>rt_load := x\<rparr>) ?s)" for x
    using find_set_route [OF s(2,1), of "\<lambda>r. r\<lparr>rt_load := x\<rparr>"] by (simp add: routed_via_def rreq_write_def)
  have u: "routed_via src_ip dst_ip tos (ng_ip n) h i m (update_my_load t) = routed_via src_ip dst_ip tos (ng_ip n) h i m t" for t
    by (rule routed_via_cong) simp
  show ?thesis using assms(3) v l u by (auto simp: rreq_finish_def Let_def split: if_splits option.splits)
qed

lemma find_insert_route:
  "\<forall>x\<in>set xs. \<not> P x \<Longrightarrow> P r \<Longrightarrow> List.find P (insert_route r xs) = Some r"
  by (induction xs) auto

lemma create_aodv_route_found:
  assumes "routes_ok s" and "find_aodv_route src_ip dst_ip tos s = None"
    and "create_aodv_route src_ip dst_ip tos i s = (Some r, s')"
  shows "find_aodv_route src_ip dst_ip tos s' = Some r \<and> routes_ok s'"
proof -
  have ok: "routes_ok s'" using create_aodv_route_ok [OF assms(1)] assms(3) by (metis snd_conv)
  have "\<forall>x\<in>set (route_table s). \<not> (rt_dst_ip x = dst_ip \<and> rt_src_ip x = src_ip \<and> rt_tos x = tos)"
    using assms(1,2) by (simp add: find_aodv_route_iff find_None_iff)
  with assms(3) have "List.find (\<lambda>r. rt_dst_ip r = dst_ip \<and> rt_src_ip r = src_ip \<and> rt_tos r = tos) (route_table s') = Some r"
    by (auto simp: create_aodv_route_eq find_insert_route new_route_def split: if_splits)
  with ok show ?thesis by (simp add: find_aodv_route_iff)
qed

lemma rreq_aodv_route_taken:
  assumes "routes_ok s" and "rreq_aodv_route src_ip dst_ip tos n h i m s = Some (rc, s')" and "rc \<noteq> 0"
  shows "routed_via src_ip dst_ip tos (ng_ip n) h i m s'"
proof (cases "find_aodv_route src_ip dst_ip tos s")
  case None
  obtain ro s1 where c: "create_aodv_route src_ip dst_ip tos i s = (ro, s1)" by fastforce
  with None assms obtain r where ro: "ro = Some r" by (cases ro) (auto simp: rreq_aodv_route_def)
  note f = create_aodv_route_found [OF assms(1) None c [unfolded ro]]
  obtain eo s2 where e: "(case find_src_list_entry src_ip s1 of Some e \<Rightarrow> (Some e, s1)
      | None \<Rightarrow> insert_src_list_entry src_ip s1) = (eo, s2)" by fastforce
  have s2: "route_table s2 = route_table s1" "allocs s1 \<le> allocs s2"
    using e by (auto split: option.splits dest: insert_src_list_entry_D)
  let ?s = "set_num_routes src_ip (\<lambda>n. n + 1) s2"
  have "routes_ok ?s" "find_aodv_route src_ip dst_ip tos ?s = Some r"
    using f s2 by (auto elim: routes_ok_cong [rotated 2] simp: find_aodv_route_cong [of ?s s1])
  moreover from None c ro e assms(2,3) have "rreq_finish r INVALID n h i m ?s = Some (rc, s')"
    by (cases eo) (simp_all add: rreq_aodv_route_def)
  ultimately show ?thesis using rreq_finish_routed by blast
next
  case (Some r)
  obtain x s1 where d: "rpdb_route False 0 (rt_tos r) (rt_src_ip r) (rt_dst_ip r) (rt_next_hop r)
      (dev_index (cfg s)) (uint (rt_num_hops r)) s = (x, s1)" by fastforce
  have "routes_ok s1" "find_aodv_route src_ip dst_ip tos s1 = Some r"
    using rpdb_route_D [OF d] assms(1) Some by (auto elim: routes_ok_cong [rotated 2] simp: find_aodv_route_cong [of s1 s])
  with Some d assms rreq_finish_routed [of s src_ip dst_ip tos r] rreq_finish_routed [of s1 src_ip dst_ip tos r]
  show ?thesis by (auto simp: rreq_aodv_route_def split: if_splits)
qed

lemma rreq_metric_keeps:
  "rreq_metric n r s = Some (e, r') \<Longrightarrow> \<exists>m. r' = r\<lparr>rq_path_metric := m\<rparr>"
  by (auto simp: rreq_metric_def ett_metric_def wcim_metric_def Let_def intro: exI [of _ "rq_path_metric r"]
      split: if_splits bind_splits)

lemma timelife_routes [simp]: "route_table (update_neigh_timelife ip s) = route_table s"
  "cfg (update_neigh_timelife ip s) = cfg s" "out (update_neigh_timelife ip s) = out s"
  "dtn_register (update_neigh_timelife ip s) = dtn_register s"
  by (simp_all add: update_neigh_timelife_def set_neigh_def Let_def)

lemma timelife_routes_ok: "routes_ok s \<Longrightarrow> routes_ok (update_neigh_timelife ip s)"
  by (rule routes_ok_cong) (simp_all add: update_neigh_timelife_def set_neigh_def Let_def)

lemma recv_rreq_outcome:
  assumes "recv_rreq packet_src ttl m s = Some (rc, s')"
  obtains (ignored) "rc \<noteq> 0" "s' = s \<or> s' = update_neigh_timelife packet_src s"
  | (refused) n and r :: rreq where "rc = 1" "find_aodv_neigh packet_src s = Some n"
      "rreq_aodv_route (rq_dst_ip r) (rq_src_ip r) (rq_tos r) n (rq_num_hops r) (rq_dst_id r) (rq_path_metric r)
         (update_neigh_timelife packet_src s) = Some (0, s')"
  | (taken) n p x t and r :: rreq where "rc = 0" "find_aodv_neigh packet_src s = Some n" "rq_src_ip m \<noteq> mesh_ip s"
      "r = (convert_rreq_to_host m)\<lparr>rq_num_hops := rq_num_hops m + 1, rq_path_metric := p\<rparr>" "x \<noteq> 0"
      "rreq_aodv_route (rq_dst_ip m) (rq_src_ip m) (rq_tos m) n (rq_num_hops m + 1) (ntohl (rq_dst_id m)) p
         (update_neigh_timelife packet_src s) = Some (x, t)"
      "s' = (if rq_dst_ip m = mesh_ip s \<or> rq_gateway m = mesh_ip s then schedule_rrep r t else forward_rreq ttl r t)"
      "1 < ttl \<or> rq_dst_ip m = mesh_ip s \<or> rq_gateway m = mesh_ip s"
proof -
  let ?r = "convert_rreq_to_host m"
  let ?u = "update_neigh_timelife packet_src s"
  have h: "rq_dst_ip ?r = rq_dst_ip m" "rq_src_ip ?r = rq_src_ip m" "rq_tos ?r = rq_tos m" "rq_gateway ?r = rq_gateway m"
    "rq_num_hops ?r = rq_num_hops m" "rq_dst_id ?r = ntohl (rq_dst_id m)"
    by (simp_all add: convert_rreq_to_host_def)
  show ?thesis
  proof (cases "ttl \<le> 1 \<and> \<not> (rq_dst_ip m = mesh_ip s \<or> rq_gateway m = mesh_ip s) \<or> find_aodv_neigh packet_src s = None
      \<or> mesh_ip s = rq_src_ip m \<or> (is_gateway s \<and> rq_dst_ip m = null_ip s \<and> rq_gateway m \<noteq> mesh_ip s)")
    case True
    then have "rc \<noteq> 0 \<and> (s' = s \<or> s' = ?u)"
      using assms by (auto simp: recv_rreq_def h Let_def split: if_splits option.splits)
    with ignored show ?thesis by blast
  next
    case False
    then obtain n where n: "find_aodv_neigh packet_src s = Some n" by auto
    from False n assms obtain e r where e: "rreq_metric n (?r\<lparr>rq_num_hops := rq_num_hops m + 1\<rparr>) ?u = Some (e, r)"
      by (auto simp: recv_rreq_def h Let_def split: bind_splits)
    obtain p where r: "r = ?r\<lparr>rq_num_hops := rq_num_hops m + 1, rq_path_metric := p\<rparr>" using rreq_metric_keeps [OF e] by auto
    show ?thesis
    proof (cases "e = 0")
      case e0: False
      with False n e assms have "rc = 1" "s' = ?u" by (auto simp: recv_rreq_def h Let_def)
      with ignored show ?thesis by simp
    next
      case e0: True
      with False n e r assms obtain x t where x: "rreq_aodv_route (rq_dst_ip m) (rq_src_ip m) (rq_tos m) n
          (rq_num_hops m + 1) (ntohl (rq_dst_id m)) p ?u = Some (x, t)"
        by (auto simp: recv_rreq_def h Let_def split: bind_splits)
      show ?thesis
      proof (cases "x = 0")
        case True
        with False n e r e0 x assms have "rc = 1" "s' = t" by (auto simp: recv_rreq_def h Let_def)
        with x True n refused [of n r] show ?thesis by (simp add: r h)
      next
        case x0: False
        with False n e r e0 x assms have "rc = 0"
          "s' = (if rq_dst_ip m = mesh_ip s \<or> rq_gateway m = mesh_ip s then schedule_rrep r t else forward_rreq ttl r t)"
          by (auto simp: recv_rreq_def h Let_def)
        show ?thesis
          by (rule taken [of n r p x t]) (use \<open>rc = 0\<close> \<open>s' = _\<close> False n x0 x r in auto)
      qed
    qed
  qed
qed

lemma schedule_routes [simp]: "route_table (schedule_rrep r s) = route_table s" "out (schedule_rrep r s) = out s"
  by (simp_all add: schedule_rrep_def)

lemma forward_routes [simp]: "route_table (forward_rreq ttl r s) = route_table s"
  by (simp add: forward_rreq_def Let_def)

text \<open>
  C4: a request that is taken in leaves the reverse route: the route from the destination
  back to the source of the request, in the request's ToS, is active over the neighbour the
  packet came from, with one hop more than the message said and the message's sequence number.
  It was not the node's own request, and its TTL allowed it.
\<close>

theorem recv_rreq_reverse_route:
  assumes "routes_ok s" and "recv_rreq packet_src ttl m s = Some (0, s')"
  shows "\<exists>n p. find_aodv_neigh packet_src s = Some n \<and> rq_src_ip m \<noteq> mesh_ip s
           \<and> (1 < ttl \<or> rq_dst_ip m = mesh_ip s \<or> rq_gateway m = mesh_ip s)
           \<and> routed_via (rq_dst_ip m) (rq_src_ip m) (rq_tos m) (ng_ip n) (rq_num_hops m + 1) (ntohl (rq_dst_id m)) p s'"
  using assms(2)
proof (cases rule: recv_rreq_outcome)
  case (taken n p x t r)
  have "routed_via (rq_dst_ip m) (rq_src_ip m) (rq_tos m) (ng_ip n) (rq_num_hops m + 1) (ntohl (rq_dst_id m)) p t"
    by (rule rreq_aodv_route_taken [OF timelife_routes_ok [OF assms(1)] taken(6,5)])
  moreover have "route_table s' = route_table t" unfolding taken(7) by simp
  ultimately show ?thesis using taken(2,3,8) routed_via_cong by blast
qed simp_all

section \<open>What a request makes the node send\<close>

definition messages :: "node \<Rightarrow> effect list" where
  "messages s = filter (\<lambda>e. case e of Bcast _ _ \<Rightarrow> True | Ucast _ _ _ \<Rightarrow> True | _ \<Rightarrow> False) (out s)"

lemma messages_cong: "out s' = out s \<Longrightarrow> messages s' = messages s"
  by (simp add: messages_def)

lemma messages_prims [simp]:
  "messages (snd (rpdb_route b c d e f g h i s)) = messages s" "messages (snd (rpdb_rule b2 c2 d2 e2 s)) = messages s"
  "messages (set_num_routes ip fn s) = messages s" "messages (set_route a w s) = messages s"
  "messages (update_my_load s) = messages s" "messages (s\<lparr>allocs := k\<rparr>) = messages s"
  "messages (s\<lparr>src_list := l\<rparr>) = messages s" "messages (snd (create_aodv_route c3 d3 e3 f3 s)) = messages s"
  by (simp_all add: messages_def rpdb_route_def rpdb_rule_def emit_def Let_def create_aodv_route_eq
      set_num_routes_def set_route_def update_my_load_def)

lemma messages_insert_src [simp]: "messages (snd (insert_src_list_entry ip s)) = messages s"
  by (auto simp: insert_src_list_entry_def kmalloc_def split_beta Let_def split: option.split)

lemma messages_finish: "rreq_finish r p n h i m s = Some (rc, s') \<Longrightarrow> messages s' = messages s"
  by (auto simp: rreq_finish_def Let_def split: if_splits option.splits)

lemma messages_rreq_route:
  assumes "rreq_aodv_route a b c n h i m s = Some (rc, s')"
  shows "messages s' = messages s"
proof -
  have e: "messages (snd (case find_src_list_entry a t of Some e \<Rightarrow> (Some e, t) | None \<Rightarrow> insert_src_list_entry a t)) = messages t" for t
    by (simp split: option.split)
  have c: "create_aodv_route a b c i s = (r, t) \<Longrightarrow> messages t = messages s" for r t
    using messages_prims(8) [of a b c i s] by simp
  have k: "rpdb_route False 0 d e f g h j s = (r, t) \<Longrightarrow> messages t = messages s" for d e f g h j r t
    using messages_prims(1) [of False 0 d e f g h j s] by simp
  show ?thesis
  proof (cases "find_aodv_route a b c s")
    case None
    obtain ro t where t: "create_aodv_route a b c i s = (ro, t)" by fastforce
    obtain eo u where u: "(case find_src_list_entry a t of Some e \<Rightarrow> (Some e, t) | None \<Rightarrow> insert_src_list_entry a t) = (eo, u)"
      by fastforce
    have "messages u = messages s" using e [of t] c [OF t] u by simp
    with None t u assms c [OF t] show ?thesis
      by (auto simp: rreq_aodv_route_def split: option.splits dest: messages_finish)
  next
    case (Some r)
    with assms show ?thesis
      by (auto simp: rreq_aodv_route_def split: if_splits prod.splits dest!: messages_finish k)
  qed
qed

lemma messages_schedule [simp]: "messages (schedule_rrep r s) = messages s"
  by (rule messages_cong) simp

lemma messages_broadcast:
  "messages (snd (local_broadcast ttl m s)) = messages s \<or>
     ttl \<noteq> 0 \<and> messages (snd (local_broadcast ttl m s)) = messages s @ [Bcast ttl m]"
  by (auto simp: local_broadcast_def messages_def out_sendmsg)

lemma messages_send2dtn [simp]: "messages (send2dtn p port s) = messages s"
  by (cases p) (simp add: send2dtn_def messages_def out_sendmsg)

definition passed_on :: "rreq \<Rightarrow> rreq \<Rightarrow> bool" where
  "passed_on m q \<longleftrightarrow> (\<exists>p d. (d = rq_dttl m \<or> d = rq_dttl m - 1 \<and> rq_dttl m \<ge> 1)
     \<and> q = m\<lparr>rq_num_hops := rq_num_hops m + 1, rq_path_metric := p, rq_dttl := d\<rparr>)"

text \<open>
  C5: a request is passed on at most once, as one broadcast, with a TTL one lower that is still
  positive, one hop more, and the flow, the request's flags and sequence number as they came;
  only a request of another node that came from a known neighbour and for which the node is
  not the destination. The DTTL falls by one or stays.
\<close>

theorem recv_rreq_floods_safely:
  assumes "recv_rreq packet_src ttl m s = Some (rc, s')"
  shows "messages s' = messages s \<or>
     (\<exists>q. messages s' = messages s @ [Bcast (ttl - 1) (M_RREQ q)] \<and> passed_on m q \<and> 1 < ttl
        \<and> find_aodv_neigh packet_src s \<noteq> None \<and> rq_src_ip m \<noteq> mesh_ip s \<and> rq_dst_ip m \<noteq> mesh_ip s
        \<and> rq_gateway m \<noteq> mesh_ip s)"
  using assms
proof (cases rule: recv_rreq_outcome)
  case ignored
  then show ?thesis using messages_cong [OF timelife_routes(3)] by auto
next
  case (refused n r)
  from messages_rreq_route [OF refused(3)] show ?thesis using messages_cong [OF timelife_routes(3)] by simp
next
  case (taken n p x t r)
  have t: "messages t = messages s"
    using messages_rreq_route [OF taken(6)] messages_cong [OF timelife_routes(3)] by simp
  show ?thesis
  proof (cases "rq_dst_ip m = mesh_ip s \<or> rq_gateway m = mesh_ip s")
    case True
    with taken(7) t show ?thesis by simp
  next
    case False
    define tell where "tell = (dtn_register t \<and> rq_dttl r \<ge> 1)"
    let ?u = "if tell then send2dtn (rq_src_ip r, ucast (rq_tos r), 0, 0) DTN_LOCATION_PORT t else t"
    let ?q = "convert_rreq_to_network (if tell then r\<lparr>rq_dttl := rq_dttl r - 1\<rparr> else r)"
    have s': "s' = snd (local_broadcast (ttl - 1) (M_RREQ ?q) ?u)"
      using False taken(7) by (simp add: forward_rreq_def tell_def Let_def)
    have "passed_on m ?q"
      unfolding passed_on_def taken(4) convert_rreq_to_network_def convert_rreq_to_host_def tell_def
      by (cases m) auto
    with s' False taken(2,3,8) t messages_broadcast [of "ttl - 1" "M_RREQ ?q" ?u] show ?thesis by auto
  qed
qed

section \<open>Giving up\<close>

lemma route_at_set_route:
  "(\<And>r. rt_addr (f r) = rt_addr r) \<Longrightarrow> route_at a (set_route b f s) \<noteq> None \<longleftrightarrow> route_at a s \<noteq> None"
proof -
  assume "\<And>r. rt_addr (f r) = rt_addr r"
  then have "rt_addr ` set (update_first P f rs) = rt_addr ` set rs" for P and rs :: "aodv_route list"
    by (induction rs) auto
  then show ?thesis unfolding route_at_def set_route_def by (force simp: find_None_iff)
qed

text \<open>One try: a broadcast of the request, and the timer of the next try with one retry less.\<close>

definition rreq_for :: "task \<Rightarrow> rreq \<Rightarrow> bool" where
  "rreq_for p q \<longleftrightarrow> rq_src_ip q = tk_src_ip p \<and> rq_dst_ip q = tk_dst_ip p \<and> rq_tos q = tk_tos p \<and> rq_num_hops q = 0"

lemma resend_rreq_try:
  assumes "tk_retries p \<noteq> 0" and "route_at (local_route s) s \<noteq> None"
  shows "\<exists>s' q. resend_rreq p s = Some s' \<and> rreq_for p q
     \<and> out s' = out s @ (if alloc_ok (cfg s) (allocs s) \<and> msg_size (M_RREQ q) \<le> wspace s \<and> 0 \<le> sock_rc (cfg s) (sends s)
                       then [Bcast NET_DIAMETER (M_RREQ q)] else [])
     \<and> timer_queue s' =
         (if alloc_ok (cfg s) (allocs s) \<and> alloc_ok (cfg s) (Suc (allocs s))
          then insert_by_time (directional_timer TASK_RESEND_RREQ 0 (ucast (tk_retries p - 1)) (tk_src_ip p)
                 (tk_dst_ip p) (tk_tos p) s) (timer_queue s)
          else timer_queue s)
     \<and> ipq s' = ipq s \<and> cfg s' = cfg s \<and> local_route s' = local_route s \<and> route_at (local_route s') s' \<noteq> None"
proof -
  from assms(2) obtain r where r: "route_at (local_route s) s = Some r" by auto
  let ?a = "s\<lparr>allocs := Suc (allocs s)\<rparr>"
  let ?u = "set_route (local_route s) (\<lambda>r. r\<lparr>rt_dst_id := rt_dst_id r + 1\<rparr>) ?a"
  have n: "next_dst_id ?a = Some (rt_dst_id r + 1, ?u)" using r by (simp add: next_dst_id_def route_at_def)
  let ?q = "convert_rreq_to_network (new_rreq (tk_src_ip p) (tk_dst_ip p) (tk_tos p) 0 (rt_dst_id r + 1) ?u)"
  have q: "rreq_for p ?q" by (simp add: rreq_for_def convert_rreq_to_network_def new_rreq_def)
  show ?thesis
  proof (cases "alloc_ok (cfg s) (allocs s)")
    case False
    then have "resend_rreq p s = Some ?a" using assms(1) by (simp add: resend_rreq_def kmalloc_def)
    with False q r show ?thesis by (intro exI [of _ ?a] exI [of _ ?q]) (simp add: route_at_def)
  next
    case True
    let ?b = "snd (local_broadcast NET_DIAMETER (M_RREQ ?q) ?u)"
    let ?c = "snd (insert_timer_directional TASK_RESEND_RREQ 0 (ucast (tk_retries p - 1)) (tk_src_ip p) (tk_dst_ip p) (tk_tos p) ?b)"
    have d: "resend_rreq p s = Some (update_timer_queue ?c)"
      using assms(1) True n by (simp add: resend_rreq_def kmalloc_def Let_def)
    have f: "cfg ?u = cfg s" "now ?u = now s" "timer_queue ?u = timer_queue s" "ipq ?u = ipq s" "local_route ?u = local_route s"
      "out ?u = out s" "allocs ?u = Suc (allocs s)" "sends ?u = sends s"
      by (simp_all add: set_route_def)
    have c: "timer_queue ?c = (if alloc_ok (cfg s) (Suc (allocs s))
        then insert_by_time (directional_timer TASK_RESEND_RREQ 0 (ucast (tk_retries p - 1)) (tk_src_ip p)
               (tk_dst_ip p) (tk_tos p) s) (timer_queue s) else timer_queue s)"
      using f by (simp add: insert_timer_directional_eq queue_timer_def directional_timer_def)
    have o: "out ?b = out s @ (if msg_size (M_RREQ ?q) \<le> wspace s \<and> 0 \<le> sock_rc (cfg s) (sends s)
        then [Bcast NET_DIAMETER (M_RREQ ?q)] else [])"
      by (simp add: local_broadcast_def out_sendmsg f wspace_def)
    have "route_at (local_route s) ?u \<noteq> None"
      using route_at_set_route [of "\<lambda>r. r\<lparr>rt_dst_id := rt_dst_id r + 1\<rparr>" "local_route s" "local_route s" ?a] r
      by (simp add: route_at_def)
    then have "route_at (local_route s) (update_timer_queue ?c) \<noteq> None" by (simp add: route_at_def)
    with d c o q f True show ?thesis
      by (intro exI [of _ "update_timer_queue ?c"] exI [of _ ?q]) (simp del: not_None_eq)
  qed
qed

lemma rearmed_retries:
  assumes "tk_retries p \<noteq> 0" and "t = directional_timer TASK_RESEND_RREQ 0 (ucast (tk_retries p - 1)) a b c s"
  shows "unat (tk_retries t) < unat (tk_retries p)" and "tk_retries p \<le> 256 \<Longrightarrow> tk_retries t = tk_retries p - 1"
proof -
  let ?w = "tk_retries p"
  have t: "tk_retries t = ucast (ucast (?w - 1) :: u8)" by (simp add: assms(2) directional_timer_def)
  have u: "unat (tk_retries t) = unat (?w - 1) mod 256"
    by (simp add: t take_bit_eq_mod unsigned_ucast_eq unat_mod)
  have d: "unat (?w - 1) = unat ?w - 1" "0 < unat ?w" using assms(1) by (simp_all add: unat_minus_one unat_gt_0)
  show "unat (tk_retries t) < unat ?w" unfolding u d(1) using d(2) by (meson diff_less le_less_trans mod_less_eq_dividend zero_less_one)
  assume "?w \<le> 256"
  then have "unat ?w - 1 < 256" using d(2) by (simp add: word_le_nat_alt)
  with u d(1) show "tk_retries t = ?w - 1" by (simp add: word_unat_eq_iff)
qed

text \<open>
  C31: while a flow has retries left, the resend timer never is a fault and leaves the packets alone. With
  memory, it sends the request for the flow once more (exactly when the socket has room and the kernel
  takes it) and re-arms itself, in its place in the timer queue, for the same flow with fewer
  retries, one less of at most 256: the rounds of a route discovery are well-founded. Without
  memory for the packet or for the timer, no timer is armed and the discovery stops.
\<close>

theorem resend_rreq_rearms:
  assumes "tk_retries p \<noteq> 0" and "route_at (local_route s) s \<noteq> None"
  shows "\<exists>s' q. resend_rreq p s = Some s' \<and> ipq s' = ipq s \<and> rreq_for p q
     \<and> out s' = out s @ (if alloc_ok (cfg s) (allocs s) \<and> msg_size (M_RREQ q) \<le> wspace s \<and> 0 \<le> sock_rc (cfg s) (sends s)
                       then [Bcast NET_DIAMETER (M_RREQ q)] else [])
     \<and> (if alloc_ok (cfg s) (allocs s) \<and> alloc_ok (cfg s) (Suc (allocs s))
        then \<exists>t. timer_queue s' = insert_by_time t (timer_queue s)
           \<and> timer_matches (tk_src_ip p) (tk_dst_ip p) (tk_tos p) TASK_RESEND_RREQ t
           \<and> tk_retries t < tk_retries p \<and> (tk_retries p \<le> 256 \<longrightarrow> tk_retries t = tk_retries p - 1)
        else timer_queue s' = timer_queue s)"
proof -
  let ?t = "directional_timer TASK_RESEND_RREQ 0 (ucast (tk_retries p - 1)) (tk_src_ip p) (tk_dst_ip p) (tk_tos p) s"
  have t: "timer_matches (tk_src_ip p) (tk_dst_ip p) (tk_tos p) TASK_RESEND_RREQ ?t"
    "tk_retries ?t < tk_retries p" "tk_retries p \<le> 256 \<longrightarrow> tk_retries ?t = tk_retries p - 1"
    using rearmed_retries [OF assms(1) refl] by (simp_all add: word_less_nat_alt)
  from resend_rreq_try [OF assms] obtain s' q where s': "resend_rreq p s = Some s'" "ipq s' = ipq s" "rreq_for p q"
    "out s' = out s @ (if alloc_ok (cfg s) (allocs s) \<and> msg_size (M_RREQ q) \<le> wspace s \<and> 0 \<le> sock_rc (cfg s) (sends s)
                       then [Bcast NET_DIAMETER (M_RREQ q)] else [])"
    "timer_queue s' = (if alloc_ok (cfg s) (allocs s) \<and> alloc_ok (cfg s) (Suc (allocs s))
       then insert_by_time ?t (timer_queue s) else timer_queue s)" by blast
  show ?thesis by (rule exI [of _ s'], rule exI [of _ q]) (use s' t in auto)
qed

text \<open>
  The rounds of a discovery that nothing answers: the resend task runs, and when it has armed the timer
  of its flow again, that timer fires, at whatever time the clock then shows, and is the next
  task. \<open>None\<close> is a fault or a discovery that goes on after \<open>k\<close> rounds.
\<close>

fun resends :: "(nat \<Rightarrow> timeval) \<Rightarrow> nat \<Rightarrow> task \<Rightarrow> node \<Rightarrow> node option" where
  "resends clock 0 p s = None"
| "resends clock (Suc k) p s =
     (case resend_rreq p (s\<lparr>now := clock k\<rparr>) of
        None \<Rightarrow> None
      | Some t \<Rightarrow>
          (case List.find (timer_matches (tk_src_ip p) (tk_dst_ip p) (tk_tos p) TASK_RESEND_RREQ) (timer_queue t) of
             None \<Rightarrow> Some t
           | Some q \<Rightarrow>
               resends clock k q (delete_timer (tk_src_ip p) (tk_dst_ip p) (tk_tos p) TASK_RESEND_RREQ t)))"

lemma insert_by_time_find:
  "\<forall>x\<in>set xs. \<not> P x \<Longrightarrow> P t \<Longrightarrow> List.find P (insert_by_time t xs) = Some t \<and> remove_first P (insert_by_time t xs) = xs"
  by (induction xs) auto

lemma find_none: "\<forall>x\<in>set xs. \<not> P x \<Longrightarrow> List.find P xs = None"
  by (simp add: find_None_iff)

definition unreachable :: "task \<Rightarrow> ipq_element list \<Rightarrow> effect list" where
  "unreachable p es =
     concat (map (\<lambda>e. [IcmpUnreach e, Reinject e NF_DROP])
       (rev (filter (ip_cmp (tk_src_ip p) (tk_dst_ip p) (tk_tos p)) es)))"

text \<open>How a discovery of \<open>p\<close> ends: \<open>es\<close> is what it sent.\<close>

definition gave_up :: "task \<Rightarrow> node \<Rightarrow> effect list \<Rightarrow> node \<Rightarrow> bool" where
  "gave_up p s es s' \<longleftrightarrow>
     waiting s' = filter (\<lambda>e. \<not> ip_cmp (tk_src_ip p) (tk_dst_ip p) (tk_tos p) e) (waiting s)
     \<and> out s' = out s @ es @ unreachable p (waiting s) \<and> timer_queue s' = timer_queue s
     \<and> length es \<le> unat (tk_retries p)
     \<and> (\<forall>e\<in>set es. \<exists>q. e = Bcast NET_DIAMETER (M_RREQ q) \<and> rreq_for p q)"

lemma resends_last:
  assumes "tk_retries p = 0" and "ipq s \<noteq> None"
    and "\<not> find_timer (tk_src_ip p) (tk_dst_ip p) (tk_tos p) TASK_RESEND_RREQ s"
  shows "\<exists>s'. resends clock (Suc k) p s = Some s' \<and> gave_up p s [] s'"
proof -
  let ?s = "s\<lparr>now := clock k\<rparr>"
  obtain s' where s': "ipq_drop_ip (tk_src_ip p) (tk_dst_ip p) (tk_tos p) ?s = Some s'"
    using ipq_drop_ip_None [of _ _ _ ?s] assms(2) by fastforce
  note d = ipq_drop_ip_spec [OF s']
  have "timer_queue s' = timer_queue s" by (subst d(1)) simp
  moreover have "out s' = out s @ unreachable p (waiting s)" by (subst d(1)) (simp add: unreachable_def waiting_def)
  ultimately show ?thesis using s' d(2) assms(1,3)
    by (intro exI [of _ s'])
      (simp add: resend_rreq_def find_timer_def list_ex_iff find_none waiting_def gave_up_def)
qed

lemma resends_end:
  assumes "route_at (local_route s) s \<noteq> None" and "\<And>n. alloc_ok (cfg s) n" and "ipq s \<noteq> None"
    and "\<not> find_timer (tk_src_ip p) (tk_dst_ip p) (tk_tos p) TASK_RESEND_RREQ s" and "unat (tk_retries p) \<le> k"
  shows "\<exists>s' es. resends clock (Suc k) p s = Some s' \<and> gave_up p s es s'"
  using assms
proof (induction k arbitrary: p s)
  case 0
  then show ?case using resends_last [of p s clock 0] by (auto simp: unat_eq_zero)
next
  case (Suc k)
  show ?case
  proof (cases "tk_retries p = 0")
    case True
    then show ?thesis using resends_last [OF True Suc.prems(3,4)] by blast
  next
    case False
    let ?s = "s\<lparr>now := clock (Suc k)\<rparr>"
    let ?P = "timer_matches (tk_src_ip p) (tk_dst_ip p) (tk_tos p) TASK_RESEND_RREQ"
    define d where "d = directional_timer TASK_RESEND_RREQ 0 (ucast (tk_retries p - 1)) (tk_src_ip p) (tk_dst_ip p) (tk_tos p) ?s"
    have r: "route_at (local_route ?s) ?s \<noteq> None" using Suc.prems(1) by (simp add: route_at_def)
    obtain t q where t: "resend_rreq p ?s = Some t" "rreq_for p q" "timer_queue t = insert_by_time d (timer_queue s)"
      "out t \<in> {out s, out s @ [Bcast NET_DIAMETER (M_RREQ q)]}"
      "ipq t = ipq s" "cfg t = cfg s" "route_at (local_route t) t \<noteq> None"
      using resend_rreq_try [OF False r] Suc.prems(2) unfolding d_def by (auto simp del: not_None_eq split: if_splits)
    have m: "?P d" "unat (tk_retries d) < unat (tk_retries p)"
      using rearmed_retries(1) [OF False d_def] by (simp_all add: d_def)
    then have e: "tk_src_ip d = tk_src_ip p" "tk_dst_ip d = tk_dst_ip p" "tk_tos d = tk_tos p" by (simp_all add: timer_matches_def)
    have no: "\<forall>x\<in>set (timer_queue s). \<not> ?P x" using Suc.prems(4) by (simp add: find_timer_def list_ex_iff)
    define u where "u = delete_timer (tk_src_ip p) (tk_dst_ip p) (tk_tos p) TASK_RESEND_RREQ t"
    have u: "timer_queue u = timer_queue s" "out u = out t" "ipq u = ipq s" "cfg u = cfg s" "waiting u = waiting s"
      "route_at (local_route u) u \<noteq> None"
      using insert_by_time_find [OF no m(1)] t(3,5-7) by (simp_all add: u_def delete_timer_def waiting_def route_at_def)
    have step: "resends clock (Suc (Suc k)) p s = resends clock (Suc k) d u"
      using t(1,3) insert_by_time_find [OF no m(1)] by (simp add: u_def del: resends.simps(2)) (simp add: resends.simps(2) [of clock "Suc k"])
    have "unat (tk_retries d) \<le> k" using m(2) Suc.prems(5) by simp
    with Suc.IH [of u d] u Suc.prems(2-4) obtain s' es where s': "resends clock (Suc k) d u = Some s'" "gave_up d u es s'"
      unfolding e by (auto simp: find_timer_def e)
    have g: "gave_up p s ((if out t = out s then [] else [Bcast NET_DIAMETER (M_RREQ q)]) @ es) s'"
      using s'(2) u t(2,4) m(2) unfolding gave_up_def unreachable_def rreq_for_def e by auto
    show ?thesis using g s'(1) step by metis
  qed
qed

text \<open>
  C8: a discovery that nothing answers ends, at whatever times its rounds are: while memory and the packet
  queue are there and the flow has no other resend timer, as many rounds as it has retries, and
  one, are enough. Then no timer of the flow is left, every packet that waited for the flow is
  given back to its sender as unreachable and dropped, oldest first; no packet of another flow is
  touched, and at most one request left for each retry.
\<close>

theorem discovery_gives_up:
  assumes "route_at (local_route s) s \<noteq> None" and "\<And>n. alloc_ok (cfg s) n" and "ipq s \<noteq> None"
    and "\<not> find_timer (tk_src_ip p) (tk_dst_ip p) (tk_tos p) TASK_RESEND_RREQ s"
  shows "\<exists>s' es. resends clock (Suc (unat (tk_retries p))) p s = Some s'
           \<and> waiting s' = filter (\<lambda>e. \<not> ip_cmp (tk_src_ip p) (tk_dst_ip p) (tk_tos p) e) (waiting s)
           \<and> out s' = out s @ es @ concat (map (\<lambda>e. [IcmpUnreach e, Reinject e NF_DROP])
                (rev (filter (ip_cmp (tk_src_ip p) (tk_dst_ip p) (tk_tos p)) (waiting s))))
           \<and> timer_queue s' = timer_queue s \<and> \<not> find_timer (tk_src_ip p) (tk_dst_ip p) (tk_tos p) TASK_RESEND_RREQ s'
           \<and> length es \<le> unat (tk_retries p)
           \<and> (\<forall>e\<in>set es. \<exists>q. e = Bcast NET_DIAMETER (M_RREQ q) \<and> rreq_for p q)"
proof -
  from resends_end [OF assms order.refl] obtain s' es
    where "resends clock (Suc (unat (tk_retries p))) p s = Some s'" "gave_up p s es s'" by blast
  with assms(4) show ?thesis by (intro exI [of _ s'] exI [of _ es]) (simp add: gave_up_def unreachable_def find_timer_def)
qed

section \<open>Examples\<close>

lemma sample_self_addr [simp]: "rt_addr sample_self = 1"
  by (simp add: sample_self_def sample_route_def)

lemma sample_at [simp]: "route_at 1 sample_mesh = Some sample_self"
  by (simp add: route_at_def)

lemma resend_rreq_rearms_witness:
  "\<exists>s' t. resend_rreq ((sample_task TASK_RESEND_RREQ 5)\<lparr>tk_retries := 2\<rparr>) sample_mesh = Some s' \<and>
     timer_queue s' = [t] \<and> tk_retries t = 1"
proof -
  have "route_at (local_route sample_mesh) sample_mesh \<noteq> None" by (simp add: route_at_def)
  from resend_rreq_rearms [where p = "(sample_task TASK_RESEND_RREQ 5)\<lparr>tk_retries := 2\<rparr>", OF _ this]
  show ?thesis by (auto simp: sample_simps)
qed

definition sample_waiting :: node where
  "sample_waiting = sample_mesh\<lparr>ipq := ipq sample_queued\<rparr>"

lemma discovery_gives_up_witness:
  "\<exists>s'. resends (\<lambda>k. \<lparr>tv_sec = 200, tv_usec = 0\<rparr>) (Suc (unat (2 :: u16)))
          ((sample_task TASK_RESEND_RREQ 5)\<lparr>tk_src_ip := 1, tk_dst_ip := 9, tk_retries := 2\<rparr>)
          sample_waiting = Some s' \<and> waiting s' = []"
proof -
  let ?p = "(sample_task TASK_RESEND_RREQ 5)\<lparr>tk_src_ip := 1, tk_dst_ip := 9, tk_retries := 2\<rparr>"
  have q: "waiting sample_waiting = [sample_packet 2 9, sample_packet 1 9]"
    by (simp add: sample_waiting_def sample_queued_eq waiting_def)
  have "route_at (local_route sample_waiting) sample_waiting \<noteq> None" "ipq sample_waiting \<noteq> None"
    "\<not> find_timer (tk_src_ip ?p) (tk_dst_ip ?p) (tk_tos ?p) TASK_RESEND_RREQ sample_waiting"
    by (simp_all add: sample_waiting_def route_at_def sample_queued_eq find_timer_def)
  from discovery_gives_up [OF this(1) _ this(2,3), of "\<lambda>k. \<lparr>tv_sec = 200, tv_usec = 0\<rparr>"] show ?thesis
    unfolding q by (auto simp: sample_waiting_def ip_cmp_def sample_packet_def sample_task_def sample_simps)
qed

definition sample_request :: rreq where
  "sample_request = (sample_rreq 0)\<lparr>rq_src_ip := 8, rq_dst_id := htonl 7\<rparr>"

definition sample_known :: node where
  "sample_known = sample_mesh\<lparr>route_table := [sample_self, sample_route 2 9 8]\<rparr>"

lemma sample_known_simps [simp]:
  "find_aodv_neigh 5 sample_known = Some (sample_neigh 5)" "cfg sample_known = sample_cfg" "now sample_known = now sample_node"
  "route_table sample_known = [sample_self, sample_route 2 9 8]" "allocs sample_known = 9"
  by (simp_all add: find_aodv_neigh_def sample_known_def)

lemma sample_recv: "\<exists>s'. recv_rreq 5 10 sample_request sample_known = Some (0, s')"
proof -
  let ?u = "update_neigh_timelife 5 sample_known"
  have "find_aodv_route 9 8 0 ?u = Some (sample_route 2 9 8)"
    by (simp add: find_aodv_route_def search_routes_def routes_to_def sample_self_def sample_route_def)
  then obtain t where "rreq_aodv_route 9 8 0 (sample_neigh 5) 2 7 2 ?u = Some (1, t)"
    by (simp add: rreq_aodv_route_def rreq_finish_def sample_route_def)
  then show ?thesis
    by (auto simp: recv_rreq_def sample_request_def sample_rreq_def convert_rreq_to_host_def rreq_metric_def Let_def
        word_le_nat_alt)
qed

lemma recv_rreq_reverse_route_witness:
  "\<exists>s' p. recv_rreq 5 10 sample_request sample_known = Some (0, s') \<and> routed_via 9 8 0 5 2 7 p s'"
proof -
  obtain s' where "recv_rreq 5 10 sample_request sample_known = Some (0, s')" using sample_recv by blast
  moreover have "routes_ok sample_known" by (simp add: routes_ok_def sample_self_def sample_route_def)
  ultimately show ?thesis
    using recv_rreq_reverse_route [of sample_known 5 10 sample_request s']
    by (auto simp: sample_request_def sample_rreq_def sample_neigh_def)
qed

lemma recv_rreq_floods_safely_witness:
  "\<exists>s'. recv_rreq 5 10 sample_request sample_known = Some (0, s') \<and> length (messages s') \<le> 1"
proof -
  obtain s' where s': "recv_rreq 5 10 sample_request sample_known = Some (0, s')" using sample_recv by blast
  with recv_rreq_floods_safely [OF s'] show ?thesis by (auto simp: messages_def sample_known_def)
qed

end
