(* ===== verification/Rrep.thy ===== *)
theory Rrep
  imports Rreq
begin

text \<open>
  Route replies, \<open>rrep.c\<close>. The destination answers the best request it saw along its reverse
  route; every node on the way installs both directions, and the source stops its discovery and
  lets the waiting packets go. Routes are pointers here: \<open>route_at\<close> reads what is at an address
  at that moment, and no route there is a fault, as is a route that could not be created.
\<close>

section \<open>Operations\<close>

definition convert_rrep_to_host :: "rrep \<Rightarrow> rrep" where
  "convert_rrep_to_host r =
     r\<lparr>rp_dst_id := ntohl (rp_dst_id r), rp_src_id := ntohl (rp_src_id r), rp_path_metric := ntohl (rp_path_metric r)\<rparr>"

definition convert_rrep_to_network :: "rrep \<Rightarrow> rrep" where
  "convert_rrep_to_network r =
     r\<lparr>rp_dst_id := htonl (rp_dst_id r), rp_src_id := htonl (rp_src_id r), rp_path_metric := htonl (rp_path_metric r)\<rparr>"

text \<open>The reply has come to the source of the flow.\<close>

definition rrep_at_source :: "aodv_neigh \<Rightarrow> rrep \<Rightarrow> node \<Rightarrow> (int \<times> node) option" where
  "rrep_at_source n r s = do {
     let s = update_timer_queue s;
     (_, s) \<leftarrow> rreq_aodv_route (rp_src_ip r) (rp_dst_ip r) (rp_tos r) n (rp_num_hops r) (rp_dst_id r) (rp_path_metric r) s;
     let send_route = find_aodv_route_by_id (rp_dst_ip r) (rp_dst_id r) s;
     let s = delete_timer (rp_src_ip r) (rp_dst_ip r) (rp_tos r) TASK_RESEND_RREQ s;
     (case send_route of
        None \<Rightarrow> Some (0, s)
      | Some send_route \<Rightarrow> do {
          (_, s) \<leftarrow> rrep_aodv_route send_route s;
          let s = set_route (rt_addr send_route) (\<lambda>q. q\<lparr>rt_last_hop := mesh_ip s\<rparr>) s;
          let s = (if rp_dttl r > 0 then send2dtn (rp_dst_ip r, rp_x r, rp_y r, 0) RE_DTN_HELLO s else s);
          let s = (if find_first_brk_link_with_dst (rp_dst_ip r) s \<noteq> None then snd (gen_rcvp (rp_dst_ip r) s) else s);
          Some (0, s)
        })
   }"

text \<open>A DTN hello's reply travels on a route of its own, made from the one of the hello's request.\<close>

definition dtn_recv_route :: "rrep \<Rightarrow> node \<Rightarrow> (nat option \<times> node) option" where
  "dtn_recv_route r s =
     (case find_aodv_route (dtn_hello_ip (cfg s)) (rp_src_ip r) (rp_tos r) s of
        None \<Rightarrow> Some (None, s)
      | Some q \<Rightarrow>
          (case create_aodv_route (rp_dst_ip r) (rp_src_ip r) (rp_tos r) (rp_dst_id r) s of
             (None, s) \<Rightarrow> None
           | (Some new_recv, s) \<Rightarrow>
               Some (Some (rt_addr new_recv),
                     set_route (rt_addr new_recv)
                       (\<lambda>x. x\<lparr>rt_last_hop := rt_last_hop q, rt_next_hop := rt_next_hop q\<rparr>) s)))"

text \<open>The reply passes through the node, from the route \<open>send\<close> to the route \<open>recv\<close>.\<close>

definition join_routes :: "nat \<Rightarrow> nat \<Rightarrow> node \<Rightarrow> (u32 \<times> node) option" where
  "join_routes recv send s = do {
     recv_route \<leftarrow> route_at recv s;
     (_, s) \<leftarrow> rrep_aodv_route recv_route s;
     send_route \<leftarrow> route_at send s;
     (_, s) \<leftarrow> rrep_aodv_route send_route s;
     recv_route \<leftarrow> route_at recv s;
     let s = set_route send (\<lambda>q. q\<lparr>rt_last_hop := rt_next_hop recv_route\<rparr>) s;
     send_route \<leftarrow> route_at send s;
     let s = set_route recv (\<lambda>q. q\<lparr>rt_last_hop := rt_next_hop send_route\<rparr>) s;
     recv_route \<leftarrow> route_at recv s;
     Some (rt_next_hop recv_route, s)
   }"

definition rrep_onward :: "aodv_neigh \<Rightarrow> rrep \<Rightarrow> nat \<Rightarrow> node \<Rightarrow> (int \<times> node) option" where
  "rrep_onward n r recv s = do {
     recv_route \<leftarrow> route_at recv s;
     (_, s) \<leftarrow> rreq_aodv_route (rp_src_ip r) (rp_dst_ip r) (rp_tos r) n (rp_num_hops r) (rp_dst_id r)
                (rp_path_metric r - rt_path_metric recv_route) s;
     (case find_aodv_route_by_id (rp_dst_ip r) (rp_dst_id r) s of
        None \<Rightarrow> Some (0, s)
      | Some send_route \<Rightarrow> do {
          (next_hop, s) \<leftarrow> join_routes recv (rt_addr send_route) s;
          Some (0, send_message next_hop NET_DIAMETER (M_RREP (convert_rrep_to_network r)) s)
        })
   }"

definition rrep_relay :: "aodv_neigh \<Rightarrow> rrep \<Rightarrow> node \<Rightarrow> (int \<times> node) option" where
  "rrep_relay n r s = do {
     (recv, s) \<leftarrow>
       (if rp_dttl r > 0 then dtn_recv_route r s
        else Some (map_option rt_addr (find_aodv_route_by_id (rp_src_ip r) (rp_src_id r) s), s));
     let r = (if rp_dttl r > 0 \<and> dtn_register s then r\<lparr>rp_dttl := rp_dttl r - 1\<rparr> else r);
     (case recv of
        None \<Rightarrow> Some (1, s)
      | Some recv \<Rightarrow> rrep_onward n r recv s)
   }"

definition recv_rrep :: "u32 \<Rightarrow> rrep \<Rightarrow> node \<Rightarrow> (int \<times> node) option" where
  "recv_rrep packet_src tmp_rrep s =
     (let r = convert_rrep_to_host tmp_rrep in
      case find_aodv_neigh packet_src s of
        None \<Rightarrow> Some (1, s)
      | Some n \<Rightarrow>
          let s = update_neigh_timelife packet_src s;
              r = r\<lparr>rp_num_hops := rp_num_hops r + 1\<rparr>
          in if rp_src_ip r = mesh_ip s \<or> (rp_src_ip r = null_ip s \<and> rp_gateway r = mesh_ip s)
             then rrep_at_source n r s else rrep_relay n r s)"

text \<open>
  The route the reply goes out on, and its DTTL: a DTN neighbour that is asked for with the
  hello address answers for its own. \<open>Inl\<close> is the return value when there was no memory.
\<close>

definition reply_route :: "u32 \<Rightarrow> u32 \<Rightarrow> u8 \<Rightarrow> aodv_route \<Rightarrow> node \<Rightarrow> ((int + nat \<times> u8) \<times> node) option" where
  "reply_route src_ip dst_ip tos src_route s =
     (if dtn_register s \<and> dst_ip = dtn_hello_ip (cfg s) then do {
        (dst_id, s) \<leftarrow> next_dst_id s;
        (case create_aodv_route (mesh_ip s) src_ip tos dst_id s of
           (None, s) \<Rightarrow> Some (Inl 0, s)
         | (Some new_src, s) \<Rightarrow> do {
             src_route \<leftarrow> route_at (rt_addr src_route) s;
             Some (Inr (rt_addr new_src, DTTL),
                   set_route (rt_addr new_src) (\<lambda>q. q\<lparr>rt_next_hop := rt_next_hop src_route, rt_last_hop := 0\<rparr>) s)
           })
      }
      else Some (Inr (rt_addr src_route, 0), s))"

text \<open>The gateway field is not set. The packet allocated first is never freed.\<close>

definition new_rrep :: "aodv_route \<Rightarrow> u32 \<Rightarrow> u8 \<Rightarrow> u8 \<Rightarrow> node \<Rightarrow> rrep" where
  "new_rrep src_route dst_id tos dttl s =
     \<lparr>rp_type = RREP_MESSAGE, rp_reserved1 = 0, rp_q = False, rp_a = False, rp_tos = tos, rp_num_hops = 0,
      rp_dst_ip = rt_src_ip src_route, rp_src_ip = rt_dst_ip src_route, rp_dst_id = dst_id,
      rp_gateway = ucast (junk (cfg s)), rp_path_metric = rt_path_metric src_route, rp_src_id = rt_dst_id src_route,
      rp_dttl = dttl, rp_x = longitude s, rp_y = latitude s\<rparr>"

definition gen_rrep :: "u32 \<Rightarrow> u32 \<Rightarrow> u8 \<Rightarrow> node \<Rightarrow> (int \<times> node) option" where
  "gen_rrep src_ip dst_ip tos s =
     (case kmalloc s of
        (None, s) \<Rightarrow> Some (0, s)
      | (Some _, s) \<Rightarrow>
          (case find_aodv_route dst_ip src_ip tos s of
             None \<Rightarrow> Some (1, s)
           | Some src_route \<Rightarrow>
               (case kmalloc s of
                  (None, s) \<Rightarrow> Some (0, s)
                | (Some _, s) \<Rightarrow> do {
                    (x, s) \<leftarrow> reply_route src_ip dst_ip tos src_route s;
                    (case x of
                       Inl rc \<Rightarrow> Some (rc, s)
                     | Inr (p, dttl) \<Rightarrow> do {
                         (dst_id, s) \<leftarrow> next_dst_id s;
                         src_route \<leftarrow> route_at p s;
                         let tmp_rrep = new_rrep src_route dst_id tos dttl s;
                         (_, s) \<leftarrow> rrep_aodv_route src_route s;
                         let s = set_route p (\<lambda>q. q\<lparr>rt_last_hop := rt_src_ip q\<rparr>) s;
                         src_route \<leftarrow> route_at p s;
                         Some (1, send_message (rt_next_hop src_route) NET_DIAMETER
                                    (M_RREP (convert_rrep_to_network tmp_rrep)) s)
                       })
                  })))"

section \<open>The handlers keep the invariant\<close>

lemma evolve_reply_source [evolve]: "evolves a s \<Longrightarrow> evolves_to a (rrep_at_source n r s)"
  unfolding rrep_at_source_def Let_def split_beta
  by (intro evolve_bind(1) evolve_flow(1,2,5) evolve_read evolve_some evolve) (assumption | simp)+

lemma evolve_dtn_recv [evolve]: "evolves a s \<Longrightarrow> evolves_to a (dtn_recv_route r s)"
  unfolding dtn_recv_route_def
  by (cases "create_aodv_route (rp_dst_ip r) (rp_src_ip r) (rp_tos r) (rp_dst_id r) s")
    (auto split: option.split intro!: evolve dest: evolve_create_route [of a s "rp_dst_ip r" "rp_src_ip r" "rp_tos r" "rp_dst_id r"])

lemma evolve_join [evolve]: "evolves a s \<Longrightarrow> evolves_to a (join_routes p q s)"
  unfolding join_routes_def Let_def split_beta
  by (intro evolve_bind(1) [OF evolve_rrep_route] evolve_read evolve_some evolve) (assumption | simp)+

lemma evolve_onward [evolve]: "evolves a s \<Longrightarrow> evolves_to a (rrep_onward n r p s)"
  unfolding rrep_onward_def Let_def split_beta
  by (intro evolve_bind(1) evolve_flow(2,5) evolve_read evolve_some evolve) (assumption | simp)+

lemma evolve_reply_relay [evolve]: "evolves a s \<Longrightarrow> evolves_to a (rrep_relay n r s)"
  unfolding rrep_relay_def Let_def split_beta
  by (intro evolve_bind(1) evolve_flow(2,5) evolve_read evolve_some evolve) (assumption | simp)+

lemma evolve_recv_rrep [evolve]: "evolves a s \<Longrightarrow> evolves_to a (recv_rrep src m s)"
  unfolding recv_rrep_def Let_def by (intro evolve evolve_vcg) assumption+

lemma evolve_reply_route [evolve]: "evolves a s \<Longrightarrow> evolves_to a (reply_route b c d r s)"
  unfolding reply_route_def split_beta
  by (intro evolve_flow(2) evolve_bind(1) evolve_some evolve)
    (auto split: option.split intro!: evolve evolve_read)

lemma evolve_next_id_D: "next_dst_id s = Some (i, t) \<Longrightarrow> evolves a s \<Longrightarrow> evolves a t"
  using evolve_next_id [of a s] by simp

lemma evolve_rrep_route_D: "rrep_aodv_route r s = Some (x, t) \<Longrightarrow> evolves a s \<Longrightarrow> evolves a t"
  using evolve_rrep_route [of a s r] by simp

lemma evolve_gen_rrep [evolve]: "evolves a s \<Longrightarrow> evolves_to a (gen_rrep b c d s)"
  unfolding gen_rrep_def Let_def split_beta
  by (intro evolve_flow evolve_some evolve_bind(1) evolve,
      auto split: sum.split intro!: evolve evolve_read evolve_bind(1) dest: evolve_next_id_D,
      metis evolve_next_id_D evolve_rrep_route_D)

section \<open>A reply installs the route\<close>

lemma find_aodv_route_ipq [simp]: "find_aodv_route a b c (s\<lparr>ipq := q, out := os\<rparr>) = find_aodv_route a b c s"
  by (rule find_aodv_route_cong) simp

text \<open>
  C7: a route is installed when its source has an entry in the table of sources and the kernel takes what it
  is told. Then the kernel is told of the route, with its next hop and its hop count as the priority
  (except for a route from or to the address of DTN hellos, of which the kernel is never told), the
  route is in state REPLIED with a new lifetime, every packet that waited for its flow is released in
  the order it came, on the route the kernel has after that change, and no other packet leaves the
  queue: provided that there is a queue and those packets have a socket.
\<close>

theorem rrep_aodv_route_spec:
  assumes "routes_ok s" and "find_aodv_route src_ip dst_ip tos s = Some r"
    and "find_src_list_entry src_ip s = Some e" and "kernel_grants (cfg s)"
    and "ipq s \<noteq> None" and "\<forall>p\<in>set (waiting s). ip_cmp src_ip dst_ip tos p \<longrightarrow> skb_sk p"
  shows "\<exists>s' told. rrep_aodv_route r s = Some (1, s')
           \<and> find_aodv_route src_ip dst_ip tos s' = Some (r\<lparr>rt_state := REPLIED, rt_lifetime := currtime s + DELETE_PERIOD\<rparr>)
           \<and> (if dtn_hello_ip (cfg s) \<in> {src_ip, dst_ip} then told = [] \<and> nlreqs s' = nlreqs s
              else nlreqs s' = Suc (nlreqs s)
                \<and> (\<exists>k. told = [NlRoute k] \<and> nlr_new k \<and> nlr_dst k = dst_ip \<and> nlr_gateway k = rt_next_hop r
                     \<and> nlr_priority k = uint (rt_num_hops r)))
           \<and> out s' = out s @ told @ concat (map (the \<circ> released s') (rev (filter (ip_cmp src_ip dst_ip tos) (waiting s))))
           \<and> waiting s' = filter (\<lambda>e. \<not> ip_cmp src_ip dst_ip tos e) (waiting s)"
proof -
  have r: "rt_src_ip r = src_ip" "rt_dst_ip r = dst_ip" "rt_tos r = tos" using find_aodv_route_D [OF assms(2)] by simp_all
  have g: "\<not> nl_sock_rc (cfg s) n < 0" "\<not> nl_send_rc (cfg s) n < 0" for n
    using assms(4) by (simp_all add: kernel_grants_def not_less)
  obtain rc s1 where s1: "rpdb_route True (sl_rt_table e) tos src_ip dst_ip (rt_next_hop r) (dev_index (cfg s))
      (uint (rt_num_hops r)) s = (rc, s1)" by fastforce
  then have rc: "\<not> rc < 0" using rpdb_route_grants [OF assms(4)] by (metis fst_conv not_less)
  obtain told where told: "out s1 = out s @ told" "if dtn_hello_ip (cfg s) \<in> {src_ip, dst_ip} then told = [] \<and> nlreqs s1 = nlreqs s
      else nlreqs s1 = Suc (nlreqs s) \<and> (\<exists>k. told = [NlRoute k] \<and> nlr_new k \<and> nlr_dst k = dst_ip \<and> nlr_gateway k = rt_next_hop r
             \<and> nlr_priority k = uint (rt_num_hops r))"
    using s1 g by (auto simp: rpdb_route_def emit_def Let_def split: if_splits)
  have frame: "ipq s1 = ipq s" "waiting s1 = waiting s" "route_table s1 = route_table s" "now s1 = now s" "cfg s1 = cfg s"
    "allocs s1 = allocs s"
    using s1 by (auto simp: rpdb_route_def emit_def Let_def waiting_def split: if_splits)
  let ?w = "\<lambda>r. r\<lparr>rt_state := REPLIED, rt_lifetime := currtime s + DELETE_PERIOD\<rparr>"
  let ?s = "set_route (rt_addr r) ?w s1"
  have f: "routes_ok s1" "find_aodv_route src_ip dst_ip tos s1 = Some r"
    using assms(1,2) frame(3,6) by (auto simp: routes_ok_def find_aodv_route_def)
  have u: "find_aodv_route src_ip dst_ip tos ?s = Some (?w r)" by (rule find_set_route [OF f]) simp
  have e: "out ?s = out s @ told" "ipq ?s = ipq s" "waiting ?s = waiting s" "nlreqs ?s = nlreqs s1"
    using told(1) frame by (simp_all add: set_route_def waiting_def)
  have "ipq_send_ip src_ip dst_ip tos ?s \<noteq> None" using ipq_send_ip_spec [of src_ip dst_ip tos ?s] assms(5,6) e by auto
  then obtain s' where s': "ipq_send_ip src_ip dst_ip tos ?s = Some s'" by blast
  have i: "rrep_aodv_route r s = Some (1, s')"
    using assms(3) s1 rc s' frame(4) by (simp add: rrep_aodv_route_def r)
  obtain q os where q: "s' = ?s\<lparr>ipq := Some q, out := os\<rparr>" using ipq_send_ip_frame [OF s'] by blast
  have rel: "released s' = released ?s" by (rule released_cong) (simp_all add: q)
  have "find_aodv_route src_ip dst_ip tos s' = Some (?w r)" "nlreqs s' = nlreqs s1" using u e(4) by (simp_all add: q)
  moreover have "out s' = out s @ told @ concat (map (the \<circ> released s') (rev (filter (ip_cmp src_ip dst_ip tos) (waiting s))))"
    "waiting s' = filter (\<lambda>e. \<not> ip_cmp src_ip dst_ip tos e) (waiting s)"
    using ipq_send_ip_spec [of src_ip dst_ip tos ?s] s' e unfolding rel by auto
  ultimately show ?thesis using i told(2) by (intro exI [of _ s'] exI [of _ told] conjI) simp_all
qed

section \<open>What a reply makes the node send\<close>

lemma messages_timers [simp]:
  "messages (update_timer_queue s) = messages s" "messages (delete_timer b c d e s) = messages s"
  "messages (update_neigh_timelife ip s) = messages s"
  by (rule messages_cong, simp)+

lemma messages_ipq_send: "ipq_send_ip b c d s = Some s' \<Longrightarrow> messages s' = messages s"
proof -
  have "filter (\<lambda>e. case e of Bcast _ _ \<Rightarrow> True | Ucast _ _ _ \<Rightarrow> True | _ \<Rightarrow> False) (the (released s e)) = []" if "skb_sk e" for e
    using that by (simp add: released_def route_me_harder_def Let_def)
  then have f: "filter (\<lambda>e. case e of Bcast _ _ \<Rightarrow> True | Ucast _ _ _ \<Rightarrow> True | _ \<Rightarrow> False) (concat (map (the \<circ> released s) xs)) = []"
    if "\<forall>e\<in>set xs. skb_sk e" for xs
    using that by (induction xs) simp_all
  assume "ipq_send_ip b c d s = Some s'"
  with ipq_send_ip_spec [of b c d s] have "\<forall>e\<in>set (rev (filter (ip_cmp b c d) (waiting s))). skb_sk e"
    "out s' = out s @ concat (map (the \<circ> released s) (rev (filter (ip_cmp b c d) (waiting s))))" by auto
  with f show ?thesis by (simp add: messages_def)
qed

lemma messages_rrep_route: "rrep_aodv_route r s = Some (x, t) \<Longrightarrow> messages t = messages s"
proof (cases "find_src_list_entry (rt_src_ip r) s")
  case (Some e)
  obtain rc u where u: "rpdb_route True (sl_rt_table e) (rt_tos r) (rt_src_ip r) (rt_dst_ip r) (rt_next_hop r)
      (dev_index (cfg s)) (uint (rt_num_hops r)) s = (rc, u)" by fastforce
  then have "messages u = messages s" using messages_prims by (metis snd_conv)
  moreover assume "rrep_aodv_route r s = Some (x, t)"
  ultimately show ?thesis using Some u by (auto simp: rrep_aodv_route_def Let_def dest!: messages_ipq_send split: if_splits)
qed (simp add: rrep_aodv_route_def)

lemma messages_send_message:
  "messages (send_message ip ttl m s) = messages s \<or>
     find_aodv_neigh ip s \<noteq> None \<and> messages (send_message ip ttl m s) = messages s @ [Ucast ip ttl m]"
  by (auto simp: send_message_def messages_def out_sendmsg split: option.split)

lemma messages_next_id: "next_dst_id s = Some (i, t) \<Longrightarrow> messages t = messages s"
  by (auto simp: next_dst_id_def)

lemma messages_join: "join_routes p q s = Some (h, t) \<Longrightarrow> messages t = messages s"
  by (auto simp: join_routes_def Let_def split: bind_splits dest!: messages_rrep_route)

lemma messages_dtn_recv:
  assumes "dtn_recv_route r s = Some (p, t)" shows "messages t = messages s"
proof -
  have "create_aodv_route a b c d s = (q, u) \<Longrightarrow> messages u = messages s" for a b c d q u
    using messages_prims(8) [of a b c d s] by simp
  with assms show ?thesis by (auto simp: dtn_recv_route_def split: option.splits prod.splits)
qed

lemma messages_onward:
  assumes "rrep_onward n r p s = Some (rc, s')"
  shows "messages s' = messages s \<or>
    (\<exists>ip. messages s' = messages s @ [Ucast ip NET_DIAMETER (M_RREP (convert_rrep_to_network r))])"
proof -
  let ?m = "M_RREP (convert_rrep_to_network r)"
  have m: "messages (send_message h NET_DIAMETER ?m y) = messages y
      \<or> (\<exists>ip. messages (send_message h NET_DIAMETER ?m y) = messages y @ [Ucast ip NET_DIAMETER ?m])" for h y
    using messages_send_message [of h NET_DIAMETER ?m y] by blast
  from assms show ?thesis
    by (auto simp: rrep_onward_def split: bind_splits option.splits dest!: messages_rreq_route messages_join)
      (metis m)+
qed

definition reply_passed_on :: "rrep \<Rightarrow> rrep \<Rightarrow> bool" where
  "reply_passed_on m q \<longleftrightarrow>
     (\<exists>d. (d = rp_dttl m \<or> d = rp_dttl m - 1 \<and> rp_dttl m > 0) \<and> q = m\<lparr>rp_num_hops := rp_num_hops m + 1, rp_dttl := d\<rparr>)"

text \<open>
  C14: a reply that is not for the node is passed on at most once, to one neighbour, with a
  fresh TTL, one hop more, and the flow and the sequence numbers as they came; a reply of an
  unknown neighbour is not passed on.
\<close>

theorem recv_rrep_relays_safely:
  assumes "recv_rrep packet_src m s = Some (rc, s')"
    and "\<not> (rp_src_ip m = mesh_ip s \<or> rp_src_ip m = null_ip s \<and> rp_gateway m = mesh_ip s)"
  shows "messages s' = messages s \<or>
     (\<exists>ip q. messages s' = messages s @ [Ucast ip NET_DIAMETER (M_RREP q)] \<and> reply_passed_on m q
        \<and> find_aodv_neigh packet_src s \<noteq> None)"
proof (cases "find_aodv_neigh packet_src s")
  case None
  with assms(1) show ?thesis by (simp add: recv_rrep_def Let_def)
next
  case (Some n)
  let ?s = "update_neigh_timelife packet_src s"
  define r where "r = (convert_rrep_to_host m)\<lparr>rp_num_hops := rp_num_hops m + 1\<rparr>"
  have r: "rp_src_ip r = rp_src_ip m" "rp_gateway r = rp_gateway m"
    "rp_num_hops (convert_rrep_to_host m) = rp_num_hops m" "rp_src_ip (convert_rrep_to_host m) = rp_src_ip m"
    "rp_gateway (convert_rrep_to_host m) = rp_gateway m"
    by (simp_all add: r_def convert_rrep_to_host_def)
  have m: "reply_passed_on m (convert_rrep_to_network r)"
    "rp_dttl r > 0 \<Longrightarrow> reply_passed_on m (convert_rrep_to_network (r\<lparr>rp_dttl := rp_dttl r - 1\<rparr>))"
    unfolding reply_passed_on_def r_def convert_rrep_to_network_def convert_rrep_to_host_def by (cases m; auto)+
  from assms Some have rel: "rrep_relay n r ?s = Some (rc, s')"
    by (auto simp: recv_rrep_def Let_def r(3-5) r_def)
  then obtain recv t where t: "(if rp_dttl r > 0 then dtn_recv_route r ?s
      else Some (map_option rt_addr (find_aodv_route_by_id (rp_src_ip r) (rp_src_id r) ?s), ?s)) = Some (recv, t)"
    by (auto simp: rrep_relay_def split: bind_splits)
  then have mt: "messages t = messages s" by (auto dest: messages_dtn_recv split: if_splits)
  define u where "u = (if rp_dttl r > 0 \<and> dtn_register t then r\<lparr>rp_dttl := rp_dttl r - 1\<rparr> else r)"
  have u: "reply_passed_on m (convert_rrep_to_network u)" using m by (simp add: u_def)
  show ?thesis
  proof (cases recv)
    case None
    with rel t mt show ?thesis by (simp add: rrep_relay_def)
  next
    case (Some p)
    from rel t Some have "rrep_onward n u p t = Some (rc, s')" by (simp add: rrep_relay_def u_def Let_def)
    from messages_onward [OF this] mt u \<open>find_aodv_neigh packet_src s = Some n\<close> show ?thesis by auto
  qed
qed

section \<open>The reply of the destination\<close>

lemma route_at_member: "routes_ok s \<Longrightarrow> r \<in> set (route_table s) \<Longrightarrow> route_at (rt_addr r) s = Some r"
  unfolding route_at_def routes_ok_def
  by (cases "List.find (\<lambda>q. rt_addr q = rt_addr r) (route_table s)")
    (auto simp: find_None_iff find_Some_iff distinct_map inj_on_def dest: nth_mem)

lemma find_aodv_route_member: "find_aodv_route a b c s = Some r \<Longrightarrow> r \<in> set (route_table s)"
  using find_aodv_route_D by blast

lemma find_update_first_at:
  "(\<And>r. rt_addr (f r) = rt_addr r) \<Longrightarrow> List.find (\<lambda>r. rt_addr r = a) (update_first (\<lambda>r. rt_addr r = b) f rs) =
     map_option (if a = b then f else id) (List.find (\<lambda>r. rt_addr r = a) rs)"
  by (induction rs) (auto simp: option.map_id)

lemma route_at_set:
  "(\<And>r. rt_addr (f r) = rt_addr r) \<Longrightarrow>
     route_at a (set_route b f s) = map_option (if a = b then f else id) (route_at a s)"
  by (simp add: route_at_def set_route_def find_update_first_at)

lemma route_at_rrep:
  assumes "rrep_aodv_route r s = Some (c, t)" and "route_at a s = Some q"
  shows "\<exists>x l. route_at a t = Some (q\<lparr>rt_state := x, rt_lifetime := l\<rparr>)"
proof -
  have same: "route_at a u = Some q \<Longrightarrow> \<exists>x l. route_at a u = Some (q\<lparr>rt_state := x, rt_lifetime := l\<rparr>)" for u
    by (rule exI [of _ "rt_state q"], rule exI [of _ "rt_lifetime q"]) simp
  show ?thesis
  proof (cases "find_src_list_entry (rt_src_ip r) s")
    case None
    with assms same show ?thesis by (simp add: rrep_aodv_route_def)
  next
    case (Some e)
    obtain rc u where k: "rpdb_route True (sl_rt_table e) (rt_tos r) (rt_src_ip r) (rt_dst_ip r) (rt_next_hop r)
      (dev_index (cfg s)) (uint (rt_num_hops r)) s = (rc, u)" by fastforce
    have u: "route_at a u = Some q" using rpdb_route_D [OF k] assms(2) by (simp add: route_at_def)
    let ?w = "\<lambda>r. r\<lparr>rt_state := REPLIED, rt_lifetime := currtime u + DELETE_PERIOD\<rparr>"
    have v: "route_at a v = map_option (if a = p then ?w else id) (route_at a u)"
      if "ipq_send_ip b c d (set_route p ?w u) = Some v" for b c d p v
      using ipq_send_ip_frame [OF that] route_at_set [of ?w a p u] by (auto simp: route_at_def)
    have "t = u \<or> route_at a t = Some (if a = rt_addr r then ?w q else q)"
      using Some k u v assms(1) by (auto simp: rrep_aodv_route_def Let_def split: if_splits)
    then consider "route_at a t = Some q" | "route_at a t = Some (?w q)" using u by (auto split: if_splits)
    then show ?thesis
    proof cases
      case 1
      then show ?thesis by (rule same)
    next
      case 2
      then show ?thesis by blast
    qed
  qed
qed

lemma rrep_route_frame:
  assumes "rrep_aodv_route r s = Some (c, t)"
  shows "neigh_list t = neigh_list s \<and> sends t = sends s \<and> cfg t = cfg s"
proof (cases "find_src_list_entry (rt_src_ip r) s")
  case None
  with assms show ?thesis by (simp add: rrep_aodv_route_def)
next
  case (Some e)
  obtain rc u where k: "rpdb_route True (sl_rt_table e) (rt_tos r) (rt_src_ip r) (rt_dst_ip r) (rt_next_hop r)
      (dev_index (cfg s)) (uint (rt_num_hops r)) s = (rc, u)" by fastforce
  then have "neigh_list u = neigh_list s \<and> sends u = sends s \<and> cfg u = cfg s"
    by (auto simp: rpdb_route_def emit_def Let_def split: if_splits)
  with Some k assms show ?thesis
    by (auto simp: rrep_aodv_route_def Let_def set_route_def split: if_splits dest!: ipq_send_ip_frame)
qed

lemma rrep_route_returns:
  assumes "ipq s \<noteq> None" and "\<forall>p\<in>set (waiting s). ip_cmp (rt_src_ip r) (rt_dst_ip r) (rt_tos r) p \<longrightarrow> skb_sk p"
  shows "rrep_aodv_route r s \<noteq> None"
proof (cases "find_src_list_entry (rt_src_ip r) s")
  case None
  then show ?thesis by (simp add: rrep_aodv_route_def)
next
  case (Some e)
  obtain rc u where k: "rpdb_route True (sl_rt_table e) (rt_tos r) (rt_src_ip r) (rt_dst_ip r) (rt_next_hop r)
      (dev_index (cfg s)) (uint (rt_num_hops r)) s = (rc, u)" by fastforce
  then have "ipq u = ipq s" by (auto simp: rpdb_route_def emit_def Let_def split: if_splits)
  then have "ipq_send_ip (rt_src_ip r) (rt_dst_ip r) (rt_tos r) (set_route p f u) \<noteq> None" for p f
    using assms ipq_send_ip_spec [of "rt_src_ip r" "rt_dst_ip r" "rt_tos r" "set_route p f u"]
    by (auto simp: waiting_def set_route_def)
  with Some k show ?thesis by (simp add: rrep_aodv_route_def Let_def del: not_None_eq)
qed

lemma messages_send_exact:
  "messages (send_message ip ttl m s) = messages s @
     (if ttl \<noteq> 0 \<and> find_aodv_neigh ip s \<noteq> None \<and> msg_size m \<le> wspace s \<and> 0 \<le> sock_rc (cfg s) (sends s)
      then [Ucast ip ttl m] else [])"
  by (simp add: messages_def send_message_spec)

text \<open>
  C15: when the node answers a request (other than a DTN hello) over the reverse route of the flow, which
  is not its local route, with memory, and with a packet queue in which the packets of that route have a
  socket, it sends one reply and nothing else, to the next hop of that route: exactly when this is a
  neighbour, the socket has room and the kernel takes it. The reply names the ends of the
  route, carries the route's metric and the sequence number of the request, and the node's own
  sequence number, which is one more than before.
\<close>

theorem gen_rrep_spec:
  assumes "routes_ok s" and "\<And>n. alloc_ok (cfg s) n" and "find_aodv_route dst_ip src_ip tos s = Some r"
    and "route_at (local_route s) s = Some l" and "local_route s \<noteq> rt_addr r"
    and "\<not> (dtn_register s \<and> dst_ip = dtn_hello_ip (cfg s))"
    and "ipq s \<noteq> None" and "\<forall>p\<in>set (waiting s). ip_cmp dst_ip src_ip tos p \<longrightarrow> skb_sk p"
  shows "\<exists>s' q. gen_rrep src_ip dst_ip tos s = Some (1, s')
           \<and> messages s' = messages s @
               (if find_aodv_neigh (rt_next_hop r) s \<noteq> None \<and> msg_size (M_RREP q) \<le> wspace s \<and> 0 \<le> sock_rc (cfg s) (sends s)
                then [Ucast (rt_next_hop r) NET_DIAMETER (M_RREP q)] else [])
           \<and> rp_src_ip q = src_ip \<and> rp_dst_ip q = dst_ip \<and> rp_tos q = tos \<and> rp_num_hops q = 0 \<and> rp_dttl q = 0
           \<and> ntohl (rp_path_metric q) = rt_path_metric r \<and> ntohl (rp_src_id q) = rt_dst_id r
           \<and> ntohl (rp_dst_id q) = rt_dst_id l + 1"
proof -
  let ?a = "s\<lparr>allocs := Suc (Suc (allocs s))\<rparr>"
  let ?b = "set_route (local_route s) (\<lambda>r. r\<lparr>rt_dst_id := rt_dst_id r + 1\<rparr>) ?a"
  have r: "rt_src_ip r = dst_ip" "rt_dst_ip r = src_ip" "rt_tos r = tos" using find_aodv_route_D [OF assms(3)] by simp_all
  have at: "route_at p (s\<lparr>allocs := k\<rparr>) = route_at p s" for p k by (simp add: route_at_def)
  have ra: "route_at (rt_addr r) ?b = Some r"
    using route_at_member [OF assms(1) find_aodv_route_member [OF assms(3)]] assms(5) by (subst route_at_set) (simp_all add: at)
  have id: "next_dst_id ?a = Some (rt_dst_id l + 1, ?b)" using assms(4) by (simp add: next_dst_id_def at)
  have rr: "reply_route src_ip dst_ip tos r ?a = Some (Inr (rt_addr r, 0), ?a)" using assms(6) by (auto simp: reply_route_def)
  define q where "q = new_rrep r (rt_dst_id l + 1) tos 0 ?b"
  have "rrep_aodv_route r ?b \<noteq> None"
    using assms(7,8) by (intro rrep_route_returns) (simp_all add: r waiting_def set_route_def)
  then obtain x t where t: "rrep_aodv_route r ?b = Some (x, t)" by fastforce
  define c where "c = set_route (rt_addr r) (\<lambda>q. q\<lparr>rt_last_hop := rt_src_ip q\<rparr>) t"
  obtain w where w: "route_at (rt_addr r) c = Some w" "rt_next_hop w = rt_next_hop r"
    using route_at_rrep [OF t ra] route_at_set [of "\<lambda>q. q\<lparr>rt_last_hop := rt_src_ip q\<rparr>" "rt_addr r" "rt_addr r" t]
    by (auto simp: c_def)
  have m: "messages c = messages s" using messages_rrep_route [OF t] by (simp add: c_def messages_cong [of ?a s])
  have fr: "neigh_list c = neigh_list s" "sends c = sends s" "cfg c = cfg s"
    using rrep_route_frame [OF t] by (simp_all add: c_def set_route_def)
  let ?e = "send_message (rt_next_hop r) NET_DIAMETER (M_RREP (convert_rrep_to_network q)) c"
  have f: "find_aodv_route dst_ip src_ip tos (s\<lparr>allocs := k\<rparr>) = Some r" for k
    using assms(3) by (simp add: find_aodv_route_def)
  have k: "kmalloc (s\<lparr>allocs := k\<rparr>) = (Some (Suc k), s\<lparr>allocs := Suc k\<rparr>)" "kmalloc s = (Some (Suc (allocs s)), s\<lparr>allocs := Suc (allocs s)\<rparr>)" for k
    using assms(2) by (simp_all add: kmalloc_def)
  have "gen_rrep src_ip dst_ip tos s = Some (1, ?e)"
    using w by (simp add: gen_rrep_def k f rr id ra t q_def [symmetric] c_def [symmetric])
  moreover have "messages ?e = messages s @
      (if find_aodv_neigh (rt_next_hop r) s \<noteq> None \<and> msg_size (M_RREP (convert_rrep_to_network q)) \<le> wspace s \<and> 0 \<le> sock_rc (cfg s) (sends s)
       then [Ucast (rt_next_hop r) NET_DIAMETER (M_RREP (convert_rrep_to_network q))] else [])"
    by (simp add: messages_send_exact m fr wspace_def find_aodv_neigh_def)
  ultimately show ?thesis
    by (intro exI [of _ ?e] exI [of _ "convert_rrep_to_network q"])
      (simp add: convert_rrep_to_network_def q_def new_rrep_def r)
qed

section \<open>Examples\<close>

definition sample_answer :: node where
  "sample_answer = sample_known\<lparr>src_list := [\<lparr>sl_ip = 9, sl_rt_table = 1, sl_num_routes = 1\<rparr>]\<rparr>"

lemma sample_answer_simps [simp]:
  "routes_ok sample_answer" "find_aodv_route 9 8 0 sample_answer = Some (sample_route 2 9 8)" "cfg sample_answer = sample_cfg"
  "route_at 1 sample_answer = Some sample_self" "local_route sample_answer = 1" "rt_addr (sample_route 2 9 8) = 2"
  "find_src_list_entry 9 sample_answer \<noteq> None" "dtn_register sample_answer = False"
  by (simp_all add: sample_answer_def sample_known_def routes_ok_def find_aodv_route_def search_routes_def routes_to_def
      sample_self_def sample_route_def route_at_def find_src_list_entry_def)

lemma sample_answer_queue: "ipq sample_answer \<noteq> None" "waiting sample_answer = []"
  by (simp_all add: sample_answer_def sample_known_def waiting_def, simp_all add: sample_node_def)

lemma rrep_aodv_route_spec_witness:
  "\<exists>s' r. rrep_aodv_route (sample_route 2 9 8) sample_answer = Some (1, s') \<and> find_aodv_route 9 8 0 s' = Some r
     \<and> rt_state r = REPLIED \<and> nlreqs s' = Suc (nlreqs sample_answer)"
proof -
  obtain e where e: "find_src_list_entry 9 sample_answer = Some e" using sample_answer_simps(7) by blast
  have "kernel_grants (cfg sample_answer)" by (simp add: kernel_grants_def sample_simps)
  moreover have "dtn_hello_ip (cfg sample_answer) \<notin> {9, 8}" by (simp add: sample_cfg_def)
  ultimately show ?thesis
    using rrep_aodv_route_spec [OF sample_answer_simps(1,2) e _ sample_answer_queue(1)] by (auto simp: sample_answer_queue(2))
qed

lemma recv_rrep_relays_safely_witness:
  "\<exists>s'. recv_rrep 5 \<lparr>rp_type = RREP_MESSAGE, rp_reserved1 = 0, rp_q = False, rp_a = False, rp_tos = 0, rp_num_hops = 0,
      rp_dst_ip = 9, rp_src_ip = 7, rp_dst_id = 2, rp_gateway = 0, rp_path_metric = 4, rp_src_id = 3, rp_dttl = 0,
      rp_x = 0, rp_y = 0\<rparr> sample_known = Some (1, s') \<and> messages s' = []"
proof -
  let ?m = "\<lparr>rp_type = RREP_MESSAGE, rp_reserved1 = 0, rp_q = False, rp_a = False, rp_tos = 0, rp_num_hops = 0,
      rp_dst_ip = 9, rp_src_ip = 7, rp_dst_id = 2, rp_gateway = 0, rp_path_metric = 4, rp_src_id = 3, rp_dttl = 0,
      rp_x = 0, rp_y = 0\<rparr>"
  have r: "recv_rrep 5 ?m sample_known = Some (1, update_neigh_timelife 5 sample_known)"
    by (simp add: recv_rrep_def rrep_relay_def convert_rrep_to_host_def find_aodv_route_by_id_def search_routes_def
        routes_to_def sample_self_def sample_route_def Let_def)
  have m: "messages sample_known = []" by (simp add: messages_def sample_known_def)
  from recv_rrep_relays_safely [OF r] r m show ?thesis by simp
qed

lemma gen_rrep_spec_witness:
  "\<exists>s' q. gen_rrep 8 9 0 sample_answer = Some (1, s') \<and>
     messages s' = messages sample_answer @ [Ucast 5 NET_DIAMETER (M_RREP q)] \<and> rp_src_ip q = 8"
proof -
  have h: "route_at (local_route sample_answer) sample_answer = Some sample_self" "local_route sample_answer \<noteq> rt_addr (sample_route 2 9 8)"
    "\<not> (dtn_register sample_answer \<and> 9 = dtn_hello_ip (cfg sample_answer))" "\<And>n. alloc_ok (cfg sample_answer) n"
    using sample_answer_simps(4) by (simp_all only: sample_answer_simps) (simp_all del: One_nat_def)
  have "find_aodv_neigh 5 sample_answer \<noteq> None" "msg_size (M_RREP q) \<le> wspace sample_answer"
    "sock_rc (cfg sample_answer) (sends sample_answer) = 0" "rt_next_hop (sample_route 2 9 8) = 5" for q
    by (simp_all add: find_aodv_neigh_def sample_answer_def sample_known_def sample_route_def wspace_def sample_cfg_def)
  then show ?thesis
    using gen_rrep_spec [OF sample_answer_simps(1) h(4) sample_answer_simps(2) h(1-3) sample_answer_queue(1)]
    by (auto simp: sample_answer_queue(2))
qed

end
