(* ===== verification/Hello.thy ===== *)
theory Hello
  imports Rrep
begin

text \<open>
  Hellos, \<open>hello.c\<close>: the node says every second whom it hears and how well; whoever hears a
  hello learns of a neighbour, tries to recover the broken links it remembers, and keeps the
  figures behind the ETX metric and the load of the nodes around. Faults (\<open>None\<close>): a write in
  front of the full table of transmitters, a read behind a hello that promises more
  extensions than it has, and those of \<open>gen_rreq\<close> and \<open>create_aodv_neigh\<close>.
\<close>

section \<open>Loads\<close>

definition fresher_load :: "u16 \<Rightarrow> u16 \<Rightarrow> bool" where
  "fresher_load load_seq old \<longleftrightarrow> load_seq > old \<or> (load_seq < old \<and> uint old - uint load_seq > 64000)"

definition update_neigh_load :: "u8 \<Rightarrow> u16 \<Rightarrow> aodv_neigh \<Rightarrow> aodv_neigh" where
  "update_neigh_load load load_seq n =
     (if fresher_load load_seq (ng_load_seq n) then n\<lparr>ng_load := load, ng_load_seq := load_seq\<rparr> else n)"

definition update_neigh_2h_load :: "u8 \<Rightarrow> u16 \<Rightarrow> aodv_neigh_2h \<Rightarrow> aodv_neigh_2h" where
  "update_neigh_2h_load load load_seq n =
     (if fresher_load load_seq (n2_load_seq n) then n\<lparr>n2_load := load, n2_load_seq := load_seq\<rparr> else n)"

text \<open>The slot the search ends with: that of the address, else the first empty one.\<close>

fun neightx_slot :: "u32 \<Rightarrow> nat \<Rightarrow> nat option \<Rightarrow> u32 list \<Rightarrow> nat option" where
  "neightx_slot neightx i first_empty [] = first_empty"
| "neightx_slot neightx i first_empty (position # ps) =
     (if position = neightx then Some i
      else if position = 0 \<and> first_empty = None then neightx_slot neightx (Suc i) (Some i) ps
      else neightx_slot neightx (Suc i) first_empty ps)"

text \<open>On the table of the neighbour.\<close>

definition update_neightx :: "u32 \<Rightarrow> u32 list \<Rightarrow> u32 list option" where
  "update_neightx neightx neigh_tx = map_option (\<lambda>i. neigh_tx[i := neightx]) (neightx_slot neightx 0 None neigh_tx)"

section \<open>Saying hello\<close>

definition etx_round :: "aodv_neigh \<Rightarrow> aodv_neigh" where
  "etx_round n =
     (if etx_count n = 0 then n
      else
        let recv = (if etx_count n > 10 then 10 else etx_count n);
            send = (if etx_send n > 10 then 10 else etx_send n)
        in n\<lparr>etx_recv := recv, etx_count := 0, etx_send := send, ng_etx_metric := recv * send\<rparr>)"

definition compute_etx :: "node \<Rightarrow> node" where
  "compute_etx s = s\<lparr>neigh_list := map etx_round (neigh_list s)\<rparr>"

text \<open>\<open>rand\<close> is an \<open>int\<close>: the jitter may be negative, and wraps as a \<open>u64\<close>.\<close>

definition hello_jitter :: "u32 \<Rightarrow> u64" where
  "hello_jitter rand = word_of_int (if 0 \<le> sint rand then sint rand mod 40 else - ((- sint rand) mod 40))"

text \<open>\<open>ENOMEM\<close> is 12.\<close>

definition send_hello :: "hello_extension list \<Rightarrow> int \<Rightarrow> node \<Rightarrow> int \<times> node" where
  "send_hello total_ext num_neigh s =
     (case kmalloc s of
        (None, s) \<Rightarrow> (-12, s)
      | (Some _, s) \<Rightarrow>
          let tmp_hello = \<lparr>he_type = HELLO_MESSAGE, he_reserved1 = 0, he_neigh_count = word_of_int num_neigh,
                he_num_hops = 0, he_load = mesh_load s, he_load_seq = mesh_load_seq s\<rparr>;
              s = snd (local_broadcast 1 (M_HELLO tmp_hello total_ext) s)
          in (case get_random_bytes s of
                (rand, s) \<Rightarrow>
                  let s = snd (insert_timer_simple TASK_HELLO (HELLO_INTERVAL + hello_jitter rand) (mesh_ip s) s);
                      s = update_timer_queue s;
                      s = s\<lparr>hello_count := hello_count s + 1\<rparr>;
                      s = (if hello_count s = 10
                           then let s = s\<lparr>hello_count := 0\<rparr> in if metric s \<noteq> HOPS then compute_etx s else s
                           else s)
                  in (1, s)))"

text \<open>One extension per neighbour, in front of the ones before; \<open>None\<close> when memory ran out.\<close>

fun hello_exts :: "aodv_neigh list \<Rightarrow> hello_extension list \<Rightarrow> node \<Rightarrow> hello_extension list option \<times> node" where
  "hello_exts [] total_ext s = (Some total_ext, s)"
| "hello_exts (n # ns) total_ext s =
     (case kmalloc s of
        (None, s) \<Rightarrow> (None, s)
      | (Some _, s) \<Rightarrow>
          hello_exts ns (\<lparr>hx_ip = ng_ip n, hx_count = etx_recv n, hx_load = ng_load n, hx_load_seq = ng_load_seq n\<rparr>
                         # total_ext) s)"

text \<open>\<open>gen_hello\<close> returns 0.\<close>

definition gen_hello :: "node \<Rightarrow> node" where
  "gen_hello s =
     (case (if metric s \<noteq> HOPS then hello_exts (neigh_list s) [] s else (Some [], s)) of
        (None, s) \<Rightarrow> s
      | (Some total_ext, s) \<Rightarrow> snd (send_hello total_ext (int (length total_ext)) s))"

section \<open>Hearing a hello\<close>

text \<open>A new neighbour may be the lost destination of a broken link, or lead to it.\<close>

fun recover_links :: "u32 \<Rightarrow> brk_link list \<Rightarrow> node \<Rightarrow> node option" where
  "recover_links src [] s = Some s"
| "recover_links src (l # ls) s =
     (if bl_state l \<noteq> INVALID \<and> \<not> is_overlapped_with_route l s then
        if bl_dst_ip l = src then Some (snd (gen_rcvp src s))
        else Option.bind (gen_rreq (mesh_ip s) (bl_dst_ip l) 2 s) (recover_links src ls)
      else recover_links src ls s)"

definition redirect_route :: "aodv_route \<Rightarrow> node \<Rightarrow> node" where
  "redirect_route r s =
     (let s = (if rt_src_ip r \<noteq> rt_dst_ip r \<and> rt_src_ip r \<noteq> mesh_ip s
               then snd (gen_rrdp (rt_src_ip r) (rt_dst_ip r) (rt_last_hop r) (rt_tos r) s) else s)
      in if rt_src_ip r = mesh_ip s \<and> dtn_register s \<and> rt_src_ip r \<noteq> rt_dst_ip r
         then send2dtn (rt_src_ip r, rt_dst_ip r, 0, ucast RRDP_MESSAGE) DTNPORT s else s)"

text \<open>The loop ends at the first route that is not in use.\<close>

definition redirect_routes :: "node \<Rightarrow> node" where
  "redirect_routes s = fold redirect_route (takeWhile (\<lambda>r. rt_state r \<noteq> INVALID) (route_table s)) s"

text \<open>The first hello of a neighbour: \<open>False\<close> when it could not be taken in.\<close>

definition new_neighbour :: "u32 \<Rightarrow> node \<Rightarrow> (bool \<times> node) option" where
  "new_neighbour src s =
     (let n2 = find_aodv_neigh_2h src s;
          load = (case n2 of None \<Rightarrow> 0 | Some n \<Rightarrow> n2_load n);
          load_seq = (case n2 of None \<Rightarrow> 0 | Some n \<Rightarrow> n2_load_seq n);
          s = (case n2 of None \<Rightarrow> s | Some n \<Rightarrow> snd (delete_aodv_neigh_2h (n2_ip n) s))
      in do {
        (hello_orig, s) \<leftarrow> create_aodv_neigh src s;
        (case hello_orig of
           None \<Rightarrow> Some (False, s)
         | Some _ \<Rightarrow> do {
             s \<leftarrow> recover_links src (brk_list s) s;
             Some (True, set_neigh src (\<lambda>n. n\<lparr>ng_load := load, ng_load_seq := load_seq\<rparr>) (redirect_routes s))
           })
      })"

definition hear_2h :: "hello \<Rightarrow> u32 \<Rightarrow> node \<Rightarrow> node" where
  "hear_2h h ip s =
     (case find_aodv_neigh_2h ip s of
        None \<Rightarrow>
          (case create_aodv_neigh_2h ip s of
             (None, s) \<Rightarrow> s
           | (Some _, s) \<Rightarrow> set_neigh_2h ip (update_neigh_2h_load (he_load h) (he_load_seq h)) s)
      | Some _ \<Rightarrow>
          let s = delete_timer ip ip NO_TOS TASK_NEIGHBOR_2H s;
              s = snd (insert_timer_simple TASK_NEIGHBOR_2H (NEIGHBOR_2H_TIMEOUT + 100) ip s);
              s = update_timer_queue s;
              s = set_neigh_2h ip (\<lambda>n. n\<lparr>n2_lifetime := currtime s + NEIGHBOR_2H_TIMEOUT\<rparr>) s
          in set_neigh_2h ip (update_neigh_2h_load (he_load h) (he_load_seq h)) s)"

text \<open>One extension; \<open>True\<close> ends the handler.\<close>

definition recv_ext :: "u32 \<Rightarrow> hello \<Rightarrow> hello_extension \<Rightarrow> node \<Rightarrow> (bool \<times> node) option" where
  "recv_ext src h x s =
     (if hx_ip x = mesh_ip s then
        let s = set_neigh src (\<lambda>n. n\<lparr>etx_send := hx_count x\<rparr>) s in Some (metric s = ETT, s)
      else if metric s = WCIM then
        let s = (case find_aodv_neigh (hx_ip x) s of
                   Some _ \<Rightarrow> set_neigh (hx_ip x) (update_neigh_load (he_load h) (he_load_seq h)) s
                 | None \<Rightarrow> hear_2h h (hx_ip x) s)
        in do {
          n \<leftarrow> find_aodv_neigh src s;
          neigh_tx \<leftarrow> update_neightx (hx_ip x) (ng_neigh_tx n);
          Some (False, set_neigh src (\<lambda>n. n\<lparr>ng_neigh_tx := neigh_tx\<rparr>) s)
        }
      else Some (False, s))"

fun recv_exts :: "u32 \<Rightarrow> hello \<Rightarrow> nat \<Rightarrow> hello_extension list \<Rightarrow> node \<Rightarrow> node option" where
  "recv_exts src h 0 xs s = Some s"
| "recv_exts src h (Suc k) [] s = None"
| "recv_exts src h (Suc k) (x # xs) s = do {
     (stop, s) \<leftarrow> recv_ext src h x s;
     if stop then Some s else recv_exts src h k xs s
   }"

text \<open>The neighbour is known: its lifetime, its count, its load, and what it says of others.\<close>

definition hear_neighbour :: "u32 \<Rightarrow> hello \<Rightarrow> hello_extension list \<Rightarrow> node \<Rightarrow> node option" where
  "hear_neighbour src h xs s =
     (let s = update_neigh_timelife src s in
      if metric s = HOPS then Some s
      else
        let s = set_neigh src (\<lambda>n. n\<lparr>etx_count := etx_count n + 1\<rparr>) s;
            s = (if metric s = WCIM then set_neigh src (update_neigh_load (he_load h) (he_load_seq h)) s else s)
        in recv_exts src h (unat (he_neigh_count h)) xs s)"

definition recv_hello :: "u32 \<Rightarrow> hello \<Rightarrow> hello_extension list \<Rightarrow> node \<Rightarrow> (int \<times> node) option" where
  "recv_hello src h xs s =
     (if src \<in> set (aodv_blacklist_ip (cfg s)) then Some (0, s)
      else do {
        (known, s) \<leftarrow> (if find_aodv_neigh src s = None then new_neighbour src s else Some (True, s));
        if known then map_option (\<lambda>s. (0, s)) (hear_neighbour src h xs s) else Some (-1, s)
      })"

section \<open>The handlers keep the invariant\<close>

lemma etx_round_keeps [simp]: "ng_ip (etx_round n) = ng_ip n" "neigh_wf (etx_round n) = neigh_wf n"
  by (simp_all add: etx_round_def neigh_wf_def Let_def)

lemma update_neigh_load_keeps [simp]:
  "ng_ip (update_neigh_load l q n) = ng_ip n" "neigh_wf (update_neigh_load l q n) = neigh_wf n"
  "n2_ip (update_neigh_2h_load l q m) = n2_ip m" "ng_lifetime (update_neigh_load l q n) = ng_lifetime n"
  by (simp_all add: update_neigh_load_def update_neigh_2h_load_def neigh_wf_def)

lemma neigh_wf_etx [simp]: "neigh_wf (n\<lparr>etx_count := c\<rparr>) = neigh_wf n" "neigh_wf (n\<lparr>etx_send := c\<rparr>) = neigh_wf n"
  by (simp_all add: neigh_wf_def)

lemma neigh_wf_tx [simp]: "length tx = length (ng_neigh_tx n) \<Longrightarrow> neigh_wf (n\<lparr>ng_neigh_tx := tx\<rparr>) = neigh_wf n"
  by (simp add: neigh_wf_def)

lemma compute_etx_ok: "neighs_ok s \<Longrightarrow> neighs_ok (compute_etx s)"
  by (simp add: neighs_ok_def compute_etx_def comp_def)

lemma evolve_compute_etx [evolve]: "evolves a s \<Longrightarrow> evolves a (compute_etx s)"
  by (erule evolvesI) (simp_all add: compute_etx_ok, simp_all add: compute_etx_def table_defs)

lemma evolve_hello_count [evolve]: "evolves a s \<Longrightarrow> evolves a (s\<lparr>hello_count := n\<rparr>)"
  by (erule evolvesI) (auto simp: table_defs)

lemma evolve_send_hello [evolve]: "evolves a s \<Longrightarrow> evolves a (snd (send_hello xs n s))"
  unfolding send_hello_def Let_def split_beta by (intro evolve evolve_vcg) (assumption | simp)+

lemma evolve_hello_exts [evolve]: "evolves a s \<Longrightarrow> evolves a (snd (hello_exts ns xs s))"
proof (induction ns arbitrary: xs s)
  case (Cons n ns)
  from evolve_kmalloc [OF Cons.prems] Cons.IH show ?case by (auto simp: split_beta split: option.split)
qed simp

lemma evolve_gen_hello [evolve]: "evolves a s \<Longrightarrow> evolves a (gen_hello s)"
  unfolding gen_hello_def split_beta by (intro evolve evolve_vcg) (assumption | simp)+

lemma evolve_recover [evolve]: "evolves a s \<Longrightarrow> opt_ok (evolves a) (recover_links src ls s)"
proof (induction ls arbitrary: s)
  case (Cons l ls)
  show ?case unfolding recover_links.simps
    by (intro evolve_flow evolve_some evolve_bind(4) [OF evolve_gen_rreq] Cons.IH evolve_gen_rcvp Cons.prems) assumption
qed simp

lemma evolve_redirect [evolve]: "evolves a s \<Longrightarrow> evolves a (redirect_routes s)"
  unfolding redirect_routes_def
proof (rule evo.fold)
  show "evolves a t \<Longrightarrow> evolves a (redirect_route r t)" for r t
    unfolding redirect_route_def Let_def by (intro evolve evolve_vcg) assumption+
qed

lemma evolve_new_neighbour [evolve]: "evolves a s \<Longrightarrow> evolves_to a (new_neighbour src s)"
  unfolding new_neighbour_def Let_def split_beta
  by (intro evolve_bind evolve evolve_vcg) (auto simp: neigh_wf_def)

lemma evolve_hear_2h [evolve]: "evolves a s \<Longrightarrow> evolves a (hear_2h h ip s)"
  unfolding hear_2h_def Let_def
  by (cases "create_aodv_neigh_2h ip s")
    (auto split: option.split intro!: evolve dest: evolve_create_2h [of a s ip])

lemma update_neightx_length: "update_neightx x tx = Some tx' \<Longrightarrow> length tx' = length tx"
  by (auto simp: update_neightx_def)

lemma evolve_recv_ext [evolve]: "evolves a s \<Longrightarrow> evolves_to a (recv_ext src h x s)"
  unfolding recv_ext_def Let_def
  by (intro evolve_flow evolve_read evolve_some evolve_set_neigh evolve_hear_2h)
    (auto simp: update_neightx_length)

lemma evolve_recv_exts [evolve]: "evolves a s \<Longrightarrow> opt_ok (evolves a) (recv_exts src h k xs s)"
proof (induction src h k xs s rule: recv_exts.induct)
  case (3 src h k x xs s)
  show ?case
  proof (cases "recv_ext src h x s")
    case (Some p)
    with evolve_recv_ext [OF 3(2), of src h x] 3(1) [OF Some] show ?thesis by (cases p) auto
  qed simp
qed simp_all

lemma evolve_hear [evolve]: "evolves a s \<Longrightarrow> opt_ok (evolves a) (hear_neighbour src h xs s)"
  unfolding hear_neighbour_def Let_def by (intro evolve evolve_vcg) auto

lemma evolve_recv_hello [evolve]: "evolves a s \<Longrightarrow> evolves_to a (recv_hello src h xs s)"
  unfolding recv_hello_def split_beta by (intro evolve_flow evolve_bind(1) evolve_some evolve evolve_map) auto

section \<open>The table of transmitters\<close>

lemma neightx_slot_spec:
  "neightx_slot x i fe tx =
     (if x \<in> set tx then Some (i + length (takeWhile (\<lambda>p. p \<noteq> x) tx))
      else if fe = None \<and> 0 \<in> set tx then Some (i + length (takeWhile (\<lambda>p. p \<noteq> 0) tx)) else fe)"
  by (induction tx arbitrary: i fe) auto

lemma update_takeWhile:
  "y \<in> set xs \<Longrightarrow> xs[length (takeWhile (\<lambda>p. p \<noteq> y) xs) := x] = takeWhile (\<lambda>p. p \<noteq> y) xs @ x # tl (dropWhile (\<lambda>p. p \<noteq> y) xs)"
  by (induction xs) auto

lemma takeWhile_self: "y \<in> set xs \<Longrightarrow> takeWhile (\<lambda>p. p \<noteq> y) xs @ y # tl (dropWhile (\<lambda>p. p \<noteq> y) xs) = xs"
  by (induction xs) auto

text \<open>
  C38: an address that a neighbour hears is kept once: the table stays as it is when it has
  the address, else the address takes the first empty slot. A full table without it has no
  slot: the code then writes in front of the array, which is the fault of the model.
\<close>

theorem update_neightx_spec:
  "update_neightx x tx =
     (if x \<in> set tx then Some tx
      else if 0 \<in> set tx
           then Some (takeWhile (\<lambda>p. p \<noteq> 0) tx @ x # tl (dropWhile (\<lambda>p. p \<noteq> 0) tx))
      else None)"
  by (simp add: update_neightx_def neightx_slot_spec update_takeWhile takeWhile_self)

section \<open>ETX\<close>

lemma find_map_etx:
  "List.find (\<lambda>n. ng_ip n = ip) (map etx_round ns) = map_option etx_round (List.find (\<lambda>n. ng_ip n = ip) ns)"
  by (induction ns) auto

text \<open>
  C35: a round of ETX counts at most ten hellos each way, so the metric of a neighbour that was
  heard is the product of two counts of at most ten and does not wrap; its count starts again
  at zero, and a neighbour that was not heard keeps its figures.
\<close>

theorem compute_etx_spec:
  assumes "neighs_ok s" and "find_aodv_neigh ip s = Some n"
  shows "\<exists>n'. find_aodv_neigh ip (compute_etx s) = Some n'
     \<and> (if etx_count n = 0 then n' = n
        else etx_count n' = 0 \<and> unat (etx_recv n') = min 10 (unat (etx_count n))
           \<and> unat (etx_send n') = min 10 (unat (etx_send n))
           \<and> unat (ng_etx_metric n') = min 10 (unat (etx_count n)) * min 10 (unat (etx_send n)))"
proof -
  have f: "find_aodv_neigh ip (compute_etx s) = Some (etx_round n)"
    using assms find_aodv_neigh_iff [OF assms(1)] find_aodv_neigh_iff [OF compute_etx_ok [OF assms(1)]]
    by (simp add: compute_etx_def find_map_etx)
  have m: "unat (if w > 10 then 10 else w) = min 10 (unat w)" for w :: u8
    by (simp add: word_less_nat_alt min_def)
  let ?r = "if etx_count n > 10 then 10 else etx_count n" and ?s = "if etx_send n > 10 then 10 else etx_send n"
  have "unat ?r * unat ?s \<le> 10 * 10" unfolding m by (rule mult_le_mono) simp_all
  then have "unat (?r * ?s) = unat ?r * unat ?s" by (subst unat_mult_lem [THEN iffD1]) simp_all
  then have p: "unat (?r * ?s) = min 10 (unat (etx_count n)) * min 10 (unat (etx_send n))" unfolding m .
  show ?thesis
  proof (cases "etx_count n = 0")
    case True
    with f show ?thesis by (simp add: etx_round_def)
  next
    case False
    have e: "etx_round n = n\<lparr>etx_recv := ?r, etx_count := 0, etx_send := ?s, ng_etx_metric := ?r * ?s\<rparr>"
      using False by (simp add: etx_round_def Let_def)
    show ?thesis
      by (rule exI [of _ "etx_round n"], intro conjI, rule f) (use False p m in \<open>simp only: e, simp\<close>)
  qed
qed

section \<open>A heard neighbour is known\<close>

lemma rcvp_link_neighs [simp]: "neigh_list (snd (rcvp_link d l s)) = neigh_list s"
  by (simp add: rcvp_link_def Let_def split_beta remove_brk_link_def split: option.split)

lemma rcvp_links_neighs [simp]: "neigh_list (snd (rcvp_links d ls s)) = neigh_list s"
  by (induction ls arbitrary: s) (simp_all add: split_beta)

lemma gen_rcvp_neighs [simp]: "neigh_list (snd (gen_rcvp d s)) = neigh_list s"
  by (simp add: gen_rcvp_def)

lemma kmalloc_neighs: "kmalloc s = (r, u) \<Longrightarrow> neigh_list u = neigh_list s"
  by (drule kmalloc_simps) simp

lemma next_dst_id_neighs: "next_dst_id s = Some (i, u) \<Longrightarrow> neigh_list u = neigh_list s"
  by (auto simp: next_dst_id_def set_route_def)

lemma gen_rreq_neighs:
  assumes "gen_rreq b c d s = Some t"
  shows "neigh_list t = neigh_list s"
proof (cases "kmalloc s")
  case (Pair r u)
  show ?thesis
  proof (cases r)
    case None
    with assms Pair have "t = u" by (simp add: gen_rreq_def)
    with kmalloc_neighs [OF Pair] show ?thesis by simp
  next
    case (Some x)
    with assms Pair have "\<exists>i v. next_dst_id u = Some (i, v) \<and> neigh_list t = neigh_list v"
      by (auto simp: gen_rreq_def Let_def split: bind_splits)
    with next_dst_id_neighs kmalloc_neighs [OF Pair] show ?thesis by metis
  qed
qed

lemma gen_rrdp_neighs [simp]: "neigh_list (snd (gen_rrdp b c d e s)) = neigh_list s"
proof (cases "kmalloc s")
  case (Pair r u)
  with kmalloc_neighs [OF Pair] show ?thesis by (cases r) (simp_all add: gen_rrdp_def)
qed

lemma recover_links_neighs: "recover_links src ls s = Some t \<Longrightarrow> neigh_list t = neigh_list s"
  by (induction ls arbitrary: s) (auto split: if_splits bind_splits dest: gen_rreq_neighs)

lemma redirect_routes_neighs [simp]: "neigh_list (redirect_routes s) = neigh_list s"
proof -
  have one: "neigh_list (redirect_route r t) = neigh_list t" for r t
    unfolding redirect_route_def Let_def by (simp only: if_distrib [of neigh_list] gen_rrdp_neighs send2dtn_frame if_cancel)
  have "neigh_list (fold redirect_route rs t) = neigh_list t" for rs t by (induction rs arbitrary: t) (simp_all add: one)
  then show ?thesis by (simp add: redirect_routes_def)
qed

lemma hear_2h_neighs [simp]: "neigh_list (hear_2h h ip s) = neigh_list s"
proof -
  have "neigh_list (snd (create_aodv_neigh_2h ip s)) = neigh_list s"
  proof (cases "kmalloc s")
    case (Pair r u)
    with kmalloc_neighs [OF Pair] show ?thesis by (cases r) (simp_all add: create_aodv_neigh_2h_def Let_def)
  qed
  then have c: "create_aodv_neigh_2h ip s = (r, t) \<Longrightarrow> neigh_list t = neigh_list s" for r t by simp
  show ?thesis by (cases "create_aodv_neigh_2h ip s") (auto simp: hear_2h_def set_neigh_2h_def Let_def split: option.split dest: c)
qed

definition heard :: "u32 \<Rightarrow> u64 \<Rightarrow> node \<Rightarrow> bool" where
  "heard src l s \<longleftrightarrow> (\<exists>n. find_aodv_neigh src s = Some n \<and> ng_lifetime n = l)"

lemma heard_cong: "neigh_list t = neigh_list s \<Longrightarrow> heard src l t = heard src l s"
  by (simp add: heard_def find_aodv_neigh_def)

lemma heard_set_neigh:
  assumes "node_ok s" and "heard src l s" and "\<And>n. ng_ip (f n) = ng_ip n" and "\<And>n. ng_lifetime (f n) = ng_lifetime n"
    and "\<And>n. find_aodv_neigh ip s = Some n \<Longrightarrow> neigh_wf n \<Longrightarrow> neigh_wf (f n)"
  shows "heard src l (set_neigh ip f s)"
  using assms find_set_neigh [of s f ip src] by (auto simp: heard_def node_ok_def)

lemma node_ok_evolves: "evolves s t \<Longrightarrow> node_ok s \<Longrightarrow> node_ok t"
  by (simp add: evolves_def)

lemma heard_recv_ext:
  assumes "node_ok s" and "heard src l s" and "recv_ext src h x s = Some (b, t)"
  shows "heard src l t"
proof (cases "hx_ip x = mesh_ip s")
  case True
  with assms(3) have "t = set_neigh src (\<lambda>n. n\<lparr>etx_send := hx_count x\<rparr>) s" by (simp add: recv_ext_def Let_def)
  with heard_set_neigh [OF assms(1,2)] show ?thesis by simp
next
  case ip: False
  show ?thesis
  proof (cases "metric s = WCIM")
    case False
    with assms ip show ?thesis by (simp add: recv_ext_def)
  next
    case True
    let ?u = "case find_aodv_neigh (hx_ip x) s of
        Some _ \<Rightarrow> set_neigh (hx_ip x) (update_neigh_load (he_load h) (he_load_seq h)) s | None \<Rightarrow> hear_2h h (hx_ip x) s"
    have u: "heard src l ?u"
      using heard_set_neigh [OF assms(1,2), of "update_neigh_load (he_load h) (he_load_seq h)" "hx_ip x"] assms(2)
        heard_cong [OF hear_2h_neighs] by (simp split: option.split)
    have ok: "node_ok ?u"
      by (rule node_ok_evolves [OF _ assms(1)], intro evolve_flow(4) evolve_hear_2h evolve_set_neigh evolves_refl) simp_all
    from assms(3) ip True obtain n tx where n: "find_aodv_neigh src ?u = Some n" "update_neightx (hx_ip x) (ng_neigh_tx n) = Some tx"
      and t: "t = set_neigh src (\<lambda>n. n\<lparr>ng_neigh_tx := tx\<rparr>) ?u"
      by (auto simp: recv_ext_def Let_def split: bind_splits)
    show ?thesis unfolding t
      by (rule heard_set_neigh [OF ok u]) (use n update_neightx_length [OF n(2)] in auto)
  qed
qed

lemma heard_recv_exts:
  "recv_exts src h k xs s = Some t \<Longrightarrow> node_ok s \<Longrightarrow> heard src l s \<Longrightarrow> heard src l t"
proof (induction src h k xs s rule: recv_exts.induct)
  case (3 src h k x xs s)
  from 3(2) obtain b u where u: "recv_ext src h x s = Some (b, u)" by (auto split: bind_splits)
  have "node_ok u" using opt_okD [OF evolve_recv_ext [OF evolves_refl] u] node_ok_evolves [OF _ 3(3)] by simp
  with 3 u heard_recv_ext [OF 3(3,4) u] show ?case by (auto split: if_splits)
qed simp_all

lemma heard_hear_neighbour:
  assumes "node_ok s" and "find_aodv_neigh src s \<noteq> None" and "hear_neighbour src h xs s = Some t"
  shows "heard src (HELLO_INTERVAL * (1 + ALLOWED_HELLO_LOSS) + 20 + currtime s) t"
proof -
  let ?l = "HELLO_INTERVAL * (1 + ALLOWED_HELLO_LOSS) + 20 + currtime s"
  let ?f = "\<lambda>n :: aodv_neigh. n\<lparr>ng_lifetime := ?l\<rparr>"
  let ?u = "update_neigh_timelife src s"
  have ok: "node_ok ?u" by (rule node_ok_evolves [OF _ assms(1)]) (simp add: evolve)
  obtain v where v: "?u = set_neigh src ?f v" "neigh_list v = neigh_list s"
    by (rule that [of "update_timer_queue (snd (insert_timer_simple TASK_NEIGHBOR
          (HELLO_INTERVAL * (1 + ALLOWED_HELLO_LOSS) + 100) src (delete_timer src src NO_TOS TASK_NEIGHBOR s)))"])
      (simp_all add: update_neigh_timelife_def Let_def)
  have "neighs_ok v" using assms(1) v(2) by (simp add: node_ok_def neighs_ok_def)
  then have h: "heard src ?l ?u"
    using find_set_neigh [of v ?f src src] assms(2) v
    by (auto simp: heard_def find_aodv_neigh_def neigh_wf_def)
  show ?thesis
  proof (cases "metric s = HOPS")
    case True
    with assms(3) h show ?thesis by (simp add: hear_neighbour_def)
  next
    case False
    let ?w = "set_neigh src (\<lambda>n. n\<lparr>etx_count := etx_count n + 1\<rparr>) ?u"
    let ?x = "if metric s = WCIM then set_neigh src (update_neigh_load (he_load h) (he_load_seq h)) ?w else ?w"
    have w: "heard src ?l ?w" "node_ok ?w"
      by (rule heard_set_neigh [OF ok h], simp_all, rule node_ok_evolves [OF evolve_set_neigh ok], simp_all)
    have x: "heard src ?l ?x" "node_ok ?x"
      using w heard_set_neigh [OF w(2,1), of "update_neigh_load (he_load h) (he_load_seq h)" src]
        node_ok_evolves [OF evolve_set_neigh w(2), OF evolves_refl] by simp_all
    have m: "metric ?w = metric s" by (simp add: set_neigh_def)
    from assms(3) False have "recv_exts src h (unat (he_neigh_count h)) xs ?x = Some t"
      by (simp add: hear_neighbour_def Let_def m)
    from heard_recv_exts [OF this x(2,1)] show ?thesis .
  qed
qed

lemma new_neighbour_known:
  assumes "node_ok s" and "new_neighbour src s = Some (True, t)"
  shows "find_aodv_neigh src t \<noteq> None"
proof -
  let ?u = "case find_aodv_neigh_2h src s of None \<Rightarrow> s | Some n \<Rightarrow> snd (delete_aodv_neigh_2h (n2_ip n) s)"
  have ok: "node_ok ?u" by (rule node_ok_evolves [OF _ assms(1)], intro evolve_flow(4) evolve) simp_all
  from assms(2) obtain n v w l q where v: "create_aodv_neigh src ?u = Some (Some n, v)"
    and w: "recover_links src (brk_list v) v = Some w"
    and t: "t = set_neigh src (\<lambda>n. n\<lparr>ng_load := l, ng_load_seq := q\<rparr>) (redirect_routes w)"
    by (auto simp: new_neighbour_def Let_def split: bind_splits option.splits)
  have "neighs_ok v \<and> find_aodv_neigh src v = Some n"
    using create_aodv_neigh_outcome [OF _ v] ok by (simp add: node_ok_def)
  moreover have "neigh_list (redirect_routes w) = neigh_list v" using recover_links_neighs [OF w] by simp
  ultimately have "neighs_ok (redirect_routes w)" "find_aodv_neigh src (redirect_routes w) = Some n"
    by (simp_all add: neighs_ok_def find_aodv_neigh_def)
  with find_set_neigh [of "redirect_routes w" "\<lambda>n. n\<lparr>ng_load := l, ng_load_seq := q\<rparr>" src src] show ?thesis
    by (simp add: t neigh_wf_def)
qed

text \<open>
  C16: a hello of an address on the blacklist changes nothing. Any other that is taken in leaves
  its sender in the list of neighbours, with the lifetime of three lost hellos from now, whether
  it was known, known at two hops, or new; the invariant of the node is kept.
\<close>

theorem recv_hello_learns:
  assumes "node_ok s" and "recv_hello src h xs s = Some (rc, s')"
  shows "(src \<in> set (aodv_blacklist_ip (cfg s)) \<longrightarrow> s' = s) \<and> node_ok s'
     \<and> (rc = 0 \<and> src \<notin> set (aodv_blacklist_ip (cfg s))
         \<longrightarrow> (\<exists>n. find_aodv_neigh src s' = Some n \<and> ng_lifetime n = 4020 + currtime s))"
proof -
  have "evolves s s'" using opt_okD [OF evolve_recv_hello [OF evolves_refl] assms(2)] by simp
  then have ok: "node_ok s'" by (rule node_ok_evolves [OF _ assms(1)])
  show ?thesis
  proof (cases "src \<in> set (aodv_blacklist_ip (cfg s)) \<or> rc \<noteq> 0")
    case True
    with assms(2) ok show ?thesis by (auto simp: recv_hello_def)
  next
    case False
    with assms(2) obtain t where t: "(if find_aodv_neigh src s = None then new_neighbour src s else Some (True, s)) = Some (True, t)"
      "hear_neighbour src h xs t = Some s'"
      by (auto simp: recv_hello_def split: bind_splits if_splits)
    have e: "evolves s t" using t(1) opt_okD [OF evolve_new_neighbour [OF evolves_refl]] by (fastforce split: if_splits)
    have "find_aodv_neigh src t \<noteq> None" using t(1) new_neighbour_known [OF assms(1)] by (auto split: if_splits)
    from heard_hear_neighbour [OF node_ok_evolves [OF e assms(1)] this t(2)] e ok False
    show ?thesis by (simp add: heard_def evolves_def)
  qed
qed

section \<open>Examples\<close>

lemma sample_mesh_find [simp]: "find_aodv_neigh 5 sample_mesh = Some (sample_neigh 5)"
  by (simp add: find_aodv_neigh_def sample_neigh_def)

lemma sample_mesh_ok: "node_ok sample_mesh"
  by (simp add: node_ok_def table_defs neigh_wf_def sample_neigh_def sample_self_def sample_route_def
      src_tables_ok_def sample_node_def)

definition sample_hello :: hello where
  "sample_hello = \<lparr>he_type = HELLO_MESSAGE, he_reserved1 = 0, he_neigh_count = 0, he_num_hops = 0, he_load = 0, he_load_seq = 0\<rparr>"

lemma recv_hello_learns_witness:
  "\<exists>s' n. recv_hello 5 sample_hello [] sample_mesh = Some (0, s') \<and> find_aodv_neigh 5 s' = Some n
     \<and> ng_lifetime n = 104020"
proof -
  have r: "recv_hello 5 sample_hello [] sample_mesh = Some (0, update_neigh_timelife 5 sample_mesh)"
    by (simp add: recv_hello_def hear_neighbour_def)
  from recv_hello_learns [OF sample_mesh_ok r] r show ?thesis
    by (simp add: sample_node_def getcurrtime_def)
qed

lemma compute_etx_spec_witness:
  "\<exists>n'. find_aodv_neigh 5 (compute_etx (sample_mesh\<lparr>neigh_list := [(sample_neigh 5)\<lparr>etx_count := 12, etx_send := 8\<rparr>]\<rparr>)) = Some n'
     \<and> unat (ng_etx_metric n') = 80"
proof -
  let ?n = "(sample_neigh 5)\<lparr>etx_count := 12, etx_send := 8\<rparr>"
  let ?s = "sample_mesh\<lparr>neigh_list := [?n]\<rparr>"
  have "neighs_ok ?s" by (simp add: neighs_ok_def neigh_wf_def sample_neigh_def)
  moreover have "find_aodv_neigh 5 ?s = Some ?n" by (simp add: find_aodv_neigh_def sample_neigh_def)
  ultimately show ?thesis using compute_etx_spec [of ?s 5 ?n] by (auto simp: sample_neigh_def)
qed

end
