(* ===== verification/Packet_Hooks.thy ===== *)
theory Packet_Hooks
  imports Hello
begin

text \<open>
  The two netfilter hooks: \<open>packet_in.c\<close> sorts what the node receives into the task queue,
  \<open>packet_out.c\<close> decides on every packet that leaves, and asks for a route where there is none.
  \<open>is_internal\<close> is of \<open>utils.c\<close>.
\<close>

section \<open>Packets\<close>

text \<open>
  The headers a hook reads, and the payload behind them: its length, its first four words, and
  the message its first byte announces, read as the structure of that type (\<open>None\<close> for a byte
  that is no type). A hello is read with the extensions that fit into the payload.
\<close>

record packet =
  pk_saddr :: u32
  pk_daddr :: u32
  pk_tos :: u8
  pk_ttl :: u8
  pk_udp :: bool
  pk_eth_ip :: bool
  pk_dport :: u16
  pk_in_addr :: u32
  pk_numbytes :: nat
  pk_words :: "u32 \<times> u32 \<times> u32 \<times> u32"
  pk_data :: "msg option"

definition is_internal :: "u32 \<Rightarrow> node \<Rightarrow> bool" where
  "is_internal dest_ip s \<longleftrightarrow> same_subnet (mesh_ip s) (g_mesh_netmask (cfg s)) dest_ip"

definition aodv_subnet_test :: "u32 \<Rightarrow> node \<Rightarrow> bool" where
  "aodv_subnet_test tmp_ip s \<longleftrightarrow>
     mesh_ip s AND g_mesh_netmask (cfg s) = g_mesh_netmask (cfg s) AND tmp_ip"

section \<open>Input\<close>

text \<open>The payload as it is queued: a probe gets the time of its arrival.\<close>

fun valid_aodv_packet :: "nat \<Rightarrow> msg \<Rightarrow> timeval \<Rightarrow> msg option" where
  "valid_aodv_packet numbytes (M_HELLO h xs) tv =
     (if numbytes = 8 + 8 * unat (he_neigh_count h) then Some (M_HELLO h xs) else None)"
| "valid_aodv_packet numbytes (M_SPROBE m) tv =
     (if numbytes = msg_size (M_SPROBE m)
      then Some (M_SPROBE (m\<lparr>sp_sec := ucast (tv_sec tv), sp_usec := ucast (tv_usec tv)\<rparr>)) else None)"
| "valid_aodv_packet numbytes (M_LPROBE m) tv =
     (if numbytes = msg_size (M_LPROBE m)
      then Some (M_LPROBE (m\<lparr>lp_sec := ucast (tv_sec tv), lp_usec := ucast (tv_usec tv)\<rparr>)) else None)"
| "valid_aodv_packet numbytes m tv = (if numbytes = msg_size m then Some m else None)"

definition packet_in :: "packet \<Rightarrow> timeval \<Rightarrow> node \<Rightarrow> verdict \<times> node" where
  "packet_in p tv s =
     (case Option.bind (pk_data p) (\<lambda>m. valid_aodv_packet (pk_numbytes p) m tv) of
        None \<Rightarrow> (NF_DROP, s)
      | Some m \<Rightarrow> (NF_ACCEPT, snd (insert_task (uint (msg_type m)) (pk_saddr p) (pk_daddr p) (pk_ttl p) m s)))"

text \<open>
  What the ports of the DTN daemon do. The flag \<open>t\<close> of the source is 1 as long as \<open>dtn_register\<close>
  is 0, which nothing sets back.
\<close>

definition dtn_input :: "packet \<Rightarrow> node \<Rightarrow> node" where
  "dtn_input p s =
     (let s = (if \<not> dtn_register s \<and> pk_dport p = DTNREGISTER then s\<lparr>dtn_register := True\<rparr> else s);
          s = (if dtn_register s \<and> pk_dport p = GET_DTN_HELLO
               then update_timer_queue (snd (insert_timer_simple TASK_DTN_HELLO 0 (mesh_ip s) s)) else s)
      in if dtn_register s \<and> pk_dport p = AODV_LOCATION_PORT then
           (case pk_words p of (src_ip, tos, x, y) \<Rightarrow>
              let s = s\<lparr>longitude := x, latitude := y\<rparr> in
              update_timer_queue (snd (insert_timer_directional TASK_SEND_RREP RREP_TIMER 0 src_ip
                (dtn_hello_ip (cfg s)) (ucast tos) s)))
         else s)"

definition input_handler :: "bool \<Rightarrow> packet \<Rightarrow> node \<Rightarrow> verdict \<times> node" where
  "input_handler initialized p s =
     (if \<not> initialized then (NF_ACCEPT, s)
      else
        let s = dtn_input p s in
        if pk_dport p = 9556 \<and> inet_ntoa (pk_daddr p) = ''192.168.1.255'' \<and> pk_saddr p \<in> set (dtn_blacklist_ip (cfg s))
        then (NF_DROP, s)
        else if pk_udp p \<and> pk_eth_ip p \<and> pk_dport p = AODVPORT \<and> pk_in_addr p \<noteq> pk_saddr p
        then packet_in p (now s) s
        else (NF_ACCEPT, s))"

section \<open>Output\<close>

text \<open>The packets that are let through unseen: broadcasts, AODV's own, DHCP.\<close>

definition unrouted :: "packet \<Rightarrow> node \<Rightarrow> bool" where
  "unrouted p s \<longleftrightarrow>
     pk_daddr p = g_broadcast_ip (cfg s) \<or> drop_bit 24 (pk_daddr p) = 255 \<or> pk_dport p = AODVPORT \<or>
     pk_dport p = DHCP1 \<or> pk_dport p = DHCP2"

definition routed_as :: "u32 \<Rightarrow> node \<Rightarrow> u32" where
  "routed_as ip s = (if is_internal ip s then ip else null_ip s)"

text \<open>A fault: \<open>create_task\<close> had no memory, and its null pointer is written through.\<close>

definition no_route :: "u32 \<Rightarrow> u32 \<Rightarrow> packet \<Rightarrow> node \<Rightarrow> (verdict \<times> node) option" where
  "no_route source destination p s =
     (if source = mesh_ip s \<or> (source = null_ip s \<and> is_gateway s) then
        (case create_task TASK_GEN_RREQ s of
           (None, s) \<Rightarrow> None
         | (Some new_task, s) \<Rightarrow>
             let new_task = new_task\<lparr>tk_src_ip := source, tk_dst_ip := destination, tk_tos := pk_tos p\<rparr>
             in Some (NF_QUEUE, snd (insert_task_at_front (Some new_task) s)))
      else if destination = null_ip s \<and> is_gateway s then Some (NF_ACCEPT, s)
      else Some (NF_DROP, s))"

text \<open>A packet takes the route.\<close>

definition use_route :: "aodv_route \<Rightarrow> node \<Rightarrow> node" where
  "use_route r s =
     (let s = (if rt_state r = REPLIED then
                 let s = set_route (rt_addr r) (\<lambda>r. r\<lparr>rt_state := ACTIVE\<rparr>) s
                 in if metric s = WCIM then snd (insert_timer_simple TASK_UPDATE_LOAD 1 (mesh_ip s) s) else s
               else s)
      in set_route (rt_addr r) (\<lambda>r. r\<lparr>rt_lifetime := currtime s + ACTIVE_ROUTE_TIMEOUT\<rparr>) s)"

definition output_handler :: "bool \<Rightarrow> packet \<Rightarrow> node \<Rightarrow> (verdict \<times> node) option" where
  "output_handler initialized p s =
     (if \<not> initialized \<or> unrouted p s then Some (NF_ACCEPT, s)
      else
        let destination = routed_as (pk_daddr p) s;
            source = routed_as (pk_saddr p) s
        in if destination = source then Some (NF_ACCEPT, s)
           else
             (case find_aodv_route source destination (pk_tos p) s of
                None \<Rightarrow> no_route source destination p s
              | Some r \<Rightarrow>
                  if rt_state r = INVALID then no_route source destination p s
                  else Some (NF_ACCEPT, use_route r s)))"

section \<open>The hooks keep the invariant\<close>

text \<open>
  The relation of whole steps: the task queue and the clock may change as well, and packets
  may come into the packet queue.
\<close>

definition grows :: "node \<Rightarrow> node \<Rightarrow> bool" where
  "grows s s' \<longleftrightarrow>
     cfg s' = cfg s \<and> local_route s' = local_route s \<and> allocs s \<le> allocs s' \<and> prefix (out s) (out s') \<and>
     (node_ok s \<longrightarrow> node_ok s') \<and> (node_ok s \<and> local_ok s \<longrightarrow> local_ok s') \<and> (ipq s' = None \<longleftrightarrow> ipq s = None)"

interpretation gro: evolution grows
  by unfold_locales (auto simp: grows_def intro: prefix_order.trans)

lemma grows_evolves: "grows s t \<Longrightarrow> evolves t u \<Longrightarrow> grows s u"
  by (rule gro.trans) (auto simp: grows_def evolves_def)

lemma node_ok_queue [simp]: "node_ok (s\<lparr>task_queue := q\<rparr>) = node_ok s" "node_ok (s\<lparr>now := n\<rparr>) = node_ok s"
  "local_ok (s\<lparr>task_queue := q\<rparr>) = local_ok s" "local_ok (s\<lparr>now := n\<rparr>) = local_ok s"
  by (simp_all add: node_ok_def table_defs)

lemma grows_queue: "grows s t \<Longrightarrow> grows s (t\<lparr>task_queue := q\<rparr>)"
  by (simp add: grows_def)

lemma evolve_create_task: "create_task ty s = (r, t) \<Longrightarrow> evolves s t"
  using evolve_kmalloc [OF evolves_refl, of s] by (cases "kmalloc s") (auto simp: create_task_def split: option.splits)

lemma grows_insert_task: "grows s (snd (insert_task ty b c ttl m s))"
proof (cases "create_task ty s")
  case (Pair r t)
  from grows_evolves [OF gro.refl evolve_create_task [OF Pair]] have t: "grows s t" .
  show ?thesis
  proof (cases r)
    case (Some x)
    obtain k u where k: "kmalloc t = (k, u)" by fastforce
    with grows_evolves [OF t evolve_kmalloc [OF evolves_refl]] have "grows s u" by simp
    with Pair Some k show ?thesis by (cases k) (simp_all add: insert_task_def queue_aodv_task_def grows_queue)
  qed (simp add: insert_task_def Pair t)
qed

lemma grows_packet_in: "grows s (snd (packet_in p tv s))"
  by (simp add: packet_in_def grows_insert_task gro.refl split: option.split)

lemma evolve_registers [evolve]:
  "evolves a s \<Longrightarrow> evolves a (s\<lparr>dtn_register := b\<rparr>)" "evolves a s \<Longrightarrow> evolves a (s\<lparr>longitude := x, latitude := y\<rparr>)"
  by (erule evolvesI, auto simp: table_defs)+

lemma evolve_dtn_input [evolve]: "evolves a s \<Longrightarrow> evolves a (dtn_input p s)"
  unfolding dtn_input_def Let_def by (cases "pk_words p") (auto intro!: evolve)

lemma grows_input_handler: "grows s (snd (input_handler i p s))"
  using grows_evolves [OF gro.refl evolve_dtn_input [OF evolves_refl], of s p] gro.trans [OF _ grows_packet_in]
  by (auto simp: input_handler_def Let_def intro: gro.refl)

lemma grows_no_route: "no_route b c p s = Some (v, s') \<Longrightarrow> grows s s'"
  using grows_evolves [OF gro.refl evolve_create_task, of TASK_GEN_RREQ s]
  by (cases "create_task TASK_GEN_RREQ s")
    (auto simp: no_route_def insert_task_at_front_def queue_control_task_at_front_def Let_def grows_queue
      split: option.splits if_splits intro: gro.refl)

lemma evolve_use_route [evolve]: "evolves a s \<Longrightarrow> evolves a (use_route r s)"
  unfolding use_route_def Let_def by (intro evolve evolve_vcg) simp_all

lemma grows_output_handler: "output_handler i p s = Some (v, s') \<Longrightarrow> grows s s'"
  using grows_evolves [OF gro.refl evolve_use_route [OF evolves_refl]]
  by (auto simp: output_handler_def Let_def gro.refl split: option.splits if_splits dest: grows_no_route)

section \<open>What the input hook lets in\<close>

lemma recv_exts_inside: "recv_exts src h (length xs) (xs @ ys) s = recv_exts src h (length xs) xs s"
  by (induction xs arbitrary: s) (auto intro!: arg_cong [of _ _ "Option.bind _"])

text \<open>
  C27: a hello that the input hook has queued is read inside its packet, by its handler, with any metric
  and from any sender: however many extensions it promises, it has as many, so that what the
  handler does is not changed by any extensions that memory holds behind them; and
  with a metric other than WCIM, the hello of a known neighbour is no fault at all.
\<close>

theorem queued_hello_in_bounds:
  assumes "valid_aodv_packet numbytes (M_HELLO h xs) tv = Some m" and "numbytes = msg_size (M_HELLO h xs)"
  shows "m = M_HELLO h xs \<and> length xs = unat (he_neigh_count h)
     \<and> recv_hello src h (xs @ ys) s = recv_hello src h xs s
     \<and> (metric s \<noteq> WCIM \<and> find_aodv_neigh src s \<noteq> None \<longrightarrow> recv_hello src h xs s \<noteq> None)"
proof -
  from assms have m: "m = M_HELLO h xs" "length xs = unat (he_neigh_count h)" by (auto split: if_splits)
  have "hear_neighbour src h (xs @ ys) = hear_neighbour src h xs"
    by (rule ext) (simp add: hear_neighbour_def recv_exts_inside Let_def flip: m(2))
  then have i: "recv_hello src h (xs @ ys) s = recv_hello src h xs s" unfolding recv_hello_def by metis
  have "metric t \<noteq> WCIM \<Longrightarrow> recv_exts src h (length ys) ys t \<noteq> None" for ys t
    by (induction ys arbitrary: t) (auto simp: recv_ext_def Let_def set_neigh_def)
  from this [of _ xs] have "metric t \<noteq> WCIM \<Longrightarrow> hear_neighbour src h xs t \<noteq> None" for t
    using m(2) by (auto simp: hear_neighbour_def Let_def set_neigh_def update_neigh_timelife_def)
  with m i show ?thesis by (auto simp: recv_hello_def)
qed

section \<open>What the output hook decides\<close>

definition asks_for_route :: "u32 \<Rightarrow> u32 \<Rightarrow> u8 \<Rightarrow> node \<Rightarrow> node \<Rightarrow> bool" where
  "asks_for_route src_ip dst_ip tos s s' \<longleftrightarrow>
     (\<exists>t. task_queue s' = t # task_queue s \<and> tk_type t = TASK_GEN_RREQ \<and> tk_src_ip t = src_ip \<and> tk_dst_ip t = dst_ip
        \<and> tk_tos t = tos)"

lemma create_task_D:
  "create_task ty s = (r, t) \<Longrightarrow> task_queue t = task_queue s \<and> (\<forall>x. r = Some x \<longrightarrow> tk_type x = ty)"
  by (cases "kmalloc s") (auto simp: create_task_def split: option.splits dest: kmalloc_simps)

lemma no_route_D:
  assumes "no_route source destination p s = Some (v, s')"
  shows "if source = mesh_ip s \<or> (source = null_ip s \<and> is_gateway s)
     then v = NF_QUEUE \<and> asks_for_route source destination (pk_tos p) s s'
     else s' = s \<and> v = (if destination = null_ip s \<and> is_gateway s then NF_ACCEPT else NF_DROP)"
proof (cases "create_task TASK_GEN_RREQ s")
  case (Pair r t)
  from create_task_D [OF Pair] Pair assms show ?thesis
    by (cases r) (auto simp: no_route_def insert_task_at_front_def queue_control_task_at_front_def asks_for_route_def Let_def
        split: if_splits)
qed

lemma find_set_lifetime:
  assumes "routes_ok s" and "find_aodv_route a b c s = Some r" and "rt_addr r = p"
  shows "find_aodv_route a b c (set_route p (\<lambda>r. r\<lparr>rt_lifetime := l\<rparr>) s) = Some (r\<lparr>rt_lifetime := l\<rparr>)"
  using find_set_route [OF assms(1,2), of "\<lambda>r. r\<lparr>rt_lifetime := l\<rparr>"] assms(3) by simp

text \<open>
  C6: a packet that is to be routed leaves only over a route in use, whose life is then
  extended and which becomes active if it was only replied, or, on a gateway, to the internet;
  it waits exactly when there is no such route and the flow starts at this node, and then the
  request for the route is the next task; in every other case it is dropped.
\<close>

theorem output_handler_verdict:
  assumes "routes_ok s" and "output_handler True p s = Some (v, s')" and "\<not> unrouted p s"
    and "src_ip = routed_as (pk_saddr p) s" and "dst_ip = routed_as (pk_daddr p) s" and "dst_ip \<noteq> src_ip"
  shows "(\<exists>r. find_aodv_route src_ip dst_ip (pk_tos p) s = Some r \<and> rt_state r \<noteq> INVALID \<and> v = NF_ACCEPT
       \<and> find_aodv_route src_ip dst_ip (pk_tos p) s'
           = Some (r\<lparr>rt_state := if rt_state r = REPLIED then ACTIVE else rt_state r,
                     rt_lifetime := currtime s + ACTIVE_ROUTE_TIMEOUT\<rparr>))
     \<or> ((\<forall>r. find_aodv_route src_ip dst_ip (pk_tos p) s = Some r \<longrightarrow> rt_state r = INVALID)
       \<and> (if src_ip = mesh_ip s \<or> (src_ip = null_ip s \<and> is_gateway s)
          then v = NF_QUEUE \<and> asks_for_route src_ip dst_ip (pk_tos p) s s'
          else s' = s \<and> v = (if dst_ip = null_ip s \<and> is_gateway s then NF_ACCEPT else NF_DROP)))"
proof (cases "\<exists>r. find_aodv_route src_ip dst_ip (pk_tos p) s = Some r \<and> rt_state r \<noteq> INVALID")
  case False
  with assms(2-6) have "no_route src_ip dst_ip p s = Some (v, s')"
    by (auto simp: output_handler_def Let_def split: option.splits)
  from no_route_D [OF this] False show ?thesis by blast
next
  case True
  then obtain r where r: "find_aodv_route src_ip dst_ip (pk_tos p) s = Some r" "rt_state r \<noteq> INVALID" by blast
  let ?u = "set_route (rt_addr r) (\<lambda>r. r\<lparr>rt_state := ACTIVE\<rparr>) s"
  define t where "t = (if rt_state r = REPLIED then
      if metric s = WCIM then snd (insert_timer_simple TASK_UPDATE_LOAD 1 (mesh_ip s) ?u) else ?u else s)"
  let ?l = "currtime s + ACTIVE_ROUTE_TIMEOUT"
  have s': "v = NF_ACCEPT" "s' = set_route (rt_addr r) (\<lambda>r. r\<lparr>rt_lifetime := ?l\<rparr>) t"
    using assms(2-6) r by (auto simp: output_handler_def use_route_def Let_def t_def)
  have u: "routes_ok ?u" "find_aodv_route src_ip dst_ip (pk_tos p) ?u = Some (r\<lparr>rt_state := ACTIVE\<rparr>)"
    using set_route_ok [OF assms(1)] find_set_route [OF assms(1) r(1), of "\<lambda>r. r\<lparr>rt_state := ACTIVE\<rparr>"] by simp_all
  let ?w = "snd (insert_timer_simple TASK_UPDATE_LOAD 1 (mesh_ip s) ?u)"
  have w: "routes_ok ?w" "find_aodv_route src_ip dst_ip (pk_tos p) ?w = Some (r\<lparr>rt_state := ACTIVE\<rparr>)"
    using u routes_ok_cong [OF _ _ u(1), of ?w] by (auto simp: find_aodv_route_cong [of ?w ?u])
  have "routes_ok t \<and> find_aodv_route src_ip dst_ip (pk_tos p) t
      = Some (r\<lparr>rt_state := if rt_state r = REPLIED then ACTIVE else rt_state r\<rparr>)"
    using u w assms(1) r(1) by (simp add: t_def)
  then have t: "routes_ok t" "find_aodv_route src_ip dst_ip (pk_tos p) t
      = Some (r\<lparr>rt_state := if rt_state r = REPLIED then ACTIVE else rt_state r\<rparr>)" by auto
  show ?thesis using find_set_lifetime [OF t, of "rt_addr r" ?l] s' r by auto
qed

section \<open>Examples\<close>

definition sample_packet_out :: packet where
  "sample_packet_out =
     \<lparr>pk_saddr = 1, pk_daddr = 9, pk_tos = 0, pk_ttl = 64, pk_udp = True, pk_eth_ip = True, pk_dport = 80, pk_in_addr = 1,
      pk_numbytes = 8, pk_words = (0, 0, 0, 0), pk_data = None\<rparr>"

lemma sample_out_facts:
  "routed_as (pk_daddr sample_packet_out) sample_mesh = 9" "routed_as (pk_saddr sample_packet_out) sample_mesh = 1"
  "\<not> unrouted sample_packet_out sample_mesh" "find_aodv_route 1 9 t sample_mesh = None"
  by (simp_all add: routed_as_def is_internal_def same_subnet_def unrouted_def sample_packet_out_def sample_cfg_def find_aodv_route_def
      search_routes_def routes_to_def sample_self_def sample_route_def)

lemma sample_output:
  "\<exists>s'. output_handler True sample_packet_out sample_mesh = Some (NF_QUEUE, s') \<and> task_queue s' \<noteq> []"
  using sample_out_facts
  by (simp add: output_handler_def no_route_def create_task_def kmalloc_def insert_task_at_front_def
      queue_control_task_at_front_def Let_def)

lemma output_handler_verdict_witness:
  "\<exists>s'. output_handler True sample_packet_out sample_mesh = Some (NF_QUEUE, s') \<and> asks_for_route 1 9 0 sample_mesh s'"
proof -
  obtain s' where s': "output_handler True sample_packet_out sample_mesh = Some (NF_QUEUE, s')"
    using sample_output by blast
  have "routes_ok sample_mesh" by (simp add: routes_ok_def)
  from output_handler_verdict [OF this s' sample_out_facts(3) sample_out_facts(2) [symmetric] sample_out_facts(1) [symmetric]]
    s' sample_out_facts(4)
  show ?thesis by (auto simp: sample_packet_out_def)
qed

lemma queued_hello_in_bounds_witness:
  "recv_hello 5 sample_hello [] sample_mesh \<noteq> None
   \<and> recv_hello 5 sample_hello [\<lparr>hx_ip = 7, hx_count = 1, hx_load = 0, hx_load_seq = 0\<rparr>] sample_mesh = recv_hello 5 sample_hello [] sample_mesh"
proof -
  have v: "valid_aodv_packet 8 (M_HELLO sample_hello []) \<lparr>tv_sec = 1, tv_usec = 2\<rparr> = Some (M_HELLO sample_hello [])"
    by (simp add: sample_hello_def)
  show ?thesis using queued_hello_in_bounds [OF v, of 5 "[\<lparr>hx_ip = 7, hx_count = 1, hx_load = 0, hx_load_seq = 0\<rparr>]" sample_mesh] by simp
qed

end
