(* ===== verification/Aodv_Thread.thy ===== *)
theory Aodv_Thread
  imports Packet_Hooks
begin

text \<open>
  The router's kernel thread, \<open>aodv_thread.c\<close>, which works off the task queue, and the steps of
  the whole module: the thread, the two hooks, the timer, the packet queue and the clock.
\<close>

section \<open>Dispatch\<close>

text \<open>
  One task. The thread frees the packet of a received message after its handler, which is the
  fault of an RRDP that reached the source of its route, as its handler frees the packet too.
  A receive task without a packet of its type does not occur: \<open>packet_in\<close> takes the type
  from the packet. \<open>TASK_ETT_CLEANUP\<close> of a neighbour that is gone is the fault of \<open>reset_ett\<close>.
\<close>

definition handle_packet :: "task \<Rightarrow> msg \<Rightarrow> node \<Rightarrow> node option" where
  "handle_packet t m s =
     (case m of
        M_RREP r \<Rightarrow> map_option snd (recv_rrep (tk_src_ip t) r s)
      | M_RERR r \<Rightarrow> recv_rerr (tk_src_ip t) r s
      | M_HELLO h xs \<Rightarrow> map_option snd (recv_hello (tk_src_ip t) h xs s)
      | M_RCVP r \<Rightarrow> Some (snd (recv_rcvp r s))
      | M_RRDP r \<Rightarrow> (case recv_rrdp (tk_src_ip t) r s of (freed, s) \<Rightarrow> if freed then None else Some s)
      | M_SPROBE r \<Rightarrow> Some (recv_sprobe (tk_src_ip t) r s)
      | M_LPROBE r \<Rightarrow> recv_lprobe (tk_src_ip t) r s
      | M_RREQ r \<Rightarrow> map_option snd (recv_rreq (tk_src_ip t) (tk_ttl t) r s)
      | M_ETTINFO r \<Rightarrow> recv_ett_info (tk_src_ip t) r s
      | M_STRREQ r \<Rightarrow> Some (snd (recv_rreq_st (tk_src_ip t) (tk_ttl t) r s)))"

definition task_of :: "msg \<Rightarrow> int" where
  "task_of m =
     (case m of
        M_RREP r \<Rightarrow> TASK_RECV_RREP | M_RERR r \<Rightarrow> TASK_RECV_RERR | M_HELLO h xs \<Rightarrow> TASK_RECV_HELLO
      | M_RCVP r \<Rightarrow> TASK_RECV_RCVP | M_RRDP r \<Rightarrow> TASK_RECV_RRDP | M_SPROBE r \<Rightarrow> TASK_RECV_S_ETT
      | M_LPROBE r \<Rightarrow> TASK_RECV_L_ETT | M_RREQ r \<Rightarrow> TASK_RECV_RREQ | M_ETTINFO r \<Rightarrow> TASK_ETT_INFO
      | M_STRREQ r \<Rightarrow> TASK_RECV_STRREQ)"

definition recv_tasks :: "int list" where
  "recv_tasks =
     [TASK_RECV_RREP, TASK_RECV_RERR, TASK_RECV_HELLO, TASK_RECV_RCVP, TASK_RECV_RRDP, TASK_RECV_S_ETT,
      TASK_RECV_L_ETT, TASK_RECV_RREQ, TASK_ETT_INFO, TASK_RECV_STRREQ]"

definition handle_task :: "task \<Rightarrow> node \<Rightarrow> node option" where
  "handle_task t s =
     (if tk_type t \<in> set recv_tasks then
        (case tk_data t of
           None \<Rightarrow> None
         | Some m \<Rightarrow> if task_of m = tk_type t then handle_packet t m s else None)
      else if tk_type t = TASK_DTN_HELLO then gen_rreq (mesh_ip s) (dtn_hello_ip (cfg s)) (tk_tos t) s
      else if tk_type t = TASK_CLEANUP \<or> tk_type t = TASK_ROUTE_CLEANUP then Some (snd (flush_aodv_route_table s))
      else if tk_type t = TASK_HELLO then Some (gen_hello s)
      else if tk_type t = TASK_ST then Some (snd (gen_st_rreq s))
      else if tk_type t = TASK_GW_CLEANUP then
        map_option (\<lambda>s. update_timer_queue (snd (insert_timer_simple TASK_GW_CLEANUP ACTIVE_GWROUTE_TIMEOUT (mesh_ip s) s)))
          (update_gw_lifetimes s)
      else if tk_type t = TASK_NEIGHBOR then map_option snd (delete_aodv_neigh (tk_src_ip t) s)
      else if tk_type t = TASK_SEND_ETT then send_probe (tk_dst_ip t) s
      else if tk_type t = TASK_ETT_CLEANUP then reset_ett (find_aodv_neigh (tk_src_ip t) s) s
      else if tk_type t = TASK_NEIGHBOR_2H then Some (snd (delete_aodv_neigh_2h (tk_src_ip t) s))
      else if tk_type t = TASK_RESEND_RREQ then resend_rreq t s
      else if tk_type t = TASK_SEND_RREP then map_option snd (gen_rrep (tk_src_ip t) (tk_dst_ip t) (tk_tos t) s)
      else if tk_type t = TASK_UPDATE_LOAD then Some (update_my_load s)
      else if tk_type t = TASK_GEN_RREQ then gen_rreq (tk_src_ip t) (tk_dst_ip t) (tk_tos t) s
      else Some s)"

section \<open>Every handler keeps the invariant\<close>

lemma evolve_reap_source [evolve]: "evolves a s \<Longrightarrow> evolves a (reap_source r s)"
  unfolding reap_source_def Let_def by (intro evolve evolve_vcg) assumption+

text \<open>The flush spares the local route: no other route of the table is at its address.\<close>

lemma local_route_only:
  "node_ok s \<Longrightarrow> local_ok s \<Longrightarrow> r \<in> set (route_table s) \<Longrightarrow> \<not> rt_self_route r \<Longrightarrow> rt_addr r \<noteq> local_route s"
  unfolding node_ok_def local_ok_def routes_ok_def distinct_map by (metis inj_onD)

lemma evolve_flush_route:
  assumes "r \<in> set (route_table a)" and "evolves a s"
  shows "evolves a (flush_route r s)"
  unfolding flush_route_def
  by (intro evolve_flow evolve_remove_route evolve) (use assms local_route_only [of a r] in auto)

lemma evolve_flush_routes [evolve]: "evolves a s \<Longrightarrow> evolves a (snd (flush_aodv_route_table s))"
proof (rule evolves_trans, assumption)
  have "evolves s (fold flush_route (route_table s) s)"
    by (rule evo.fold) (auto intro: evolve_flush_route)
  then show "evolves s (snd (flush_aodv_route_table s))"
    unfolding flush_aodv_route_table_def Let_def by (intro evolve_some evolve evolve_flow) assumption+
qed

lemma evolve_handle_packet [evolve]: "evolves a s \<Longrightarrow> opt_ok (evolves a) (handle_packet t m s)"
  unfolding handle_packet_def split_beta
  by (cases m; simp only: msg.case)
    (intro evolve_map evolve_flow(2) evolve evolve_some | simp add: opt_ok_map_iff evolve)+

lemma evolve_handle_task [evolve]: "evolves a s \<Longrightarrow> opt_ok (evolves a) (handle_task t s)"
  unfolding handle_task_def
  by (intro evolve_flow evolve_some evolve_handle_packet) (simp_all add: opt_ok_map_iff evolve opt_ok_mono [OF evolve_gw_lifetimes])

lemma handle_task_keeps: "handle_task t s = Some s' \<Longrightarrow> evolves s s'"
  using opt_okD [OF evolve_handle_task [OF evolves_refl]] .

section \<open>The thread's loop\<close>

lemma get_task_length: "get_task s = (Some t, u) \<Longrightarrow> length (task_queue s) = Suc (length (task_queue u))"
  using get_task_Some [of s t u] by (metis size_add_mset size_mset)

text \<open>Until \<open>get_task\<close> finds nothing: no handler adds a task, so the loop ends.\<close>

function aodv_loop :: "node \<Rightarrow> node option" where
  "aodv_loop s =
     (case get_task s of
        (None, s) \<Rightarrow> Some s
      | (Some t, s) \<Rightarrow> Option.bind (handle_task t s) aodv_loop)"
  by auto
termination
proof (relation "measure (\<lambda>s. length (task_queue s))", goal_cases)
  case (2 s x u t v)
  then have "get_task s = (Some t, u)" "task_queue v = task_queue u"
    using handle_task_keeps [of t u v] by (auto simp: evolves_def)
  with get_task_length [of s t u] show ?case by simp
qed simp

declare aodv_loop.simps [simp del]

text \<open>So many tasks have been worked off without a fault.\<close>

inductive works :: "nat \<Rightarrow> node \<Rightarrow> node \<Rightarrow> bool" where
  works_0: "works 0 s s"
| works_Suc: "get_task s = (Some t, u) \<Longrightarrow> handle_task t u = Some v \<Longrightarrow> works n v w \<Longrightarrow> works (Suc n) s w"

inductive_simps works_0_iff [simp]: "works 0 s w"

lemma works_length: "works n s w \<Longrightarrow> length (task_queue s) = n + length (task_queue w)"
proof (induction rule: works.induct)
  case (works_Suc s t u v n w)
  from get_task_length [OF works_Suc.hyps(1)] handle_task_keeps [OF works_Suc.hyps(2)] works_Suc.IH
  show ?case by (simp add: evolves_def)
qed simp

lemma grows_task:
  assumes "get_task s = (Some t, u)" and "handle_task t u = Some v"
  shows "grows s v"
proof -
  have "u = s\<lparr>task_queue := task_queue u\<rparr>" using get_task_Some [OF assms(1)] by blast
  then have "grows s u" using grows_queue [OF gro.refl] by metis
  from grows_evolves [OF this handle_task_keeps [OF assms(2)]] show ?thesis .
qed

lemma grows_works: "works n s w \<Longrightarrow> grows s w"
  by (induction rule: works.induct) (auto intro: gro.refl gro.trans grows_task)

lemma get_task_empty: "get_task s = (None, u) \<longleftrightarrow> task_queue s = [] \<and> u = s"
proof
  assume "get_task s = (None, u)"
  with get_task_None show "task_queue s = [] \<and> u = s" by blast
next
  assume e: "task_queue s = [] \<and> u = s"
  obtain r v where g: "get_task s = (r, v)" by fastforce
  show "get_task s = (None, u)"
  proof (cases r)
    case None
    with g get_task_None [of s v] e show ?thesis by simp
  next
    case (Some t)
    with g get_task_length [of s t v] e show ?thesis by simp
  qed
qed

lemma aodv_loop_works:
  "(\<forall>s'. aodv_loop s = Some s' \<longrightarrow> works (length (task_queue s)) s s')
   \<and> (aodv_loop s = None \<longrightarrow> (\<exists>n u t v. n < length (task_queue s) \<and> works n s u \<and> get_task u = (Some t, v) \<and> handle_task t v = None))"
proof (induction "length (task_queue s)" arbitrary: s)
  case 0
  then have "get_task s = (None, s)" by (simp add: get_task_empty)
  with 0 show ?case by (simp add: aodv_loop.simps [of s])
next
  case (Suc k)
  obtain r u where ru: "get_task s = (r, u)" by fastforce
  with Suc.hyps(2) get_task_empty [of s u] obtain t where g: "get_task s = (Some t, u)" by (cases r) auto
  show ?case
  proof (cases "handle_task t u")
    case None
    with g Suc.hyps(2) show ?thesis by (auto simp: aodv_loop.simps [of s] intro!: exI [of _ 0])
  next
    case (Some v)
    have k: "k = length (task_queue v)"
      using get_task_length [OF g] handle_task_keeps [OF Some] Suc.hyps(2) by (simp add: evolves_def)
    have l: "aodv_loop s = aodv_loop v" using g Some by (simp add: aodv_loop.simps [of s])
    have step: "works n v w \<Longrightarrow> works (Suc n) s w" for n w by (rule works_Suc [OF g Some])
    show ?thesis unfolding l Suc.hyps(2) [symmetric]
      using Suc.hyps(1) [OF k] step unfolding k [symmetric] by (metis Suc_less_eq)
  qed
qed

text \<open>
  C9: the loop of the thread ends. Either it has worked off exactly the tasks that were queued,
  the queue is empty and the invariant of the node is kept; or one of them, after fewer than
  that many, is a fault.
\<close>

theorem aodv_loop_drains:
  "case aodv_loop s of
     Some s' \<Rightarrow> works (length (task_queue s)) s s' \<and> task_queue s' = [] \<and> grows s s'
   | None \<Rightarrow> (\<exists>n u t v. n < length (task_queue s) \<and> works n s u \<and> get_task u = (Some t, v) \<and> handle_task t v = None)"
proof (cases "aodv_loop s")
  case None
  with aodv_loop_works [of s] show ?thesis by simp
next
  case (Some s')
  with aodv_loop_works [of s] have w: "works (length (task_queue s)) s s'" by simp
  from works_length [OF this] have "task_queue s' = []" by simp
  with w Some show ?thesis by (simp add: grows_works)
qed

text \<open>
  An RRDP that reaches the source of its route over the route's next hop is a fault of the
  thread: the handler frees the packet, and the thread frees it again.
\<close>

theorem rrdp_at_source_faults:
  assumes "tk_type t = TASK_RECV_RRDP" and "tk_data t = Some (M_RRDP m)"
    and "find_aodv_route (rd_src_ip m) (rd_dst_ip m) (rd_tos m) s = Some r" and "rt_next_hop r = tk_src_ip t"
    and "rt_src_ip r = mesh_ip s"
  shows "handle_task t s = None"
  using assms by (simp add: handle_task_def handle_packet_def recv_tasks_def task_of_def recv_rrdp_def)

section \<open>The steps of the module\<close>

text \<open>
  What happens to the node, in any order: the thread works off a task, or one of the events from
  outside: a packet passes a hook, is handed to the packet queue or loses its device, the timer
  fires, time passes. A fault is no step.
\<close>

inductive event :: "node \<Rightarrow> node \<Rightarrow> bool" where
  event_input: "input_handler i p s = (v, s') \<Longrightarrow> event s s'"
| event_output: "output_handler i p s = Some (v, s') \<Longrightarrow> event s s'"
| event_enqueue: "netfilter_receive b e s = Some (n, s') \<Longrightarrow> event s s'"
| event_device: "receive_event e d s = Some (n, s') \<Longrightarrow> event s s'"
| event_timer: "event s (timer_queue_signal s)"
| event_clock: "event s (s\<lparr>now := tv\<rparr>)"

inductive step :: "node \<Rightarrow> node \<Rightarrow> bool" where
  step_task: "get_task s = (Some t, u) \<Longrightarrow> handle_task t u = Some s' \<Longrightarrow> step s s'"
| step_event: "event s s' \<Longrightarrow> step s s'"

lemma grows_timer: "grows s (timer_queue_signal s)"
proof -
  have "grows s (signal_loop (currtime s) s)" by (simp add: signal_loop_queues grows_def node_ok_def table_defs)
  from grows_evolves [OF this evolve_update_timer [OF evolves_refl]] show ?thesis by (simp add: timer_queue_signal_def)
qed

lemma grows_enqueue: "ipq_enqueue b e s = Some (n, s') \<Longrightarrow> grows s s'"
proof (cases "kmalloc s")
  case (Pair r u)
  assume q: "ipq_enqueue b e s = Some (n, s')"
  have u: "grows s u" using grows_evolves [OF gro.refl evolve_kmalloc [OF evolves_refl, of s]] Pair by simp
  have "s' = u \<or> (\<exists>q x. ipq u = Some q \<and> ipq_len q < ipq_maxlen q
      \<and> s' = u\<lparr>ipq := Some (q\<lparr>ipq_list := x # ipq_list q, ipq_len := ipq_len q + 1\<rparr>)\<rparr>)"
    using q Pair by (auto simp: ipq_enqueue_def Let_def split: option.splits if_splits)
  then have "grows u s'" by (auto simp: gro.refl grows_def node_ok_def table_defs)
  with u show "grows s s'" by (rule gro.trans)
qed

lemma grows_device: "receive_event e d s = Some (n, s') \<Longrightarrow> grows s s'"
  using grows_evolves [OF gro.refl opt_okD [OF evolve_ipq_drain [OF evolves_refl]]]
  by (auto simp: receive_event_def ipq_dev_drop_def gro.refl split: if_splits)

lemma event_grows: "event s s' \<Longrightarrow> grows s s'"
proof (induction rule: event.induct)
  case (event_input i p s v s')
  with grows_input_handler [of s i p] show ?case by simp
next
  case (event_clock s tv)
  show ?case by (simp add: grows_def)
qed (auto simp: netfilter_receive_def intro: grows_output_handler grows_enqueue grows_device grows_timer)

lemma step_grows: "step s s' \<Longrightarrow> grows s s'"
  by (induction rule: step.induct) (auto intro: grows_task event_grows)

lemma steps_grow: "step\<^sup>*\<^sup>* s s' \<Longrightarrow> grows s s'"
  by (induction rule: rtranclp_induct) (auto intro: gro.refl gro.trans step_grows)

lemma steps_ok: "node_ok s \<Longrightarrow> step\<^sup>*\<^sup>* s s' \<Longrightarrow> node_ok s' \<and> cfg s' = cfg s \<and> local_route s' = local_route s \<and> prefix (out s) (out s')"
  by (drule steps_grow) (simp add: grows_def)

lemma steps_local: "node_ok s \<Longrightarrow> local_ok s \<Longrightarrow> step\<^sup>*\<^sup>* s s' \<Longrightarrow> local_ok s'"
  by (drule steps_grow) (simp add: grows_def)

lemma steps_queue: "step\<^sup>*\<^sup>* s s' \<Longrightarrow> ipq s' = None \<longleftrightarrow> ipq s = None"
  by (drule steps_grow) (simp add: grows_def)

text \<open>
  C1: whatever steps the module takes, in whatever order: the routes and broken links stay in
  the order of their destinations, and the lists of neighbours in that of their addresses, each
  without a duplicate; every neighbour's measurements stay inside their windows; sources have
  distinct routing tables; gateways are distinct; and the packet queue keeps its count and its
  bound. The configuration stays, what was given to the kernel or sent is not taken back, and
  the local route, once it is in the table, stays there: no expiry, message or error removes it.
\<close>

theorem system_invariant:
  assumes "node_ok s" and "step\<^sup>*\<^sup>* s s'"
  shows "node_ok s' \<and> cfg s' = cfg s \<and> local_route s' = local_route s \<and> prefix (out s) (out s')
    \<and> (local_ok s \<longrightarrow> local_ok s')"
  using steps_ok [OF assms] steps_local [OF assms(1) _ assms(2)] by blast

section \<open>Examples\<close>

definition sample_rrdp :: rrdp where
  "sample_rrdp = \<lparr>rd_type = RRDP_MESSAGE, rd_num_hops = 1, rd_reserved = 0, rd_n = False, rd_dst_count = 0,
     rd_dst_ip = 9, rd_src_ip = 1, rd_tos = 0\<rparr>"

lemma rrdp_at_source_faults_witness:
  "handle_task ((sample_task TASK_RECV_RRDP 5)\<lparr>tk_src_ip := 5, tk_data := Some (M_RRDP sample_rrdp)\<rparr>) sample_routed = None"
  by (rule rrdp_at_source_faults [where m = sample_rrdp and r = "sample_route 2 1 9"])
    (simp_all add: sample_task_def sample_rrdp_def sample_routed_find sample_route_def,
     simp add: sample_routed_def sample_node_def sample_cfg_def)

lemma system_invariant_witness:
  "\<exists>s'. step\<^sup>*\<^sup>* sample_mesh s' \<and> task_queue s' \<noteq> [] \<and> node_ok s'"
proof -
  obtain s' where o: "output_handler True sample_packet_out sample_mesh = Some (NF_QUEUE, s')" "task_queue s' \<noteq> []"
    using sample_output by blast
  then have "step\<^sup>*\<^sup>* sample_mesh s'" using step_event [OF event_output] by blast
  with system_invariant [OF sample_mesh_ok this] o(2) show ?thesis by blast
qed

end
