(* ===== verification/Router_Thread.thy ===== *)
theory Router_Thread
  imports Aodv_Thread
begin

text \<open>
  The router's thread as the kernel runs it, \<open>aodv_thread.c\<close>: it is started, sleeps until it is
  kicked, works off the queue, and dies when it is told to. Between its last look into the queue
  and its sleep there is a moment in which a kick finds nobody to wake.
\<close>

section \<open>The thread\<close>

text \<open>
  Where the thread is in \<open>aodv()\<close>: at the test in front of its sleep, past that test but not yet on
  the wait queue, asleep, at the test behind its sleep, in the inner loop, past the end. The
  flags are \<open>kill_thread\<close> and \<open>aodv_is_dead\<close>.
\<close>

datatype place = Checking | Lying_Down | Asleep | Waking | Working | Gone

record router =
  th_place :: place
  kill_thread :: bool
  aodv_is_dead :: bool
  th_node :: node

definition startup_aodv :: "node \<Rightarrow> router" where
  "startup_aodv s = \<lparr>th_place = Checking, kill_thread = False, aodv_is_dead = False, th_node = s\<rparr>"

definition kick_aodv :: "router \<Rightarrow> router" where
  "kick_aodv r = (if th_place r = Asleep then r\<lparr>th_place := Waking\<rparr> else r)"

text \<open>Whoever kills the thread waits for a second afterwards, whether it has died or not.\<close>

definition kill_aodv :: "router \<Rightarrow> router" where
  "kill_aodv r = kick_aodv (r\<lparr>kill_thread := True\<rparr>)"

text \<open>The next move of the thread; none while it sleeps, after its end, and at a fault.\<close>

definition aodv :: "router \<Rightarrow> router option" where
  "aodv r =
     (case th_place r of
        Checking \<Rightarrow> Some (if kill_thread r then r\<lparr>th_place := Gone, aodv_is_dead := True\<rparr> else r\<lparr>th_place := Lying_Down\<rparr>)
      | Lying_Down \<Rightarrow> Some (r\<lparr>th_place := Asleep\<rparr>)
      | Asleep \<Rightarrow> None
      | Waking \<Rightarrow> Some (if kill_thread r then r\<lparr>th_place := Gone, aodv_is_dead := True\<rparr> else r\<lparr>th_place := Working\<rparr>)
      | Working \<Rightarrow>
          (case get_task (th_node r) of
             (None, s) \<Rightarrow> Some (r\<lparr>th_place := Checking, th_node := s\<rparr>)
           | (Some t, s) \<Rightarrow> map_option (\<lambda>s. r\<lparr>th_node := s\<rparr>) (handle_task t s))
      | Gone \<Rightarrow> None)"

fun moves :: "nat \<Rightarrow> router \<Rightarrow> router option" where
  "moves 0 r = Some r"
| "moves (Suc n) r = Option.bind (aodv r) (moves n)"

text \<open>
  An event from outside, in which the queue's insertions kick the thread when they have added
  a task, and any sequence of moves, events and the kill.
\<close>

definition after_event :: "router \<Rightarrow> node \<Rightarrow> router" where
  "after_event r s' =
     (if length (task_queue (th_node r)) < length (task_queue s') then kick_aodv (r\<lparr>th_node := s'\<rparr>) else r\<lparr>th_node := s'\<rparr>)"

inductive router_step :: "router \<Rightarrow> router \<Rightarrow> bool" where
  router_move: "aodv r = Some r' \<Longrightarrow> router_step r r'"
| router_event: "event (th_node r) s' \<Longrightarrow> router_step r (after_event r s')"
| router_kill: "router_step r (kill_aodv r)"

text \<open>The same without an event in the moment between the last look into the queue and the sleep.\<close>

inductive timely_step :: "router \<Rightarrow> router \<Rightarrow> bool" where
  timely_move: "aodv r = Some r' \<Longrightarrow> timely_step r r'"
| timely_event: "event (th_node r) s' \<Longrightarrow> th_place r \<noteq> Checking \<Longrightarrow> th_place r \<noteq> Lying_Down \<Longrightarrow> timely_step r (after_event r s')"
| timely_kill: "timely_step r (kill_aodv r)"

inductive_cases aodv_cases: "timely_step r r'"

section \<open>Waking and sleeping\<close>

lemma kick_simps [simp]:
  "th_node (kick_aodv r) = th_node r" "kill_thread (kick_aodv r) = kill_thread r"
  "th_place (kick_aodv r) = (if th_place r = Asleep then Waking else th_place r)"
  by (simp_all add: kick_aodv_def)

lemma moves_then: "moves m r = Some r' \<Longrightarrow> moves (m + n) r = moves n r'"
  by (induction m arbitrary: r) (auto split: bind_splits)

text \<open>The inner loop is \<open>aodv_loop\<close>: as many moves as there are tasks, and the last look.\<close>

lemma moves_loop:
  "th_place r = Working \<Longrightarrow> aodv_loop (th_node r) = Some s \<Longrightarrow>
     moves (Suc (length (task_queue (th_node r)))) r = Some (r\<lparr>th_place := Checking, th_node := s\<rparr>)"
proof (induction "length (task_queue (th_node r))" arbitrary: r)
  case 0
  then have "get_task (th_node r) = (None, th_node r)" by (simp add: get_task_empty)
  with 0 show ?case by (auto simp: aodv_def aodv_loop.simps [of "th_node r"])
next
  case (Suc k)
  obtain x u where g: "get_task (th_node r) = (x, u)" by fastforce
  with Suc.hyps(2) get_task_empty [of "th_node r" u] obtain t where t: "x = Some t" by (cases x) auto
  with g Suc.prems obtain v where v: "handle_task t u = Some v" "aodv_loop v = Some s"
    by (auto simp: aodv_loop.simps [of "th_node r"] split: bind_splits)
  have k: "k = length (task_queue (th_node (r\<lparr>th_node := v\<rparr>)))"
    using get_task_length [of "th_node r" t u] g t handle_task_keeps [OF v(1)] Suc.hyps(2) by (simp add: evolves_def)
  have "aodv r = Some (r\<lparr>th_node := v\<rparr>)" using Suc.prems(1) g t v(1) by (simp add: aodv_def)
  with Suc.hyps(1) [OF k] Suc.prems(1) v(2) show ?case unfolding Suc.hyps(2) [symmetric] k [symmetric] by simp
qed

lemma get_task_keeps_length: "get_task s = (x, u) \<Longrightarrow> length (task_queue u) \<le> length (task_queue s)"
  by (cases x) (use get_task_length [of s] get_task_empty [of s] in auto)

text \<open>In the places between the last look and the next kick nothing is queued.\<close>

definition idle_ok :: "router \<Rightarrow> bool" where
  "idle_ok r \<longleftrightarrow> th_place r \<in> {Checking, Lying_Down, Asleep} \<longrightarrow> task_queue (th_node r) = []"

lemma aodv_idle: "aodv r = Some r' \<Longrightarrow> idle_ok r \<Longrightarrow> idle_ok r'"
  by (auto simp: aodv_def idle_ok_def get_task_empty split: place.splits prod.splits option.splits if_splits)

lemma timely_idle: "timely_step r r' \<Longrightarrow> idle_ok r \<Longrightarrow> idle_ok r'"
  by (erule aodv_cases) (blast intro: aodv_idle, auto simp: after_event_def idle_ok_def kill_aodv_def)

lemma timely_steps_idle: "timely_step\<^sup>*\<^sup>* r r' \<Longrightarrow> idle_ok r \<Longrightarrow> idle_ok r'"
  by (induction rule: rtranclp_induct) (auto intro: timely_idle)

text \<open>
  C11: as long as no event falls between the thread's last look into the queue and its sleep, the
  thread never sleeps while a task waits. An event that queues a task in that moment is lost on it:
  the thread goes to sleep over the task and does not move again by itself.
\<close>

theorem sleeps_on_empty_queue:
  assumes "task_queue s = []"
  shows "(\<forall>r. timely_step\<^sup>*\<^sup>* (startup_aodv s) r \<longrightarrow> th_place r = Asleep \<longrightarrow> task_queue (th_node r) = [])
    \<and> (\<forall>r u. th_place r = Lying_Down \<longrightarrow> event (th_node r) u \<longrightarrow>
         (\<exists>r'. router_step\<^sup>*\<^sup>* r r' \<and> th_place r' = Asleep \<and> th_node r' = u \<and> aodv r' = None))"
proof (intro conjI allI impI)
  fix r
  assume t: "timely_step\<^sup>*\<^sup>* (startup_aodv s) r" and a: "th_place r = Asleep"
  have "idle_ok (startup_aodv s)" using assms by (simp add: startup_aodv_def idle_ok_def)
  with t have "idle_ok r" by (rule timely_steps_idle)
  with a show "task_queue (th_node r) = []" by (simp add: idle_ok_def)
next
  fix r :: router and u
  assume p: "th_place r = Lying_Down" and e: "event (th_node r) u"
  let ?m = "after_event r u"
  have m: "th_place ?m = Lying_Down" "th_node ?m = u" using p by (simp_all add: after_event_def)
  then have "aodv ?m = Some (?m\<lparr>th_place := Asleep\<rparr>)" by (simp add: aodv_def)
  then have "router_step\<^sup>*\<^sup>* r (?m\<lparr>th_place := Asleep\<rparr>)"
    by (meson router_event [OF e] router_move r_into_rtranclp rtranclp.rtrancl_into_rtrancl)
  then show "\<exists>r'. router_step\<^sup>*\<^sup>* r r' \<and> th_place r' = Asleep \<and> th_node r' = u \<and> aodv r' = None"
    by (rule exI [of _ "?m\<lparr>th_place := Asleep\<rparr>", OF conjI]) (use m in \<open>simp add: aodv_def\<close>)
qed

text \<open>
  C10: a kick is answered: the sleeping thread that an event gives a task, with no kill pending, works
  off the whole queue, as long as none of the queued tasks is a fault, and sleeps again after as many
  moves as there are tasks and four. A kill ends the thread: at once if it sleeps or tests; if it
  works, after the queue, as long as none of its tasks is a fault; but when it is about to sleep it
  sleeps on, and it is not dead when the killer goes on.
\<close>

theorem kick_and_kill:
  "(th_place r = Asleep \<longrightarrow> \<not> kill_thread r \<longrightarrow> length (task_queue (th_node r)) < length (task_queue s') \<longrightarrow>
      aodv_loop s' = Some s \<longrightarrow>
      moves (length (task_queue s') + 4) (after_event r s') = Some (r\<lparr>th_node := s\<rparr>) \<and> task_queue s = [])
   \<and> (th_place r \<in> {Checking, Asleep, Waking} \<longrightarrow>
        (\<exists>r'. moves 1 (kill_aodv r) = Some r' \<and> th_place r' = Gone \<and> aodv_is_dead r' \<and> th_node r' = th_node r))
   \<and> (th_place r = Working \<longrightarrow> aodv_loop (th_node r) = Some s \<longrightarrow>
        (\<exists>r'. moves (length (task_queue (th_node r)) + 2) (kill_aodv r) = Some r' \<and> th_place r' = Gone \<and> aodv_is_dead r'
           \<and> th_node r' = s))
   \<and> (th_place r = Lying_Down \<longrightarrow> moves 1 (kill_aodv r) = Some (r\<lparr>kill_thread := True, th_place := Asleep\<rparr>)
        \<and> moves 2 (kill_aodv r) = None)"
proof (intro conjI impI, goal_cases)
  case 1
  let ?w = "r\<lparr>th_node := s', th_place := Working\<rparr>"
  have "moves (Suc (length (task_queue s'))) ?w = Some (?w\<lparr>th_place := Checking, th_node := s\<rparr>)"
    using moves_loop [of ?w s] 1 by simp
  from moves_then [OF this, of 2] 1
  have "moves (length (task_queue s') + 3) ?w = Some (r\<lparr>th_node := s\<rparr>)"
    by (simp add: aodv_def numeral_2_eq_2 numeral_3_eq_3)
  moreover have "aodv (after_event r s') = Some ?w" using 1 by (simp add: after_event_def kick_aodv_def aodv_def)
  ultimately show ?case unfolding add.commute [of _ 4] by (simp add: numeral_eq_Suc)
next
  case 2
  from 2(4) aodv_loop_works [of s'] have "works (length (task_queue s')) s' s" by blast
  from works_length [OF this] show ?case by simp
next
  case 4
  let ?k = "r\<lparr>kill_thread := True\<rparr>"
  have "moves (Suc (length (task_queue (th_node r)))) ?k = Some (?k\<lparr>th_place := Checking, th_node := s\<rparr>)"
    using moves_loop [of ?k s] 4 by simp
  from moves_then [OF this, of 1] 4(1) show ?case
    by (simp add: kill_aodv_def kick_aodv_def aodv_def)
qed (auto simp: kill_aodv_def kick_aodv_def aodv_def numeral_2_eq_2)

section \<open>Examples\<close>

lemma sleeps_on_empty_queue_witness:
  "\<exists>r'. router_step\<^sup>*\<^sup>* ((startup_aodv sample_mesh)\<lparr>th_place := Lying_Down\<rparr>) r' \<and> th_place r' = Asleep
     \<and> task_queue (th_node r') \<noteq> []"
proof -
  obtain s' where o: "output_handler True sample_packet_out sample_mesh = Some (NF_QUEUE, s')" "task_queue s' \<noteq> []"
    using sample_output by blast
  let ?r = "(startup_aodv sample_mesh)\<lparr>th_place := Lying_Down\<rparr>"
  have e: "event (th_node ?r) s'" using event_output [OF o(1)] by (simp add: startup_aodv_def)
  have "task_queue sample_mesh = []" by (simp add: sample_node_def)
  from sleeps_on_empty_queue [OF this, THEN conjunct2, rule_format, OF _ e] o(2) show ?thesis by auto
qed

lemma output_request:
  assumes "output_handler True sample_packet_out sample_mesh = Some (NF_QUEUE, s')"
  shows "\<exists>t. task_queue s' = [t] \<and> tk_type t = TASK_GEN_RREQ \<and> local_ok s'"
proof -
  have "task_queue sample_mesh = []" by (simp add: sample_node_def)
  moreover have "\<exists>t. task_queue s' = t # task_queue sample_mesh \<and> tk_type t = TASK_GEN_RREQ"
    using assms sample_out_facts
    by (auto simp: output_handler_def no_route_def create_task_def kmalloc_def insert_task_at_front_def
        queue_control_task_at_front_def Let_def)
  moreover have "local_ok sample_mesh" by (simp add: local_ok_def sample_self_def sample_route_def)
  then have "local_ok s'" using grows_output_handler [OF assms] sample_mesh_ok by (simp add: grows_def)
  ultimately show ?thesis by simp
qed

text \<open>The request that a packet of this node queues is worked off.\<close>

lemma request_worked_off:
  assumes "task_queue s = [t]" and "tk_type t = TASK_GEN_RREQ" and "local_ok s"
  shows "\<exists>s'. aodv_loop s = Some s'"
proof -
  obtain r u where g: "get_task s = (r, u)" by fastforce
  with get_task_empty [of s u] assms(1) obtain x where r: "r = Some x" by (cases r) auto
  from get_task_Some [OF g [unfolded r]] assms(1) have x: "x = t" "u = s\<lparr>task_queue := task_queue u\<rparr>" "task_queue u = []"
    by auto
  have "local_ok u" by (subst x(2)) (simp add: assms(3))
  then obtain v where v: "gen_rreq (tk_src_ip t) (tk_dst_ip t) (tk_tos t) u = Some v" using discovery_no_fault(1) by blast
  have h: "handle_task t u = Some v" using v assms(2) by (simp add: handle_task_def recv_tasks_def)
  have "task_queue v = []" using handle_task_keeps [OF h] x(3) by (simp add: evolves_def)
  then have "aodv_loop v = Some v" by (simp add: aodv_loop.simps [of v] get_task_empty [THEN iffD2])
  with g r x(1) h show ?thesis by (simp add: aodv_loop.simps [of s])
qed

lemma kick_and_kill_witness:
  "\<exists>s' s. event sample_mesh s' \<and> task_queue s' \<noteq> [] \<and> task_queue s = []
     \<and> moves (length (task_queue s') + 4) (after_event ((startup_aodv sample_mesh)\<lparr>th_place := Asleep\<rparr>) s')
       = Some ((startup_aodv sample_mesh)\<lparr>th_place := Asleep, th_node := s\<rparr>)"
proof -
  let ?r = "(startup_aodv sample_mesh)\<lparr>th_place := Asleep\<rparr>"
  obtain s' where o: "output_handler True sample_packet_out sample_mesh = Some (NF_QUEUE, s')"
    using sample_output by blast
  from output_request [OF o] obtain t where t: "task_queue s' = [t]" "tk_type t = TASK_GEN_RREQ" "local_ok s'" by blast
  from request_worked_off [OF t] obtain s where s: "aodv_loop s' = Some s" by blast
  have "length (task_queue (th_node ?r)) < length (task_queue s')" by (simp add: startup_aodv_def t(1) sample_node_def)
  with kick_and_kill [of ?r s' s, THEN conjunct1] s
  have "moves (length (task_queue s') + 4) (after_event ?r s') = Some (?r\<lparr>th_node := s\<rparr>) \<and> task_queue s = []"
    by (simp add: startup_aodv_def)
  with event_output [OF o] t(1) show ?thesis by (intro exI [of _ s'] exI [of _ s]) simp
qed

end
