(* ===== verification/Proc_Text.thy ===== *)
theory Proc_Text
  imports Node_Step
begin

text \<open>
  What the readers of the proc files share: numbers as \<open>sprintf\<close> prints them, character buffers
  with a size, lines printed one after the other into the page, and the end of every reader,
  which tells the kernel which part of the page was asked for. The locale \<open>line_printer\<close> is the
  printing of one entry, the locale \<open>proc_reader\<close> what the kernel relies on when it reads a file
  piece by piece.
\<close>

section \<open>Numbers and columns\<close>

abbreviation nl :: string where "nl \<equiv> [CHR 0x0A]"
abbreviation tab :: string where "tab \<equiv> [CHR 0x09]"
abbreviation dashes :: "nat \<Rightarrow> string" where "dashes n \<equiv> replicate n CHR ''-''"

definition show_int :: "int \<Rightarrow> string" where
  "show_int i = (if i < 0 then CHR ''-'' # show_nat (nat (- i)) else show_nat (nat i))"

definition pad_left :: "nat \<Rightarrow> string \<Rightarrow> string" where
  "pad_left n t = replicate (n - length t) CHR '' '' @ t"

definition pad_right :: "nat \<Rightarrow> string \<Rightarrow> string" where
  "pad_right n t = t @ replicate (n - length t) CHR '' ''"

text \<open>\<open>%nu\<close> of a word.\<close>

abbreviation print_u :: "nat \<Rightarrow> 'a::len word \<Rightarrow> string" where
  "print_u n w \<equiv> pad_left n (show_nat (unat w))"

lemma length_pad [simp]: "length (pad_left n t) = max n (length t)" "length (pad_right n t) = max n (length t)"
  by (simp_all add: pad_left_def pad_right_def max_def)

lemma length_show_nat: "n < 10 ^ k \<Longrightarrow> 0 < k \<Longrightarrow> length (show_nat n) \<le> k"
proof (induction n arbitrary: k rule: show_nat.induct)
  case (1 n)
  show ?case
  proof (cases "n < 10")
    case False
    then obtain j where k: "k = Suc j" "0 < j" using 1(2,3) by (cases k; cases "k - 1") auto
    with 1(2) have "n div 10 < 10 ^ j" by auto
    with 1(1) [OF False _ k(2)] k False show ?thesis by (simp add: show_nat.simps [of n])
  qed (use 1 in \<open>simp add: show_nat.simps [of n]\<close>)
qed

lemma show_nat_nonempty: "1 \<le> length (show_nat n)"
  by (subst show_nat.simps) simp

lemma length_show_word:
  "length (show_nat (unat (w8 :: u8))) \<le> 3" "length (show_nat (unat (w16 :: u16))) \<le> 5"
  "length (show_nat (unat (w32 :: u32))) \<le> 10" "length (show_nat (unat (w64 :: u64))) \<le> 20"
  using unsigned_less [of w8, where ?'a = nat] unsigned_less [of w16, where ?'a = nat]
    unsigned_less [of w32, where ?'a = nat] unsigned_less [of w64, where ?'a = nat]
  by (auto intro!: length_show_nat)

lemma ip_byte_bound: "ip_byte a n < 256"
  using take_bit_nat_less_exp [of 8 "unat (drop_bit (8 * n) a)"] by (simp add: ip_byte_def unsigned_take_bit_eq)

text \<open>An address has at least seven characters and at most fifteen.\<close>

lemma length_inet_ntoa: "length (inet_ntoa a) \<le> 15" "7 \<le> length (inet_ntoa a)"
proof -
  have b: "length (show_nat (ip_byte a n)) \<le> 3" for n
    by (rule length_show_nat) (use ip_byte_bound [of a n] in simp_all)
  show "length (inet_ntoa a) \<le> 15" using b [of 0] b [of 1] b [of 2] b [of 3] by (simp add: inet_ntoa_def)
  show "7 \<le> length (inet_ntoa a)"
    using show_nat_nonempty [of "ip_byte a 0"] show_nat_nonempty [of "ip_byte a 1"] show_nat_nonempty [of "ip_byte a 2"]
      show_nat_nonempty [of "ip_byte a 3"] by (simp add: inet_ntoa_def)
qed

text \<open>
  The seconds and milliseconds up to a time: \<open>do_div\<close> divides the 64-bit difference, which wraps
  around for a time that has passed; the quotient is then cast to \<open>unsigned long\<close>.
\<close>

definition time_left :: "u64 \<Rightarrow> u64 \<Rightarrow> u64 \<times> u64" where
  "time_left t c = ((t - c) div 1000, (t - c) mod 1000)"

section \<open>Character buffers\<close>

text \<open>
  A buffer of \<open>n\<close> bytes holds a string of fewer characters, as the end of the string takes one; a
  longer one is written past its end, a fault. The kernel hands the readers one page.
\<close>

abbreviation "PAGE_SIZE \<equiv> (4096 :: nat)"

definition c_sprintf :: "nat \<Rightarrow> string \<Rightarrow> string option" where
  "c_sprintf n t = (if length t < n then Some t else None)"

definition c_strcat :: "nat \<Rightarrow> string \<Rightarrow> string \<Rightarrow> string option" where
  "c_strcat n b t = c_sprintf n (b @ t)"

lemma c_sprintf_Some: "length t < n \<Longrightarrow> c_sprintf n t = Some t"
  by (simp add: c_sprintf_def)

lemma c_sprintf_iff: "c_sprintf n t = Some b \<longleftrightarrow> b = t \<and> length t < n"
  by (auto simp: c_sprintf_def)

text \<open>The entries of a table, each printed with \<open>line\<close> and appended to the page.\<close>

definition print_all :: "('a \<Rightarrow> string option) \<Rightarrow> 'a list \<Rightarrow> string \<Rightarrow> string option" where
  "print_all line xs b = each (\<lambda>x b. Option.bind (line x) (c_strcat PAGE_SIZE b)) xs b"

lemma print_all_simps [simp]:
  "print_all line [] b = Some b"
  "print_all line (x # xs) b = Option.bind (Option.bind (line x) (c_strcat PAGE_SIZE b)) (print_all line xs)"
  by (simp_all add: print_all_def [abs_def])

text \<open>A page never gets shorter: whatever overflows it, stays an overflow.\<close>

lemma print_all_grows: "print_all line xs b = Some b' \<Longrightarrow> \<exists>t. b' = b @ t"
  by (induction xs arbitrary: b) (fastforce simp: c_strcat_def c_sprintf_def split: if_splits bind_splits)+

lemma print_all_long:
  assumes "\<And>x t. x \<in> set xs \<Longrightarrow> line x = Some t \<Longrightarrow> w \<le> length t" and "print_all line xs b = Some b'"
  shows "length b + w * length xs \<le> length b'"
  using assms
proof (induction xs arbitrary: b)
  case (Cons x xs)
  from Cons.prems(2) obtain t where t: "line x = Some t" "print_all line xs (b @ t) = Some b'"
    by (auto simp: c_strcat_def c_sprintf_def split: if_splits bind_splits)
  have "w \<le> length t" by (rule Cons.prems(1) [OF _ t(1)]) simp
  with Cons.IH [OF _ t(2)] Cons.prems(1) show ?case by force
qed simp

text \<open>What is printed without a fault, in at most so many characters.\<close>

definition prints :: "nat \<Rightarrow> string option \<Rightarrow> bool" where
  "prints w m \<longleftrightarrow> (\<exists>t. m = Some t \<and> length t \<le> w)"

lemma prints_some: "length t \<le> w \<Longrightarrow> prints w (Some t)"
  by (simp add: prints_def)

lemma prints_sprintf: "length t \<le> w \<Longrightarrow> w < n \<Longrightarrow> prints w (c_sprintf n t)"
  by (simp add: prints_def c_sprintf_def)

lemma prints_bind: "prints v m \<Longrightarrow> (\<And>t. length t \<le> v \<Longrightarrow> prints w (f t)) \<Longrightarrow> prints w (Option.bind m f)"
  by (auto simp: prints_def)

lemma prints_mono: "prints v m \<Longrightarrow> v \<le> w \<Longrightarrow> prints w m"
  by (auto simp: prints_def)

text \<open>Rules that add up the width of a text from its parts, by their form.\<close>

lemma text_le:
  "length ([] :: string) \<le> 0"
  "length t \<le> m \<Longrightarrow> length (c # t :: string) \<le> Suc m"
  "length t \<le> m \<Longrightarrow> length u \<le> n \<Longrightarrow> length (t @ u :: string) \<le> m + n"
  "length (dashes n) \<le> n"
  "length t \<le> m \<Longrightarrow> length (pad_left n t) \<le> max n m"
  "length t \<le> m \<Longrightarrow> length (pad_right n t) \<le> max n m"
  "length t \<le> m \<Longrightarrow> length u \<le> n \<Longrightarrow> length (if b then t else u :: string) \<le> max m n"
  by auto

lemma text_ge:
  "0 \<le> length ([] :: string)"
  "m \<le> length t \<Longrightarrow> Suc m \<le> length (c # t :: string)"
  "m \<le> length t \<Longrightarrow> n \<le> length u \<Longrightarrow> m + n \<le> length (t @ u :: string)"
  "n \<le> length (pad_left n t)"
  "n \<le> length (pad_right n t)"
  "m \<le> length t \<Longrightarrow> n \<le> length u \<Longrightarrow> min m n \<le> length (if b then t else u :: string)"
  by (auto simp: min_le_iff_disj)

lemma length_show_ms: "length (show_nat (unat (ulong (x mod 1000)))) \<le> 3"
proof (rule length_show_nat)
  have "unat (x mod 1000) < 1000" by (simp add: unat_mod)
  then show "unat (ulong (x mod 1000)) < 10 ^ 3"
    by (simp add: ulong_def unsigned_ucast_eq take_bit_nat_eq_self)
qed simp

lemma length_show_ms64: "length (show_nat (unat ((x :: u64) mod 1000))) \<le> 3"
  by (rule length_show_nat) (simp_all add: unat_mod)

lemma length_show_int: "- (2 ^ 31) \<le> i \<Longrightarrow> i < 2 ^ 31 \<Longrightarrow> length (show_int i) \<le> 11"
  using length_show_nat [of "nat (- i)" 10] length_show_nat [of "nat i" 10] by (auto simp: show_int_def nat_less_iff)

lemma length_show_rate: "length (show_nat (unat (w :: u16) * 100)) \<le> 7"
  using unsigned_less [of w, where ?'a = nat] by (intro length_show_nat) auto

lemma prints_case: "(b \<Longrightarrow> prints v m) \<Longrightarrow> (\<not> b \<Longrightarrow> prints w n) \<Longrightarrow> prints (max v w) (if b then m else n)"
  by (auto intro: prints_mono)

lemmas width_rules =
  prints_bind prints_sprintf prints_some prints_case length_show_ms length_show_ms64 length_show_rate
  length_inet_ntoa(1) text_le length_show_word

locale line_printer =
  fixes line :: "'a \<Rightarrow> string option" and printable :: "'a \<Rightarrow> bool" and width :: nat
  assumes line_prints: "printable x \<Longrightarrow> prints width (line x)"
begin

definition text_of :: "'a list \<Rightarrow> string" where
  "text_of xs = concat (map (\<lambda>x. the (line x)) xs)"

lemma text_of_simps [simp]: "text_of [] = []" "text_of (x # xs) = the (line x) @ text_of xs"
  by (simp_all add: text_of_def)

lemma length_text_of: "\<forall>x\<in>set xs. printable x \<Longrightarrow> length (text_of xs) \<le> width * length xs"
proof (induction xs)
  case (Cons x xs)
  from line_prints [of x] Cons.prems obtain t where "line x = Some t" "length t \<le> width" by (auto simp: prints_def)
  with Cons show ?case by simp
qed simp

text \<open>Printable entries are printed in their order, or there is too much of them.\<close>

lemma print_all_iff:
  assumes "\<forall>x\<in>set xs. printable x" and "length b < PAGE_SIZE"
  shows "print_all line xs b = (if length (b @ text_of xs) < PAGE_SIZE then Some (b @ text_of xs) else None)"
  using assms
proof (induction xs arbitrary: b)
  case (Cons x xs)
  from line_prints [of x] Cons.prems obtain t where t: "line x = Some t" by (auto simp: prints_def)
  with Cons.IH [of "b @ t"] Cons.prems show ?case by (auto simp: c_strcat_def c_sprintf_def)
qed simp

lemma print_all_fits:
  assumes "\<forall>x\<in>set xs. printable x" and "length b + width * length xs < PAGE_SIZE"
  shows "print_all line xs b = Some (b @ text_of xs)"
  using print_all_iff [OF assms(1), of b] length_text_of [OF assms(1)] assms(2) by simp

text \<open>The table on a page that has \<open>n\<close> characters so far.\<close>

lemma page_bind:
  assumes "length b \<le> n" and "n + width * length xs < PAGE_SIZE" and "\<forall>x\<in>set xs. printable x"
    and "\<And>t. length t \<le> n + width * length xs \<Longrightarrow> f t \<noteq> None"
  shows "Option.bind (print_all line xs b) f \<noteq> None"
  using print_all_fits [OF assms(3), of b] length_text_of [OF assms(3)] assms by simp

end

lemma sprintf_bind: "length t \<le> n \<Longrightarrow> n < m \<Longrightarrow> (\<And>b. length b \<le> n \<Longrightarrow> f b \<noteq> None) \<Longrightarrow> Option.bind (c_sprintf m t) f \<noteq> None"
  by (simp add: c_sprintf_def)

lemma strcat_end: "length b \<le> n \<Longrightarrow> n + length t < m \<Longrightarrow> c_strcat m b t \<noteq> None"
  by (simp add: c_strcat_def c_sprintf_def)

section \<open>The part of the page that was asked for\<close>

text \<open>
  What a reader leaves: the page, \<open>*buffer_location\<close> as an index into it (\<open>None\<close> when it is not
  set), the result, and \<open>*eof\<close>.
\<close>

record proc_result =
  pr_page :: string
  pr_start :: "int option"
  pr_len :: int
  pr_eof :: bool

definition proc_tail :: "int \<Rightarrow> int \<Rightarrow> string \<Rightarrow> proc_result" where
  "proc_tail offset buffer_length buffer =
     (let len = int (length buffer) - offset
      in \<lparr>pr_page = buffer, pr_start = Some offset,
          pr_len = (if len > buffer_length then buffer_length else if len < 0 then 0 else len), pr_eof = False\<rparr>)"

text \<open>
  The kernel copies so many bytes from there, and goes on at the offset it has reached until
  nothing comes any more or the end of the file is reported.
\<close>

definition proc_bytes :: "proc_result \<Rightarrow> string" where
  "proc_bytes r = (case pr_start r of None \<Rightarrow> [] | Some i \<Rightarrow> take (nat (pr_len r)) (drop (nat i) (pr_page r)))"

fun read_file :: "nat \<Rightarrow> (int \<Rightarrow> proc_result option) \<Rightarrow> int \<Rightarrow> string option" where
  "read_file 0 rd offset = None"
| "read_file (Suc n) rd offset =
     (case rd offset of
        None \<Rightarrow> None
      | Some r \<Rightarrow>
          if pr_len r \<le> 0 then Some []
          else if pr_eof r then Some (proc_bytes r)
          else map_option ((@) (proc_bytes r)) (read_file n rd (offset + pr_len r)))"

locale proc_reader =
  fixes reader :: "int \<Rightarrow> int \<Rightarrow> node \<Rightarrow> proc_result option" and page :: "node \<Rightarrow> string option"
  assumes faults: "page s = None \<Longrightarrow> reader offset k s = None"
    and answer: "page s = Some t \<Longrightarrow> 0 \<le> offset \<Longrightarrow> 0 < k \<Longrightarrow>
      \<exists>r. reader offset k s = Some r \<and> pr_page r = t \<and> pr_len r = max 0 (min k (int (length t) - offset))
        \<and> (0 < pr_len r \<longrightarrow> pr_start r = Some offset) \<and> (pr_eof r \<longrightarrow> int (length t) \<le> offset + k)"
begin

text \<open>With one call for every byte and a last one, the file is read to its end.\<close>

lemma read_file_rest:
  assumes "page s = Some t" and "0 < k" and "length t - i < n"
  shows "read_file n (\<lambda>offset. reader offset k s) (int i) = Some (drop i t)"
  using assms(3)
proof (induction n arbitrary: i)
  case (Suc n)
  from answer [OF assms(1) _ assms(2), of "int i"] obtain r where r: "reader (int i) k s = Some r" "pr_page r = t"
    "pr_len r = max 0 (min k (int (length t) - int i))" "0 < pr_len r \<longrightarrow> pr_start r = Some (int i)"
    "pr_eof r \<longrightarrow> int (length t) \<le> int i + k" by auto
  show ?case
  proof (cases "length t \<le> i")
    case False
    define m where "m = min (nat k) (length t - i)"
    have m: "pr_len r = int m" "0 < m" using r(3) False assms(2) by (auto simp: m_def)
    have b: "proc_bytes r = take m (drop i t)" using r(2,4) m by (simp add: proc_bytes_def)
    have "read_file n (\<lambda>offset. reader offset k s) (int (i + m)) = Some (drop (i + m) t)"
      by (rule Suc.IH) (use Suc.prems m False in simp)
    moreover have "take m (drop i t) = drop i t" if "int (length t) \<le> int i + k"
      using that by (simp add: m_def)
    moreover have "take m (drop i t) @ drop (i + m) t = drop i t"
      by (metis append_take_drop_id drop_drop add.commute)
    ultimately show ?thesis using r(1,5) m b by simp
  qed (use r in simp)
qed simp

lemma reassembles:
  assumes "reader 0 k s = Some r" and "0 < k"
  shows "read_file (Suc (length (pr_page r))) (\<lambda>offset. reader offset k s) 0 = Some (pr_page r)"
proof -
  from assms(1) faults obtain t where t: "page s = Some t" by fastforce
  from answer [OF t order_refl assms(2)] assms(1) have "pr_page r = t" by auto
  with read_file_rest [OF t assms(2), of 0 "Suc (length t)"] show ?thesis by (simp del: read_file.simps)
qed

lemma faults_iff: "0 \<le> offset \<Longrightarrow> 0 < k \<Longrightarrow> reader offset k s = None \<longleftrightarrow> page s = None"
  using faults answer by (cases "page s") fastforce+

end

lemma proc_tail_answer:
  assumes "0 < k"
  shows "pr_page (proc_tail i k t) = t \<and> pr_len (proc_tail i k t) = max 0 (min k (int (length t) - i))
    \<and> pr_start (proc_tail i k t) = Some i \<and> \<not> pr_eof (proc_tail i k t)"
  using assms by (auto simp: proc_tail_def Let_def)

end
