(* ===== verification/Proc_Files.thy ===== *)
theory Proc_Files
  imports Proc_Text
begin

text \<open>
  The files under \<open>/proc/fbaodv\<close>: the readers of \<open>aodv_neigh.c\<close>, \<open>aodv_route.c\<close>, \<open>gw_list.c\<close>,
  \<open>src_list.c\<close>, \<open>timer_queue.c\<close> and \<open>tos.c\<close>. Each prints its table into the page: \<open>..._line\<close> is
  one entry, \<open>..._page\<close> the whole. The headings and the texts that do not depend on the table fit
  into the temporary buffers they go through.
\<close>

section \<open>Neighbours\<close>

definition neigh_line :: "u64 \<Rightarrow> aodv_neigh \<Rightarrow> string option" where
  "neigh_line c n = do {
     ip \<leftarrow> c_sprintf 200 (''   '' @ pad_right 16 (inet_ntoa (ng_ip n)));
     time \<leftarrow> c_sprintf 200
       (if time_before (ng_lifetime n) c then '' Expired!''
        else (case time_left (ng_lifetime n) c of (numerator, remainder) \<Rightarrow>
                '' sec/msec: '' @ print_u 2 (ulong numerator) @ ''/'' @ print_u 3 (ulong remainder) @ '' ''));
     rates \<leftarrow> c_sprintf 200
       (''   '' @ pad_left 5 (show_nat (unat (ng_send_rate n) * 100)) @ '' Kbps   '' @
        pad_left 5 (show_nat (unat (ng_recv_rate n) * 100)) @ '' Kbps  '' @ print_u 3 (ng_etx_metric n) @ nl);
     Some (ip @ '' 1Hop '' @ time @ rates)
   }"

definition neigh_2h_line :: "u64 \<Rightarrow> aodv_neigh_2h \<Rightarrow> string option" where
  "neigh_2h_line c n = do {
     ip \<leftarrow> c_sprintf 200 (''   '' @ pad_right 16 (inet_ntoa (n2_ip n)));
     time \<leftarrow> c_sprintf 200
       (if time_before (n2_lifetime n) c then '' Expired!''
        else (case time_left (n2_lifetime n) c of (numerator, remainder) \<Rightarrow>
                '' sec/msec: '' @ print_u 0 (ulong numerator) @ ''/'' @ print_u 0 (ulong remainder) @ '' ''));
     Some (ip @ '' 2Hops '' @ time @ nl)
   }"

definition neigh_heading :: string where
  "neigh_heading =
     nl @ ''AODV Neighbors'' @ nl @ dashes 96 @ nl @
     ''       IP       | Hops |     Lifetime     | Send Rate | Recv Rate | ETX |'' @ nl @ dashes 96 @ nl"

definition neigh_page :: "node \<Rightarrow> string option" where
  "neigh_page s = do {
     b \<leftarrow> c_sprintf PAGE_SIZE neigh_heading;
     b \<leftarrow> print_all (neigh_line (currtime s)) (neigh_list s) b;
     b \<leftarrow> print_all (neigh_2h_line (currtime s)) (neigh_list_2h s) b;
     c_strcat PAGE_SIZE b (dashes 96 @ nl @ nl)
   }"

definition read_neigh_proc :: "int \<Rightarrow> int \<Rightarrow> node \<Rightarrow> proc_result option" where
  "read_neigh_proc offset buffer_length s = map_option (proc_tail offset buffer_length) (neigh_page s)"

definition ett_line :: "aodv_neigh \<Rightarrow> string option" where
  "ett_line n = do {
     ip \<leftarrow> c_sprintf 200 (''  '' @ pad_right 16 (inet_ntoa (ng_ip n)));
     ett \<leftarrow> c_sprintf 200
       (print_u 5 (ng_send_rate n) @ ''   '' @ print_u 5 (ng_recv_rate n) @ ''    '' @ print_u 7 (ett_meas_delay n) @
        ''     '' @ print_u 2 (ett_count_rcv n) @ ''     '' @ print_u 2 (ett_window n) @ ''    '' @
        print_u 1 (ett_fixed_rate n) @ nl);
     Some (ip @ ett)
   }"

definition ett_page :: "node \<Rightarrow> string option" where
  "ett_page s = do {
     b \<leftarrow> c_sprintf PAGE_SIZE
       (nl @ ''AODV Neighbors'' @ nl @ dashes 123 @ nl @
        ''      IP      |Send Rate|Recv Rate| Meas Delay|Count ETT|ETT Window|Fixed Rate|'' @ nl @ dashes 123 @ nl);
     b \<leftarrow> print_all ett_line (neigh_list s) b;
     c_strcat PAGE_SIZE b (dashes 123 @ nl @ nl)
   }"

definition read_ett_list_proc :: "int \<Rightarrow> int \<Rightarrow> node \<Rightarrow> proc_result option" where
  "read_ett_list_proc offset buffer_length s = map_option (proc_tail offset buffer_length) (ett_page s)"

definition rel_line :: "aodv_neigh \<Rightarrow> string option" where
  "rel_line n = do {
     dst \<leftarrow> c_sprintf 16 (inet_ntoa (ng_ip n));
     c_sprintf 400
       (''  '' @ pad_right 16 dst @ '' '' @ print_u 2 (etx_count n) @ ''             '' @ print_u 2 (etx_recv n) @
        ''        '' @ print_u 2 (etx_send n) @ ''        '' @ print_u 0 (ng_etx_metric n) @ ''    '' @ nl)
   }"

definition rel_page :: "node \<Rightarrow> string option" where
  "rel_page s = do {
     b \<leftarrow> c_sprintf PAGE_SIZE
       (nl @ '' Reliability Table '' @ nl @ dashes 64 @ nl @
        ''      IP      | Count ETX | Previous RDR | FDR | TxPercentage |'' @ nl @ dashes 64 @ nl);
     b \<leftarrow> print_all rel_line (neigh_list s) b;
     c_strcat PAGE_SIZE b (nl @ dashes 64 @ nl @ nl)
   }"

definition read_rel_list_proc :: "int \<Rightarrow> int \<Rightarrow> node \<Rightarrow> proc_result option" where
  "read_rel_list_proc offset buffer_length s = map_option (proc_tail offset buffer_length) (rel_page s)"

text \<open>A load: of the node itself, of a neighbour, of one at two hops.\<close>

definition load_line :: "string \<Rightarrow> u32 \<times> u16 \<times> u8 \<Rightarrow> string option" where
  "load_line hops p =
     (case p of (ip, load_seq, load) \<Rightarrow> do {
        ip \<leftarrow> c_sprintf 200 (''   '' @ pad_right 16 (inet_ntoa ip) @ ''     '');
        load \<leftarrow> c_sprintf 200 (print_u 5 load_seq @ ''      '' @ print_u 3 load @ ''      '' @ pad_left 1 hops @ nl);
        Some (ip @ load)
      })"

definition load_page :: "node \<Rightarrow> string option" where
  "load_page s = do {
     b \<leftarrow> c_sprintf PAGE_SIZE
       (nl @ ''AODV Neighbor Loads'' @ nl @ dashes 72 @ nl @
        ''        IP        |    SEQ    |  LOAD  |  Hops  |'' @ nl @ dashes 72 @ nl);
     b \<leftarrow> print_all (load_line ''0'') [(mesh_ip s, mesh_load_seq s, mesh_load s)] b;
     b \<leftarrow> print_all (load_line ''1'') (map (\<lambda>n. (ng_ip n, ng_load_seq n, ng_load n)) (neigh_list s)) b;
     b \<leftarrow> print_all (load_line ''2'') (map (\<lambda>n. (n2_ip n, n2_load_seq n, n2_load n)) (neigh_list_2h s)) b;
     c_strcat PAGE_SIZE b (dashes 72 @ nl @ nl)
   }"

definition read_node_load_proc :: "int \<Rightarrow> int \<Rightarrow> node \<Rightarrow> proc_result option" where
  "read_node_load_proc offset buffer_length s = map_option (proc_tail offset buffer_length) (load_page s)"

section \<open>Traffic classes\<close>

text \<open>The class as it is printed, and the DSCP behind it; both are put together in an array.\<close>

definition tos_class :: "u8 \<Rightarrow> (string \<times> string) option" where
  "tos_class tos =
     (if tos = 0x02 then Some (''0x02  '', ''  -- '')
      else if tos = 0x04 then Some (''0x04  '', ''  -- '')
      else if tos = 0x08 then Some (''0x08  '', ''  -- '')
      else if tos = 0x10 then Some (''0x10  '', ''  -- '')
      else if tos = 0x0c then Some (''0x0c  '', '' 0x03'')
      else if tos = 0x14 then Some (''0x14  '', '' 0x05'')
      else if tos = 0x18 then Some (''0x18  '', '' 0x06'')
      else if tos = 0x1c then Some (''0x1c  '', '' 0x07'')
      else None)"

definition tos_text :: "nat \<Rightarrow> string \<times> string \<Rightarrow> string option" where
  "tos_text n p = Option.bind (c_sprintf n (fst p)) (\<lambda>b. c_strcat n b (snd p))"

text \<open>
  An entry of another class is printed with what the array holds from the one before. The first one
  would read the array before anything is in it; that case is the result \<open>None\<close> too.
\<close>

definition flow_line :: "flow_type \<Rightarrow> string option \<times> string \<Rightarrow> (string option \<times> string) option" where
  "flow_line f p = do {
     tos \<leftarrow> (case tos_class (fl_tos f) of None \<Rightarrow> fst p | Some c \<Rightarrow> tos_text 16 c);
     t \<leftarrow> c_sprintf 400
       (pad_right 16 tos @ ''    '' @ pad_right 8 (show_nat (unat (fl_avg_rate f))) @ ''     '' @
        pad_right 8 (show_nat (unat (fl_avg_size f))) @ '' '' @ nl);
     b \<leftarrow> c_strcat PAGE_SIZE (snd p) t;
     Some (Some tos, b)
   }"

definition flow_page :: "node \<Rightarrow> string option" where
  "flow_page s =
     (if flow_type_table s = [] then Some []
      else do {
        b \<leftarrow> c_sprintf PAGE_SIZE
          (nl @ ''Available ToS Table '' @ nl @ dashes 64 @ nl @ '' TOS | DSCP |  AVG_RATE | AVG_SIZE |'' @ nl @ dashes 64 @ nl);
        (_, b) \<leftarrow> each flow_line (flow_type_table s) (None, b);
        c_strcat PAGE_SIZE b (nl @ dashes 64 @ nl @ nl)
      })"

text \<open>Of an empty table nothing is told, not even where it starts.\<close>

definition read_flow_type_table_proc :: "int \<Rightarrow> int \<Rightarrow> node \<Rightarrow> proc_result option" where
  "read_flow_type_table_proc offset buffer_length s =
     (if flow_type_table s = [] then Some \<lparr>pr_page = [], pr_start = None, pr_len = 0, pr_eof = False\<rparr>
      else map_option (proc_tail offset buffer_length) (flow_page s))"

section \<open>Routes\<close>

text \<open>The addresses are copied into arrays of 15 bytes, the class into one of 12.\<close>

definition route_state_text :: "u64 \<Rightarrow> aodv_route \<Rightarrow> string option" where
  "route_state_text c r =
     (if rt_self_route r then Some ('' Self Route'' @ nl)
      else
        (case time_left (rt_lifetime r) c of (numerator, remainder) \<Rightarrow>
           if rt_state r = ACTIVE then do {
             temp \<leftarrow> c_sprintf 100
               (if time_before (rt_lifetime r) c then '' Expired!'' @ nl
                else print_u 0 (ulong numerator) @ ''/'' @ print_u 0 (ulong remainder) @ nl);
             Some ('' ACT:'' @ temp)
           }
           else do {
             temp \<leftarrow> c_sprintf 100
               (if time_before (rt_lifetime r) c then '' Deleted!'' @ nl
                else '' '' @ print_u 0 (ulong numerator) @ ''/'' @ print_u 0 (ulong remainder) @ nl);
             Some ('' Del:'' @ temp)
           }))"

definition route_line :: "u64 \<Rightarrow> aodv_route \<Rightarrow> string option" where
  "route_line c r = do {
     hop \<leftarrow> c_sprintf 15 (inet_ntoa (rt_next_hop r));
     lhop \<leftarrow> c_sprintf 15 (inet_ntoa (rt_last_hop r));
     dst \<leftarrow> c_sprintf 15 (inet_ntoa (rt_dst_ip r));
     src \<leftarrow> c_sprintf 15 (inet_ntoa (rt_src_ip r));
     tos \<leftarrow> tos_text 12 (case tos_class (rt_tos r) of None \<Rightarrow> (''NO_TOS '', ''  -- '') | Some c \<Rightarrow> c);
     line \<leftarrow> c_sprintf 200
       (pad_right 16 src @ '' '' @ pad_right 16 dst @ '' '' @ pad_right 12 tos @ '' '' @ print_u 4 (rt_load r) @ '' '' @
        pad_left 16 hop @ '' '' @ pad_left 16 lhop @ '' '' @ print_u 5 (rt_dst_id r) @ ''  '' @ print_u 3 (rt_num_hops r) @
        '' '' @ print_u 9 (rt_path_metric r));
     state \<leftarrow> route_state_text c r;
     Some (line @ state)
   }"

definition route_page :: "node \<Rightarrow> string option" where
  "route_page s = do {
     b \<leftarrow> c_sprintf PAGE_SIZE
       (nl @ ''Route Table '' @ nl @ dashes 123 @ nl @
        ''   SRC  IP    |    DST  IP    |      ToS      |RLoad|   Next Hop   |   Prev Hop    | DST_ID|Hops|   Path Metric  '' @
        nl @ dashes 124 @ nl);
     b \<leftarrow> print_all (route_line (currtime s)) (route_table s) b;
     c_strcat PAGE_SIZE b (dashes 124 @ nl @ nl)
   }"

definition read_route_table_proc :: "int \<Rightarrow> int \<Rightarrow> node \<Rightarrow> proc_result option" where
  "read_route_table_proc offset buffer_length s = map_option (proc_tail offset buffer_length) (route_page s)"

section \<open>Gateways, sources, timers\<close>

definition gw_line :: "u32 \<Rightarrow> gw_entry \<Rightarrow> string option" where
  "gw_line dflt g = do {
     ip \<leftarrow> c_sprintf 200 ('' IP: '' @ inet_ntoa (gw_ip g));
     m \<leftarrow> c_sprintf 200 (''    Metric: '' @ print_u 0 (gw_metric g));
     hops \<leftarrow> c_sprintf 200 (''    Hops: '' @ print_u 0 (gw_num_hops g));
     Some (ip @ m @ hops @ (if gw_ip g = dflt then ''    default'' @ nl else nl))
   }"

definition gw_page :: "node \<Rightarrow> string option" where
  "gw_page s = do {
     b \<leftarrow> c_sprintf PAGE_SIZE nl;
     b \<leftarrow> print_all (gw_line (default_gw s)) (gw_list s) b;
     c_strcat PAGE_SIZE b nl
   }"

definition read_gw_list :: "int \<Rightarrow> int \<Rightarrow> node \<Rightarrow> proc_result option" where
  "read_gw_list offset buffer_length s = map_option (proc_tail offset buffer_length) (gw_page s)"

definition src_line :: "src_list_entry \<Rightarrow> string option" where
  "src_line e = do {
     src \<leftarrow> c_sprintf 16 (inet_ntoa (sl_ip e));
     c_sprintf 400
       (''  '' @ pad_right 16 src @ ''       '' @ pad_left 3 (show_int (sl_rt_table e)) @ ''           '' @
        pad_left 3 (show_int (sl_num_routes e)) @ nl)
   }"

definition src_page :: "node \<Rightarrow> string option" where
  "src_page s = do {
     b \<leftarrow> c_sprintf PAGE_SIZE
       (nl @ '' Sources Table '' @ nl @ dashes 91 @ nl @
        tab @ ''IP'' @ tab @ ''   | ROUTE TABLE | TOTAL ROUTES | QoS-D ROUTES | BG ROUTES |'' @ nl @ dashes 91 @ nl);
     b \<leftarrow> print_all src_line (src_list s) b;
     c_strcat PAGE_SIZE b (nl @ dashes 91 @ nl @ nl)
   }"

definition read_src_list_proc :: "int \<Rightarrow> int \<Rightarrow> node \<Rightarrow> proc_result option" where
  "read_src_list_proc offset buffer_length s = map_option (proc_tail offset buffer_length) (src_page s)"

definition task_name :: "int \<Rightarrow> string" where
  "task_name ty =
     (if ty = TASK_CLEANUP then ''Route Table Cleanup     ''
      else if ty = TASK_HELLO then ''Next Hello           ''
      else if ty = TASK_NEIGHBOR then ''Neighbour Validity   ''
      else if ty = TASK_SEND_ETT then ''Next ETT-Pair        ''
      else if ty = TASK_GW_CLEANUP then ''Gateway Validity     ''
      else if ty = TASK_ST then ''Next ST-RREQ         ''
      else if ty = TASK_ETT_CLEANUP then ''ETT Validity         ''
      else if ty = TASK_NEIGHBOR_2H then ''Neighbour 2H Validity''
      else if ty = TASK_RESEND_RREQ then ''Next RREQ      ''
      else if ty = TASK_SEND_RREP then ''Sending a RREP       ''
      else ''Undefined Task       '')"

definition timer_line :: "u64 \<Rightarrow> task \<Rightarrow> string option" where
  "timer_line c t = do {
     ip \<leftarrow> c_sprintf 200 (''    '' @ pad_right 16 (inet_ntoa (tk_src_ip t)) @ ''  '');
     time \<leftarrow> c_sprintf 200
       (case time_left (tk_time t) c of (numerator, remainder) \<Rightarrow>
          ''        '' @ print_u 3 numerator @ ''/'' @ print_u 3 remainder @ ''           '' @ print_u 0 (tk_retries t) @ nl);
     Some (ip @ task_name (tk_type t) @ time)
   }"

definition timer_page :: "node \<Rightarrow> string option" where
  "timer_page s = do {
     b \<leftarrow> c_sprintf PAGE_SIZE
       (nl @ ''Timer Queue'' @ nl @ dashes 77 @ nl @
        ''       ID         |           Type           |   sec/msec   |   Retries'' @ nl @ dashes 77 @ nl);
     b \<leftarrow> print_all (timer_line (currtime s)) (timer_queue s) b;
     c_strcat PAGE_SIZE b (dashes 76 @ nl)
   }"

text \<open>This reader alone reports the end of the file, and clips its result in another order.\<close>

definition read_timer_queue_proc :: "int \<Rightarrow> int \<Rightarrow> node \<Rightarrow> proc_result option" where
  "read_timer_queue_proc offset buffer_length s =
     map_option
       (\<lambda>buffer.
          let eof = int (length buffer) \<le> offset + buffer_length;
              len = int (length buffer) - offset;
              len = (if len > buffer_length then buffer_length else len);
              len = (if len < 0 then 0 else len)
          in \<lparr>pr_page = buffer, pr_start = Some offset, pr_len = len, pr_eof = eof\<rparr>)
       (timer_page s)"

section \<open>The files\<close>

text \<open>In the order in which the module creates them.\<close>

definition proc_entries :: "(string \<times> (int \<Rightarrow> int \<Rightarrow> node \<Rightarrow> proc_result option)) list" where
  "proc_entries =
     [(''routes'', read_route_table_proc), (''neigh'', read_neigh_proc), (''timers'', read_timer_queue_proc),
      (''reliability'', read_rel_list_proc), (''bw_estimation'', read_ett_list_proc), (''sources'', read_src_list_proc),
      (''node_load'', read_node_load_proc), (''gateways'', read_gw_list), (''tos_available'', read_flow_type_table_proc)]"

section \<open>Reading piece by piece\<close>

lemma proc_reader_tail: "proc_reader (\<lambda>i k s. map_option (proc_tail i k) (page s)) page"
  by unfold_locales (auto simp: proc_tail_answer)

interpretation neigh_file: proc_reader read_neigh_proc neigh_page
  unfolding read_neigh_proc_def [abs_def] by (rule proc_reader_tail)

interpretation ett_file: proc_reader read_ett_list_proc ett_page
  unfolding read_ett_list_proc_def [abs_def] by (rule proc_reader_tail)

interpretation rel_file: proc_reader read_rel_list_proc rel_page
  unfolding read_rel_list_proc_def [abs_def] by (rule proc_reader_tail)

interpretation load_file: proc_reader read_node_load_proc load_page
  unfolding read_node_load_proc_def [abs_def] by (rule proc_reader_tail)

interpretation route_file: proc_reader read_route_table_proc route_page
  unfolding read_route_table_proc_def [abs_def] by (rule proc_reader_tail)

interpretation gw_file: proc_reader read_gw_list gw_page
  unfolding read_gw_list_def [abs_def] by (rule proc_reader_tail)

interpretation src_file: proc_reader read_src_list_proc src_page
  unfolding read_src_list_proc_def [abs_def] by (rule proc_reader_tail)

interpretation flow_file: proc_reader read_flow_type_table_proc flow_page
proof (unfold_locales, goal_cases)
  case (2 s t offset k)
  then show ?case by (cases "flow_type_table s = []") (auto simp: read_flow_type_table_proc_def flow_page_def [of s] proc_tail_answer)
qed (auto simp: read_flow_type_table_proc_def flow_page_def)

interpretation timer_file: proc_reader read_timer_queue_proc timer_page
  by unfold_locales (auto simp: read_timer_queue_proc_def Let_def)

lemma proc_entries_readers: "(name, rd) \<in> set proc_entries \<Longrightarrow> \<exists>page. proc_reader rd page"
  unfolding proc_entries_def
  using neigh_file.proc_reader_axioms ett_file.proc_reader_axioms rel_file.proc_reader_axioms load_file.proc_reader_axioms
    route_file.proc_reader_axioms gw_file.proc_reader_axioms src_file.proc_reader_axioms flow_file.proc_reader_axioms
    timer_file.proc_reader_axioms by auto

text \<open>
  C29: each file of the module, read in pieces of any size, gives the whole page its reader
  prints: the pieces follow one another without a gap or an overlap, and the reading ends.
\<close>

theorem proc_files_reassemble:
  assumes "(name, rd) \<in> set proc_entries" and "rd 0 k s = Some r" and "0 < k"
  shows "read_file (Suc (length (pr_page r))) (\<lambda>offset. rd offset k s) 0 = Some (pr_page r)"
proof -
  from proc_entries_readers [OF assms(1)] obtain page where "proc_reader rd page" by blast
  from proc_reader.reassembles [OF this assms(2,3)] show ?thesis .
qed

section \<open>What fits\<close>

interpretation neigh_lines: line_printer "neigh_line c" "\<lambda>n. True" 87 for c
  unfolding neigh_line_def time_left_def prod.case
  by unfold_locales (rule prints_mono, (rule width_rules | assumption | simp; fail)+)

interpretation neigh_2h_lines: line_printer "neigh_2h_line c" "\<lambda>n. True" 53 for c
  unfolding neigh_2h_line_def time_left_def prod.case
  by unfold_locales (rule prints_mono, (rule width_rules | assumption | simp; fail)+)

interpretation ett_lines: line_printer ett_line "\<lambda>n. True" 71
  unfolding ett_line_def
  by unfold_locales (rule prints_mono, (rule width_rules | assumption | simp; fail)+)

interpretation rel_lines: line_printer rel_line "\<lambda>n. True" 65
  unfolding rel_line_def
  by unfold_locales (rule prints_mono, (rule width_rules | assumption | simp; fail)+)

interpretation load_lines: line_printer "load_line hops" "\<lambda>p. length hops \<le> 1" 46 for hops
  unfolding load_line_def prod.case split_beta
  by unfold_locales (rule prints_mono, (rule width_rules | assumption | simp; fail)+)

interpretation gw_lines: line_printer "gw_line g" "\<lambda>n. True" 67 for g
  unfolding gw_line_def
  by unfold_locales (rule prints_mono, (rule width_rules | assumption | simp; fail)+)

text \<open>The integers of a source have 32 bits in the code.\<close>

definition src_printable :: "src_list_entry \<Rightarrow> bool" where
  "src_printable e \<longleftrightarrow>
     - (2 ^ 31) \<le> sl_rt_table e \<and> sl_rt_table e < 2 ^ 31 \<and> - (2 ^ 31) \<le> sl_num_routes e \<and> sl_num_routes e < 2 ^ 31"

interpretation src_lines: line_printer src_line src_printable 59
  unfolding src_line_def src_printable_def
  by unfold_locales
    (rule prints_mono, (rule width_rules length_show_int | (elim conjE, assumption) | assumption | simp; fail)+)

lemma length_task_name: "length (task_name ty) \<le> 24"
  by (simp add: task_name_def)

interpretation timer_lines: line_printer "timer_line c" "\<lambda>t. True" 95 for c
  unfolding timer_line_def time_left_def prod.case
  by unfold_locales (rule prints_mono, (rule width_rules length_task_name | assumption | simp; fail)+)

text \<open>
  A route is printed only if its class is one of the eight, as the text for no class is too long by
  one for its array, and if none of its four addresses has all its fifteen characters.
\<close>

definition route_printable :: "aodv_route \<Rightarrow> bool" where
  "route_printable r \<longleftrightarrow>
     tos_class (rt_tos r) \<noteq> None \<and> length (inet_ntoa (rt_next_hop r)) < 15 \<and> length (inet_ntoa (rt_last_hop r)) < 15 \<and>
     length (inet_ntoa (rt_dst_ip r)) < 15 \<and> length (inet_ntoa (rt_src_ip r)) < 15"

lemma tos_class_text: "tos_class t = Some p \<Longrightarrow> 12 \<le> n \<Longrightarrow> \<exists>x. tos_text n p = Some x \<and> length x = 11"
  by (auto simp: tos_class_def tos_text_def c_sprintf_def c_strcat_def split: if_splits)

lemma state_text_prints: "prints 21 (route_state_text c r)"
  unfolding route_state_text_def time_left_def prod.case
  by (rule prints_mono, (rule width_rules | assumption | simp; fail)+)

interpretation route_lines: line_printer "route_line c" route_printable 133 for c
proof
  fix r
  assume "route_printable r"
  then obtain p where p: "tos_class (rt_tos r) = Some p" and a: "length (inet_ntoa (rt_next_hop r)) < 15"
    "length (inet_ntoa (rt_last_hop r)) < 15" "length (inet_ntoa (rt_dst_ip r)) < 15" "length (inet_ntoa (rt_src_ip r)) < 15"
    by (auto simp: route_printable_def)
  from tos_class_text [OF p, of 12] have t: "prints 11 (tos_text 12 p)" by (auto simp: prints_def)
  show "prints 133 (route_line c r)"
    unfolding route_line_def p option.case c_sprintf_Some [OF a(1)] c_sprintf_Some [OF a(2)] c_sprintf_Some [OF a(3)]
      c_sprintf_Some [OF a(4)] bind.bind_lunit
    by (rule prints_mono, (rule t state_text_prints width_rules | assumption | simp; fail)+)
qed

lemma not_printable_faults: "\<not> route_printable r \<Longrightarrow> route_line c r = None"
  by (auto simp: route_printable_def route_line_def c_sprintf_def tos_text_def c_strcat_def split: bind_splits option.splits)

lemma print_all_unprintable: "x \<in> set xs \<Longrightarrow> line x = None \<Longrightarrow> print_all line xs b = None"
  by (induction xs arbitrary: b) (auto split: bind_split simp: bind_eq_None_conv)

lemma route_page_unprintable: "r \<in> set (route_table s) \<Longrightarrow> \<not> route_printable r \<Longrightarrow> route_page s = None"
  by (simp add: route_page_def print_all_unprintable not_printable_faults bind_eq_None_conv)

text \<open>Tables of so many entries fit, whatever is in them.\<close>

definition small_tables :: "node \<Rightarrow> bool" where
  "small_tables s \<longleftrightarrow>
     length (neigh_list s) \<le> 30 \<and> length (neigh_list_2h s) \<le> 20 \<and> length (gw_list s) \<le> 60 \<and> length (src_list s) \<le> 60 \<and>
     (\<forall>e\<in>set (src_list s). src_printable e) \<and> length (timer_queue s) \<le> 38"

lemma small_pages:
  assumes "small_tables s"
  shows "neigh_page s \<noteq> None" "ett_page s \<noteq> None" "rel_page s \<noteq> None" "load_page s \<noteq> None" "gw_page s \<noteq> None"
    "src_page s \<noteq> None" "timer_page s \<noteq> None"
proof -
  have l: "length (neigh_list s) \<le> 30" "length (neigh_list_2h s) \<le> 20" "length (gw_list s) \<le> 60" "length (src_list s) \<le> 60"
    "\<forall>e\<in>set (src_list s). src_printable e" "length (timer_queue s) \<le> 38"
    using assms by (simp_all add: small_tables_def)
  note fit = sprintf_bind neigh_lines.page_bind neigh_2h_lines.page_bind ett_lines.page_bind rel_lines.page_bind
    load_lines.page_bind gw_lines.page_bind src_lines.page_bind timer_lines.page_bind strcat_end text_le
  show "neigh_page s \<noteq> None"
    unfolding neigh_page_def neigh_heading_def by (rule fit | assumption | (use l in simp; fail))+
  show "ett_page s \<noteq> None" unfolding ett_page_def by (rule fit | assumption | (use l in simp; fail))+
  show "rel_page s \<noteq> None" unfolding rel_page_def by (rule fit | assumption | (use l in simp; fail))+
  show "load_page s \<noteq> None" unfolding load_page_def by (rule fit | assumption | (use l in simp; fail))+
  show "gw_page s \<noteq> None" unfolding gw_page_def by (rule fit | assumption | (use l in simp; fail))+
  show "src_page s \<noteq> None" unfolding src_page_def by (rule fit | assumption | (use l in simp; fail))+
  show "timer_page s \<noteq> None" unfolding timer_page_def by (rule fit | assumption | (use l in simp; fail))+
qed

text \<open>
  C30: up to 30 neighbours, 20 nodes at two hops, 60 gateways, 60 sources and 38 timers, every file
  but those of the routes and the classes can be read, at any offset, without a write outside
  the page or a temporary buffer.
\<close>

theorem proc_files_fit:
  assumes "small_tables s" and "(name, rd) \<in> set proc_entries" and "name \<noteq> ''routes''" and "name \<noteq> ''tos_available''"
  shows "rd offset k s \<noteq> None"
proof -
  note pages = small_pages [OF assms(1)]
  have "read_neigh_proc offset k s \<noteq> None" "read_ett_list_proc offset k s \<noteq> None" "read_rel_list_proc offset k s \<noteq> None"
    "read_node_load_proc offset k s \<noteq> None" "read_gw_list offset k s \<noteq> None" "read_src_list_proc offset k s \<noteq> None"
    "read_timer_queue_proc offset k s \<noteq> None"
    unfolding read_neigh_proc_def read_ett_list_proc_def read_rel_list_proc_def read_node_load_proc_def read_gw_list_def
      read_src_list_proc_def read_timer_queue_proc_def option.map_disc_iff by (fact pages)+
  with assms(2-4) show ?thesis unfolding proc_entries_def list.set prod.inject insert_iff empty_iff by metis
qed

text \<open>The shortest line of a neighbour has 66 characters: at some number of them the page is full.\<close>

lemma neigh_line_long: "neigh_line c n = Some t \<Longrightarrow> 66 \<le> length t"
  unfolding neigh_line_def time_left_def prod.case bind_eq_Some_conv c_sprintf_iff option.inject
  by (elim exE conjE, hypsubst) (rule order_trans [rotated], (rule text_ge)+, simp)

text \<open>
  The file of the neighbours: as long as they fit into the page it shows every neighbour, and
  then every node at two hops, in the order of their lists, and when they do not, the reader writes
  past the page; with 57 neighbours it always does.
\<close>

lemma read_neigh_proc_spec:
  "(let t = neigh_heading @ concat (map (\<lambda>n. the (neigh_line (currtime s) n)) (neigh_list s)) @
         concat (map (\<lambda>n. the (neigh_2h_line (currtime s) n)) (neigh_list_2h s)) @ dashes 96 @ nl @ nl
    in read_neigh_proc offset k s = (if length t < PAGE_SIZE then Some (proc_tail offset k t) else None))
   \<and> (57 \<le> length (neigh_list s) \<longrightarrow> read_neigh_proc offset k s = None)"
proof -
  let ?a = "concat (map (\<lambda>n. the (neigh_line (currtime s) n)) (neigh_list s))"
  let ?t = "neigh_heading @ ?a @ concat (map (\<lambda>n. the (neigh_2h_line (currtime s) n)) (neigh_list_2h s)) @ dashes 96 @ nl @ nl"
  have h: "length neigh_heading = 284" by (simp add: neigh_heading_def)
  have p: "neigh_page s = (if length ?t < PAGE_SIZE then Some ?t else None)"
    using h neigh_lines.print_all_iff [of "neigh_list s" neigh_heading "currtime s"]
      neigh_2h_lines.print_all_iff [of "neigh_list_2h s" _ "currtime s"]
    by (simp add: neigh_page_def c_sprintf_def c_strcat_def neigh_lines.text_of_def neigh_2h_lines.text_of_def)
  moreover have "length ?t \<ge> PAGE_SIZE" if n: "57 \<le> length (neigh_list s)"
  proof (cases "length (neigh_heading @ ?a) < PAGE_SIZE")
    case True
    then have "print_all (neigh_line (currtime s)) (neigh_list s) neigh_heading = Some (neigh_heading @ ?a)"
      using h neigh_lines.print_all_iff [of "neigh_list s" neigh_heading "currtime s"] by (simp add: neigh_lines.text_of_def)
    then have "length neigh_heading + 66 * length (neigh_list s) \<le> length (neigh_heading @ ?a)"
      by (rule print_all_long [rotated]) (rule neigh_line_long)
    with n h show ?thesis by simp
  qed simp
  ultimately show ?thesis by (auto simp: read_neigh_proc_def Let_def)
qed

section \<open>Examples\<close>

lemma proc_files_reassemble_witness:
  "read_file (Suc (length (nl @ nl))) (\<lambda>offset. read_gw_list offset 1000 sample_node) 0 = Some (nl @ nl)"
proof -
  have "read_gw_list 0 1000 sample_node = Some (proc_tail 0 1000 (nl @ nl))"
    by (simp add: read_gw_list_def gw_page_def c_sprintf_def c_strcat_def sample_node_def)
  with proc_files_reassemble [where rd = read_gw_list and name = "''gateways''" and k = 1000 and s = sample_node] show ?thesis
    by (simp add: proc_entries_def proc_tail_def Let_def del: read_file.simps)
qed

lemma proc_files_fit_witness: "read_timer_queue_proc 0 1000 sample_node \<noteq> None"
  by (rule proc_files_fit [of _ "''timers''"]) (simp_all add: small_tables_def sample_node_def proc_entries_def)

lemma read_neigh_proc_spec_witness:
  "read_neigh_proc 0 1000 (sample_node\<lparr>neigh_list := replicate 57 (new_neigh 5 sample_node)\<rparr>) = None"
  using read_neigh_proc_spec [of "sample_node\<lparr>neigh_list := replicate 57 (new_neigh 5 sample_node)\<rparr>" 0 1000, THEN conjunct2]
  by simp

end
