(* ===== verification/Task_Faults.thy ===== *)
theory Task_Faults
  imports Aodv_Thread
begin

text \<open>
  Which tasks can be faults at all. With hop counts as the metric, memory and a kernel that takes
  what it is told, the handlers find every route they hold by its address, every division has
  its divisor, and only a handful of tasks are left. Those that release or give up waiting packets
  need the packet queue, and a socket of every packet they release.
\<close>

section \<open>Routes stay where they are\<close>

definition homes :: "node \<Rightarrow> nat set" where
  "homes s = rt_addr ` set (route_table s)"

lemma route_at_homes: "p \<in> homes s \<Longrightarrow> \<exists>r. route_at p s = Some r \<and> rt_addr r = p"
proof -
  assume p: "p \<in> homes s"
  then have "route_at p s \<noteq> None" by (auto simp: homes_def route_at_def find_None_iff)
  then obtain r where "route_at p s = Some r" by blast
  moreover from this have "rt_addr r = p" by (auto simp: route_at_def find_Some_iff)
  ultimately show ?thesis by blast
qed

lemma homes_set_route: "(\<And>r. rt_addr (f r) = rt_addr r) \<Longrightarrow> homes (set_route b f s) = homes s"
proof -
  assume "\<And>r. rt_addr (f r) = rt_addr r"
  then have "map rt_addr (update_first P f xs) = map rt_addr xs" for P xs by (simp add: map_update_first)
  from arg_cong [OF this, of set] show ?thesis by (simp add: homes_def set_route_def)
qed

lemma homes_found: "find_aodv_route a b c s = Some r \<Longrightarrow> rt_addr r \<in> homes s"
  unfolding homes_def by (rule imageI) (rule find_aodv_route_member)

lemma homes_rrep:
  assumes "rrep_aodv_route r s = Some (x, u)"
  shows "homes u = homes s"
proof (cases "find_src_list_entry (rt_src_ip r) s")
  case (Some e)
  obtain rc t where k: "rpdb_route True (sl_rt_table e) (rt_tos r) (rt_src_ip r) (rt_dst_ip r) (rt_next_hop r)
      (dev_index (cfg s)) (uint (rt_num_hops r)) s = (rc, t)" by fastforce
  have "homes v = homes w" if "ipq_send_ip b c d w = Some v" for b c d v w
    using ipq_send_ip_frame [OF that] by (auto simp: homes_def)
  moreover have "homes t = homes s" using rpdb_route_D [OF k] by (simp add: homes_def)
  ultimately show ?thesis
    using Some k assms by (fastforce simp: rrep_aodv_route_def Let_def homes_set_route split: if_splits)
qed (use assms in \<open>simp add: rrep_aodv_route_def\<close>)

lemma homes_create: "create_aodv_route a b c d s = (x, t) \<Longrightarrow> homes s \<subseteq> homes t \<and> (\<forall>r. x = Some r \<longrightarrow> rt_addr r \<in> homes t)"
  by (auto simp: create_aodv_route_eq homes_def split: if_splits)

lemma homes_next_id: "next_dst_id s = Some (i, t) \<Longrightarrow> homes t = homes s"
  by (auto simp: next_dst_id_def homes_set_route)

section \<open>Under hop counts\<close>

text \<open>What is assumed of a node, and stays: hop counts, memory, a kernel that grants requests.\<close>

definition serviceable :: "node \<Rightarrow> bool" where
  "serviceable s \<longleftrightarrow> node_ok s \<and> local_ok s \<and> metric s = HOPS \<and> (\<forall>n. alloc_ok (cfg s) n) \<and> kernel_grants (cfg s)"

lemma serviceable_evolves: "evolves s t \<Longrightarrow> serviceable s \<Longrightarrow> serviceable t"
  by (simp add: serviceable_def evolves_def)

text \<open>A computation that is no fault, with what holds of its result.\<close>

definition sure :: "('a \<Rightarrow> bool) \<Rightarrow> 'a option \<Rightarrow> bool" where
  "sure Q m \<longleftrightarrow> (\<exists>x. m = Some x \<and> Q x)"

lemma sure_some: "Q x \<Longrightarrow> sure Q (Some x)"
  by (simp add: sure_def)

lemma sure_bind: "sure P m \<Longrightarrow> (\<And>x. P x \<Longrightarrow> sure Q (f x)) \<Longrightarrow> sure Q (Option.bind m f)"
  by (auto simp: sure_def)

lemma sure_not_None: "sure Q m \<Longrightarrow> m \<noteq> None"
  by (auto simp: sure_def)

text \<open>That there is a result at all, by the form of the computation.\<close>

abbreviation defined :: "'a option \<Rightarrow> bool" where
  "defined m \<equiv> sure (\<lambda>x. True) m"

lemma defined_iff: "defined m \<longleftrightarrow> m \<noteq> None"
  by (auto simp: sure_def)

lemma defined_rules:
  "defined (Some r)"
  "defined m \<Longrightarrow> (\<And>x. m = Some x \<Longrightarrow> defined (f x)) \<Longrightarrow> defined (Option.bind m f)"
  "defined n \<Longrightarrow> defined (map_option g n)"
  "(y = None \<Longrightarrow> defined k) \<Longrightarrow> (\<And>z. y = Some z \<Longrightarrow> defined (h z)) \<Longrightarrow> defined (case_option k h y)"
  "(\<And>a b. p = (a, b) \<Longrightarrow> defined (q a b)) \<Longrightarrow> defined (case_prod q p)"
  "(b \<Longrightarrow> defined u) \<Longrightarrow> (\<not> b \<Longrightarrow> defined v) \<Longrightarrow> defined (if b then u else v)"
  by (auto simp: sure_def split: option.split prod.split)

abbreviation goes_on :: "node \<Rightarrow> 'r \<times> node \<Rightarrow> bool" where
  "goes_on s p \<equiv> evolves s (snd p) \<and> homes s \<subseteq> homes (snd p)"

lemma sure_evolves: "m \<noteq> None \<Longrightarrow> evolves_to s m \<Longrightarrow> sure (\<lambda>p. evolves s (snd p)) m"
  by (cases m) (auto simp: sure_def)

text \<open>The packets that wait cannot all be released: there is no queue, or one of them has no socket.\<close>

definition cannot_release :: "node \<Rightarrow> bool" where
  "cannot_release s \<longleftrightarrow> ipq s = None \<or> (\<exists>e\<in>set (waiting s). \<not> skb_sk e)"

definition serving :: "node \<Rightarrow> bool" where
  "serving s \<longleftrightarrow> serviceable s \<and> \<not> cannot_release s"

lemma serving_evolves: "evolves s t \<Longrightarrow> serving s \<Longrightarrow> serving t"
  using serviceable_evolves [of s t] by (auto simp: serving_def cannot_release_def evolves_def)

lemma serving_serviceable: "serving s \<Longrightarrow> serviceable s"
  by (simp add: serving_def)

lemma rreq_finish_total:
  assumes "metric s = HOPS"
  shows "sure (\<lambda>p. homes (snd p) = homes s) (rreq_finish r p n h d m s)"
  using assms by (simp add: rreq_finish_def sure_def homes_set_route)

lemma total_rreq_route:
  assumes "serviceable s"
  shows "sure (goes_on s) (rreq_aodv_route a b c n h d m s)"
proof -
  have f: "sure (\<lambda>p. homes s \<subseteq> homes (snd p)) (rreq_finish r p n h d m t)" if "cfg t = cfg s" "homes s \<subseteq> homes t" for r p t
    using rreq_finish_total [of t r p n h d m] that assms by (auto simp: sure_def serviceable_def)
  have l: "homes (set_num_routes i g t) = homes t \<and> cfg (set_num_routes i g t) = cfg t" for i g t
    by (simp add: set_num_routes_def homes_def)
  have i: "insert_src_list_entry i t = (y, u) \<Longrightarrow> homes u = homes t \<and> cfg u = cfg t" for i t y u
    by (drule insert_src_list_entry_D) (simp add: homes_def)
  have k: "rpdb_route a1 a2 a3 a4 a5 a6 a7 a8 t = (y, u) \<Longrightarrow> homes u = homes t \<and> cfg u = cfg t" for a1 a2 a3 a4 a5 a6 a7 a8 t y u
    by (drule rpdb_route_D) (simp add: homes_def)
  have c: "create_aodv_route a b c d s = (y, u) \<Longrightarrow> homes s \<subseteq> homes u \<and> cfg u = cfg s" for y u
    using homes_create [of a b c d s y u] by (auto simp: create_aodv_route_eq split: if_splits)
  have "sure (\<lambda>p. homes s \<subseteq> homes (snd p)) (rreq_aodv_route a b c n h d m s)"
    unfolding rreq_aodv_route_def
    by (auto split: option.split prod.split intro!: sure_some f dest!: i k c simp: l)
  with sure_evolves [OF sure_not_None [OF this] evolve_rreq_route [OF evolves_refl]] show ?thesis
    by (auto simp: sure_def)
qed

section \<open>Replies\<close>

lemma total_rrep_route:
  assumes "serving s"
  shows "sure (\<lambda>p. evolves s (snd p) \<and> homes (snd p) = homes s) (rrep_aodv_route r s)"
proof -
  have "rrep_aodv_route r s \<noteq> None"
    by (rule rrep_route_returns) (use assms in \<open>auto simp: serving_def cannot_release_def\<close>)
  then obtain x t where t: "rrep_aodv_route r s = Some (x, t)" by fastforce
  with homes_rrep [OF t] opt_okD [OF evolve_rrep_route [OF evolves_refl] t] show ?thesis by (simp add: sure_def)
qed

lemma total_join:
  assumes "serving s" and "p \<in> homes s" and "q \<in> homes s"
  shows "defined (join_routes p q s)"
proof -
  have h: "x \<in> homes t \<Longrightarrow> \<exists>r. route_at x t = Some r" for x t using route_at_homes by blast
  obtain r1 where 1: "route_at p s = Some r1" using h assms by blast
  obtain y1 a where a: "rrep_aodv_route r1 s = Some (y1, a)" "evolves s a" "homes a = homes s"
    using total_rrep_route [OF assms(1), of r1] by (auto simp: sure_def)
  obtain r2 where 2: "route_at q a = Some r2" using h [of q a] assms a(3) by auto
  obtain y2 b where b: "rrep_aodv_route r2 a = Some (y2, b)" "homes b = homes s"
    using total_rrep_route [OF serving_evolves [OF a(2) assms(1)], of r2] a(3) by (auto simp: sure_def)
  obtain r3 where 3: "route_at p b = Some r3" using h [of p b] assms b(2) by auto
  let ?c = "set_route q (\<lambda>x. x\<lparr>rt_last_hop := rt_next_hop r3\<rparr>) b"
  obtain r4 where 4: "route_at q ?c = Some r4" using h [of q ?c] assms b(2) by (auto simp: homes_set_route)
  let ?d = "set_route p (\<lambda>x. x\<lparr>rt_last_hop := rt_next_hop r4\<rparr>) ?c"
  obtain r5 where 5: "route_at p ?d = Some r5" using h [of p ?d] assms b(2) by (auto simp: homes_set_route)
  show ?thesis by (simp add: join_routes_def Let_def sure_def 1 2 3 4 5 a(1) b(1))
qed

lemma homes_by_id: "find_aodv_route_by_id d i s = Some r \<Longrightarrow> rt_addr r \<in> homes s"
  unfolding find_aodv_route_by_id_def homes_def by (rule imageI) (auto dest: route_search.look_SomeD)

lemma total_onward:
  assumes "serving s" and "p \<in> homes s"
  shows "defined (rrep_onward n r p s)"
proof -
  obtain q where q: "route_at p s = Some q" using route_at_homes [OF assms(2)] by blast
  obtain rc t where t: "rreq_aodv_route (rp_src_ip r) (rp_dst_ip r) (rp_tos r) n (rp_num_hops r) (rp_dst_id r)
      (rp_path_metric r - rt_path_metric q) s = Some (rc, t)" "homes s \<subseteq> homes t" "evolves s t"
    using total_rreq_route [OF serving_serviceable [OF assms(1)]] unfolding sure_def by (metis prod.collapse)
  show ?thesis
    unfolding rrep_onward_def q bind.bind_lunit t(1) prod.case
    by (intro defined_rules total_join serving_evolves [OF t(3) assms(1)]) (use t(2) assms(2) homes_by_id in auto)
qed

lemma total_dtn_recv:
  assumes "serviceable s"
  shows "sure (\<lambda>(x, t). evolves s t \<and> (\<forall>p. x = Some p \<longrightarrow> p \<in> homes t)) (dtn_recv_route r s)"
proof (cases "find_aodv_route (dtn_hello_ip (cfg s)) (rp_src_ip r) (rp_tos r) s")
  case None
  then show ?thesis by (simp add: dtn_recv_route_def sure_def)
next
  case (Some q)
  obtain x t where c: "create_aodv_route (rp_dst_ip r) (rp_src_ip r) (rp_tos r) (rp_dst_id r) s = (Some x, t)"
    using assms by (auto simp: create_aodv_route_eq serviceable_def)
  then have "evolves s t" using evolve_create_route [OF evolves_refl, of s] by (metis snd_conv)
  then have "evolves s (set_route (rt_addr x) (\<lambda>y. y\<lparr>rt_last_hop := rt_last_hop q, rt_next_hop := rt_next_hop q\<rparr>) t)"
    by (rule evolve_set_route) simp_all
  with Some c homes_create [OF c] show ?thesis
    by (simp add: dtn_recv_route_def sure_def homes_set_route)
qed

lemma total_relay:
  assumes "serving s"
  shows "defined (rrep_relay n r s)"
proof -
  obtain x t where t: "(if rp_dttl r > 0 then dtn_recv_route r s
       else Some (map_option rt_addr (find_aodv_route_by_id (rp_src_ip r) (rp_src_id r) s), s)) = Some (x, t)"
    "evolves s t" "\<forall>p. x = Some p \<longrightarrow> p \<in> homes t"
    using total_dtn_recv [OF serving_serviceable [OF assms], of r] homes_by_id by (cases "rp_dttl r > 0") (auto simp: sure_def)
  show ?thesis
    unfolding rrep_relay_def t(1) bind.bind_lunit prod.case Let_def
    by (intro defined_rules total_onward serving_evolves [OF t(2) assms]) (use t(3) in auto)
qed

lemma total_recv_rrep:
  assumes "serving s"
  shows "defined (recv_rrep src m s)"
proof -
  have l: "serving (update_neigh_timelife src s)" by (rule serving_evolves [OF evolve_timelife [OF evolves_refl] assms])
  have "defined (rrep_at_source n r t)" if "serving t" for n r t
  proof -
    let ?t = "update_timer_queue t"
    have t: "serving ?t" by (rule serving_evolves [OF evolve_update_timer [OF evolves_refl] that])
    obtain rc u where u: "rreq_aodv_route (rp_src_ip r) (rp_dst_ip r) (rp_tos r) n (rp_num_hops r) (rp_dst_id r) (rp_path_metric r) ?t
        = Some (rc, u)" "evolves ?t u"
      using total_rreq_route [OF serving_serviceable [OF t]] unfolding sure_def by (metis prod.collapse)
    have "defined (rrep_aodv_route q (delete_timer a b c d u))" for q a b c d
      using total_rrep_route [OF serving_evolves [OF evolve_delete_timer [OF u(2), of a b c d] t], of q] by (auto simp: sure_def)
    with u(1) show ?thesis
      unfolding rrep_at_source_def Let_def u(1) bind.bind_lunit prod.case by (intro defined_rules) simp_all
  qed
  with l total_relay show ?thesis unfolding recv_rrep_def Let_def by (intro defined_rules) auto
qed

lemma total_next_id:
  assumes "serviceable s"
  shows "sure (\<lambda>p. evolves s (snd p) \<and> homes (snd p) = homes s) (next_dst_id s)"
proof -
  have "local_ok s" using assms by (simp add: serviceable_def)
  from sure_evolves [OF local_ok_next_id [OF this] evolve_next_id [OF evolves_refl]] homes_next_id show ?thesis
    by (auto simp: sure_def)
qed

lemma total_reply_route:
  assumes "serviceable s" and "rt_addr r \<in> homes s"
  shows "sure (\<lambda>(x, t). evolves s t \<and> (\<forall>p d. x = Inr (p, d) \<longrightarrow> p \<in> homes t)) (reply_route a b c r s)"
proof (cases "dtn_register s \<and> b = dtn_hello_ip (cfg s)")
  case True
  obtain i t where t: "next_dst_id s = Some (i, t)" "evolves s t" "homes t = homes s"
    using total_next_id [OF assms(1)] by (auto simp: sure_def)
  obtain x u where u: "create_aodv_route (mesh_ip t) a c i t = (Some x, u)"
    using serviceable_evolves [OF t(2) assms(1)] by (auto simp: create_aodv_route_eq serviceable_def)
  have e: "evolves s u" using evolve_create_route [OF t(2)] u by (metis snd_conv)
  obtain q where q: "route_at (rt_addr r) u = Some q"
    using homes_create [OF u] t(3) assms(2) route_at_homes by blast
  have "evolves s (set_route (rt_addr x) (\<lambda>y. y\<lparr>rt_next_hop := rt_next_hop q, rt_last_hop := 0\<rparr>) u)"
    by (rule evolve_set_route [OF e]) simp_all
  with True t u q homes_create [OF u] show ?thesis by (simp add: reply_route_def sure_def homes_set_route)
qed (use assms in \<open>auto simp: reply_route_def sure_def\<close>)

lemma total_gen_rrep:
  assumes "serving s"
  shows "defined (gen_rrep a b c s)"
proof -
  let ?s1 = "s\<lparr>allocs := Suc (allocs s)\<rparr>"
  let ?s2 = "s\<lparr>allocs := Suc (Suc (allocs s))\<rparr>"
  have sv: "serviceable s" by (rule serving_serviceable [OF assms])
  have k: "kmalloc s = (Some (Suc (allocs s)), ?s1)" "kmalloc ?s1 = (Some (Suc (Suc (allocs s))), ?s2)"
    using sv by (simp_all add: kmalloc_def serviceable_def)
  have e2: "evolves s ?s2" using evolve_allocs [OF evolve_allocs [OF evolves_refl, of s]] by simp
  have s2: "serviceable ?s2" by (rule serviceable_evolves [OF e2 sv])
  have r: "sure (\<lambda>(x, t). evolves ?s2 t \<and> (\<forall>p d. x = Inr (p, d) \<longrightarrow> p \<in> homes t)) (reply_route a b c r ?s2)"
    if "find_aodv_route b a c ?s1 = Some r" for r
    using total_reply_route [OF s2] homes_found [OF that] by (simp add: homes_def)
  have at: "p \<in> homes t \<Longrightarrow> defined (route_at p t)" for p t using route_at_homes by (fastforce simp: sure_def)
  have body: "defined (Option.bind (next_dst_id t) (\<lambda>(i, t). Option.bind (route_at p t) (\<lambda>q.
      Option.bind (rrep_aodv_route q t) (\<lambda>(_, u). Option.bind (route_at p (set_route p f u)) (g i t q u)))))"
    if tv: "serving t" and tp: "p \<in> homes t" and tf: "\<And>r. rt_addr (f r) = rt_addr r"
      and tg: "\<And>i t q u x. defined (g i t q u x)" for t p f g
  proof -
    obtain i u where u: "next_dst_id t = Some (i, u)" "evolves t u" "homes u = homes t"
      using total_next_id [OF serving_serviceable [OF tv]] by (auto simp: sure_def)
    have p: "defined (route_at p u)" by (rule at) (simp add: u(3) tp)
    have "defined (Option.bind (rrep_aodv_route q u) (\<lambda>(_, v). Option.bind (route_at p (set_route p f v)) (g i u q v)))" for q
    proof -
      obtain x v where v: "rrep_aodv_route q u = Some (x, v)" "homes v = homes u"
        using total_rrep_route [OF serving_evolves [OF u(2) tv]] by (force simp: sure_def)
      have "defined (route_at p (set_route p f v))" by (rule at) (simp add: homes_set_route tf tp v(2) u(3))
      then show ?thesis unfolding v(1) bind.bind_lunit prod.case by (intro defined_rules(2) tg)
    qed
    then show ?thesis unfolding u(1) bind.bind_lunit prod.case by (rule defined_rules(2) [OF p])
  qed
  have "defined (gen_rrep a b c s)" if h: "find_aodv_route b a c ?s1 = Some r'" for r'
  proof -
    obtain x t where x: "reply_route a b c r' ?s2 = Some (x, t)" "evolves ?s2 t" "\<forall>p d. x = Inr (p, d) \<longrightarrow> p \<in> homes t"
      using r [OF h] by (auto simp: sure_def)
    have t: "serving t" by (rule serving_evolves [OF evolves_trans [OF e2 x(2)] assms])
    show ?thesis
    proof (cases x)
      case (Inr p)
      obtain u v where p: "p = (u, v)" by fastforce
      with x(1) Inr h k have "gen_rrep a b c s = Option.bind (next_dst_id t) (\<lambda>(i, t). Option.bind (route_at u t) (\<lambda>q.
          Option.bind (rrep_aodv_route q t) (\<lambda>(_, w). Option.bind (route_at u (set_route u (\<lambda>y. y\<lparr>rt_last_hop := rt_src_ip y\<rparr>) w))
            (\<lambda>z. Some (1, send_message (rt_next_hop z) NET_DIAMETER (M_RREP (convert_rrep_to_network (new_rrep q i c v t)))
               (set_route u (\<lambda>y. y\<lparr>rt_last_hop := rt_src_ip y\<rparr>) w))))))"
        by (simp add: gen_rrep_def Let_def)
      also have "defined \<dots>" by (rule body [OF t]) (use x(3) Inr p in \<open>simp_all add: sure_some\<close>)
      finally show ?thesis .
    qed (use x h k in \<open>simp add: gen_rrep_def sure_some\<close>)
  qed
  moreover have "defined (gen_rrep a b c s)" if "find_aodv_route b a c ?s1 = None"
    using that k by (simp add: gen_rrep_def sure_some)
  ultimately show ?thesis by (cases "find_aodv_route b a c ?s1") auto
qed

section \<open>Requests, errors, hellos, probes\<close>

lemma total_recv_rreq:
  assumes "serviceable s"
  shows "defined (recv_rreq src ttl m s)"
proof -
  have l: "serviceable (update_neigh_timelife src s)" by (rule serviceable_evolves [OF evolve_timelife [OF evolves_refl] assms])
  then have "metric (update_neigh_timelife src s) = HOPS" by (simp add: serviceable_def)
  then have "defined (rreq_metric n r (update_neigh_timelife src s))" for n r
    by (simp add: rreq_metric_def sure_some)
  moreover have "defined (rreq_aodv_route a b c n h d e (update_neigh_timelife src s))" for a b c n h d e
    using sure_not_None [OF total_rreq_route [OF l]] by (simp add: defined_iff)
  ultimately show ?thesis unfolding recv_rreq_def Let_def by (intro defined_rules) simp_all
qed

lemma record_defined:
  assumes "links_fresh s" and "\<forall>n. alloc_ok (cfg s) n" and "records s t"
  shows "defined (record_brk_link a b c d t)"
  using record_brk_link_fresh [of t a b c d] assms by (auto simp: sure_def records_def)

lemma total_recv_rerr:
  assumes "links_fresh s" and "\<forall>n. alloc_ok (cfg s) n"
  shows "defined (recv_rerr src m s)"
proof -
  have d: "records s (if b then send2dtn p port s else s)" for b p port by (simp add: sends_only_records)
  have "records u (send_message ip ttl x u)" for u ip ttl x by (simp add: sends_only_records)
  from records_trans [OF d this] d show ?thesis
    unfolding recv_rerr_def relay_rerr_def Let_def
    by (intro defined_rules record_defined [OF assms]) auto
qed

lemma total_gen_rerr:
  assumes "routes_ok s" and "links_fresh s" and "\<forall>n. alloc_ok (cfg s) n"
  shows "defined (gen_rerr ip s)"
  using rerr_loop [OF assms(2,3), of "[]" "route_table s" ip 0] assms(1) by (auto simp: routes_ok_def gen_rerr_def sure_def)

lemma links_fresh_cong: "brk_list t = brk_list s \<Longrightarrow> now t = now s \<Longrightarrow> links_fresh t = links_fresh s"
  by (simp add: links_fresh_def)

lemma total_delete_neigh:
  assumes "serviceable s" and "links_fresh s"
  shows "defined (delete_aodv_neigh ip s)"
proof -
  have "defined (gen_rerr ip (s\<lparr>neigh_list := ns\<rparr>))" for ns
    by (rule total_gen_rerr) (use assms in \<open>auto simp: serviceable_def node_ok_def table_defs links_fresh_def\<close>)
  then show ?thesis
    using assms(1) unfolding delete_aodv_neigh_def Let_def by (intro defined_rules) (simp add: serviceable_def)
qed

lemma total_reset_ett:
  assumes "serviceable s" and "links_fresh s"
  shows "defined (reset_ett (Some n) s)"
proof -
  have g: "defined (gen_rerr ip t)" if "evolves s t" "brk_list t = brk_list s" for ip t
    using serviceable_evolves [OF that(1) assms(1)] that assms(2) links_fresh_cong [of t s]
    by (intro total_gen_rerr) (auto simp: serviceable_def node_ok_def evolves_def)
  show ?thesis
    unfolding reset_ett_def option.case Let_def split_beta
  proof (rule g, goal_cases)
    case 1
    show ?case by (intro evolve evolves_refl) simp_all
  qed (simp add: probe_jitter_def split_beta get_random_bytes_def set_neigh_def)
qed

lemma total_send_probe: "defined (send_probe ip s)"
proof -
  have f: "find_aodv_neigh ip (s\<lparr>count_send := k, allocs := j\<rparr>) = find_aodv_neigh ip s" for k j
    by (simp add: find_aodv_neigh_def)
  show ?thesis
    unfolding send_probe_def send_ett_info_def Let_def kmalloc_def by (intro defined_rules) (auto simp: f sure_some)
qed

lemma total_create_neigh:
  assumes "serviceable s"
  shows "defined (create_aodv_neigh ip s)"
proof -
  have r: "defined (route_aodv_neigh ip t)" if t: "serviceable t" for t
  proof -
    have "defined (local_dst_id t)"
      using local_ok_next_id [of t] t by (simp add: serviceable_def local_dst_id_def next_dst_id_def route_at_def defined_iff)
    moreover have "\<not> rc < 0" if "rpdb_route True x 0 y ip ip z 1 u = (rc, v)" "cfg u = cfg t" for x y z u v rc
      using rpdb_route_grants [of u True x 0 y ip ip z 1] that t by (simp add: serviceable_def)
    ultimately show ?thesis
      unfolding route_aodv_neigh_def Let_def
      by (intro defined_rules) (auto simp: create_aodv_route_eq split: if_splits)
  qed
  have "serviceable (s\<lparr>allocs := Suc (allocs s)\<rparr>)"
    by (rule serviceable_evolves [OF evolve_allocs [OF evolves_refl] assms])
  from r [OF this] show ?thesis
    unfolding create_aodv_neigh_def kmalloc_def Let_def by (intro defined_rules) auto
qed

lemma total_recover:
  "serviceable s \<Longrightarrow> defined (recover_links src ls s)"
proof (induction ls arbitrary: s)
  case (Cons l ls)
  have "local_ok s" using Cons.prems by (simp add: serviceable_def)
  then obtain t where t: "gen_rreq (mesh_ip s) (bl_dst_ip l) 2 s = Some t" using discovery_no_fault(1) by blast
  have "evolves s t" using opt_okD [OF evolve_gen_rreq [OF evolves_refl] t] .
  with Cons t show ?case by (auto simp: sure_some intro: serviceable_evolves)
qed (simp add: sure_some)

lemma total_recv_hello:
  assumes "serviceable s"
  shows "defined (recv_hello src h xs s)"
proof -
  let ?u = "case find_aodv_neigh_2h src s of None \<Rightarrow> s | Some n \<Rightarrow> snd (delete_aodv_neigh_2h (n2_ip n) s)"
  have u: "evolves s ?u" by (intro evolve_flow(4) evolve evolves_refl)
  note su = serviceable_evolves [OF u assms]
  have "defined (recover_links src (brk_list t) t)" if "create_aodv_neigh src ?u = Some (x, t)" for x t
    using serviceable_evolves [OF _ assms] opt_okD [OF evolve_create_neigh [OF u] that] total_recover by simp
  then have n: "defined (new_neighbour src s)"
    unfolding new_neighbour_def Let_def by (intro defined_rules total_create_neigh [OF su]) blast
  have h: "defined (hear_neighbour src h xs t)" if "evolves s t" for t
  proof -
    have "metric (update_neigh_timelife src t) = HOPS"
      using serviceable_evolves [OF evolve_timelife [OF that] assms] by (simp add: serviceable_def)
    then show ?thesis by (simp add: hear_neighbour_def Let_def sure_some)
  qed
  have e: "new_neighbour src s = Some (b, t) \<Longrightarrow> evolves s t" for b t
    using opt_okD [OF evolve_new_neighbour [OF evolves_refl]] by fastforce
  show ?thesis
    unfolding recv_hello_def by (intro defined_rules n h) (auto split: if_splits intro: e)
qed

section \<open>The faults that are left\<close>

text \<open>A packet of another kind than the task says, and a report of the link measurement.\<close>

definition mislabelled :: "task \<Rightarrow> bool" where
  "mislabelled t \<longleftrightarrow>
     tk_type t \<in> set recv_tasks \<and> (case tk_data t of None \<Rightarrow> True | Some m \<Rightarrow> task_of m \<noteq> tk_type t)"

definition reports_delay :: "task \<Rightarrow> node \<Rightarrow> bool" where
  "reports_delay t s \<longleftrightarrow> tk_type t \<in> {TASK_RECV_L_ETT, TASK_ETT_INFO} \<and> find_aodv_neigh (tk_src_ip t) s \<noteq> None"

definition freed_twice :: "task \<Rightarrow> node \<Rightarrow> bool" where
  "freed_twice t s \<longleftrightarrow> (\<exists>m. tk_data t = Some (M_RRDP m) \<and> fst (recv_rrdp (tk_src_ip t) m s))"

text \<open>The tasks that release packets, and that give packets up.\<close>

definition releases :: "task \<Rightarrow> node \<Rightarrow> bool" where
  "releases t s \<longleftrightarrow> tk_type t \<in> {TASK_RECV_RREP, TASK_SEND_RREP} \<and> cannot_release s"

definition gives_up :: "task \<Rightarrow> node \<Rightarrow> bool" where
  "gives_up t s \<longleftrightarrow> tk_type t = TASK_RESEND_RREQ \<and> tk_retries t = 0 \<and> ipq s = None"

text \<open>
  With hop counts, memory, a kernel that grants what it is asked, and no broken link past its
  time, these are the only tasks that can be faults.
\<close>

lemma faults_with_hop_counts:
  assumes "serviceable s" and "links_fresh s" and "handle_task t s = None"
  shows "mislabelled t \<or> freed_twice t s \<or> reports_delay t s
    \<or> tk_type t = TASK_GW_CLEANUP \<and> (\<exists>e\<in>set (gw_list s). time_after (currtime s) (gw_lifetime e))
    \<or> tk_type t = TASK_ETT_CLEANUP \<and> find_aodv_neigh (tk_src_ip t) s = None
    \<or> releases t s \<or> gives_up t s"
proof (cases "tk_type t \<in> set recv_tasks")
  case True
  note al = assms(1) [unfolded serviceable_def, THEN conjunct2, THEN conjunct2, THEN conjunct2, THEN conjunct1]
  show ?thesis
  proof (cases "mislabelled t")
    case False
    with True obtain m where m: "tk_data t = Some m" "task_of m = tk_type t" by (auto simp: mislabelled_def split: option.splits)
    with True assms(3) have h: "handle_packet t m s = None" by (simp add: handle_task_def)
    have "freed_twice t s \<or> reports_delay t s \<or> releases t s"
    proof (cases m)
      case (M_RREP r)
      have "cannot_release s"
      proof (rule ccontr)
        assume "\<not> cannot_release s"
        with assms(1) have "serving s" by (simp add: serving_def)
        from sure_not_None [OF total_recv_rrep [OF this]] h M_RREP show False by (simp add: handle_packet_def del: not_None_eq)
      qed
      with m(2) M_RREP show ?thesis by (auto simp: releases_def task_of_def)
    next
      case (M_RRDP r)
      with h m show ?thesis by (auto simp: handle_packet_def freed_twice_def split: prod.splits if_splits)
    next
      case (M_LPROBE r)
      with h m show ?thesis by (auto simp: handle_packet_def reports_delay_def task_of_def recv_lprobe_def split: option.splits)
    next
      case (M_ETTINFO r)
      with h m show ?thesis by (auto simp: handle_packet_def reports_delay_def task_of_def recv_ett_info_def split: option.splits)
    qed (use h in \<open>simp_all add: handle_packet_def
        total_recv_rerr [OF assms(2) al, THEN sure_not_None] total_recv_hello [OF assms(1), THEN sure_not_None]
        total_recv_rreq [OF assms(1), THEN sure_not_None] del: not_None_eq\<close>)
    then show ?thesis by blast
  qed simp
next
  case False
  have lo: "local_ok s" using assms(1) by (simp add: serviceable_def)
  have rr: "gen_rrep a b c s = None \<Longrightarrow> cannot_release s" for a b c
    using total_gen_rrep [of s a b c, THEN sure_not_None] assms(1) by (auto simp: serving_def)
  note never = discovery_no_fault(1) [OF lo] total_delete_neigh [OF assms(1,2), THEN sure_not_None] total_send_probe [THEN sure_not_None]
    total_reset_ett [OF assms(1,2), THEN sure_not_None]
  show ?thesis
    using assms(3) False
    by (cases "find_aodv_neigh (tk_src_ip t) s")
      (auto simp: handle_task_def never update_gw_lifetimes_def gw_scan_None releases_def gives_up_def
          discovery_no_fault(2) [OF lo] dest: rr simp del: not_None_eq split: if_splits)
qed

end
