(* ===== verification/Module_Init.thy ===== *)
theory Module_Init
  imports Router_Thread Proc_Files Task_Faults
begin

text \<open>
  Loading and unloading: the mesh device and the local route of \<open>aodv_dev.c\<close>, and
  \<open>init_fbaodv_module\<close> and \<open>cleanup_fbaodv_module\<close> of \<open>fbaodv_protocol.c\<close>. What the kernel
  answers is in \<open>kernel_env\<close>; the proc files leave no trace
  in the node, and the thread starts as \<open>Router_Thread\<close> has it.
\<close>

section \<open>Parameters\<close>

record module_params =
  mesh_dev :: "string option"
  network_ip :: "string option"
  aodv_gateway :: u32
  routing_metric :: "string option"
  nominal_rate :: int
  aodv_blacklist :: "string list"
  dtn_blacklist :: "string list"

text \<open>
  The device of the name given, if there is one: its address and mask, if it has one. Whether
  a socket could be made and its device set, the queue handler registered, the directory of
  the proc files and the file of each name created.
\<close>

record kernel_env =
  env_device :: "(u32 \<times> u32) option option"
  env_sock_create :: int
  env_setsockopt :: int
  env_queue :: bool
  env_proc_dir :: bool
  env_proc_entry :: "string \<Rightarrow> bool"

section \<open>The mesh device\<close>

text \<open>
  \<open>create_aodv_dev\<close> for the mesh device: \<open>False\<close> is its null pointer. A route that could not be
  created is a fault, as it is written through.
\<close>

definition local_route_write :: "node \<Rightarrow> aodv_route \<Rightarrow> aodv_route" where
  "local_route_write s r =
     r\<lparr>rt_dst_ip := mesh_ip s, rt_self_route := True, rt_next_hop := mesh_ip s, rt_last_hop := mesh_ip s,
       rt_lifetime := -1, rt_state := ACTIVE, rt_tos := 0, rt_load := 0\<rparr>"

definition create_aodv_dev :: "node \<Rightarrow> (bool \<times> node) option" where
  "create_aodv_dev s =
     (case kmalloc s of
        (None, s) \<Rightarrow> Some (False, s)
      | (Some _, s) \<Rightarrow>
          (case create_aodv_route (mesh_ip s) (mesh_ip s) NO_TOS 1 s of
             (None, s) \<Rightarrow> None
           | (Some r, s) \<Rightarrow>
               let s = set_route (rt_addr r) (local_route_write s) (s\<lparr>local_route := rt_addr r\<rparr>) in
               (case insert_src_list_entry (mesh_ip s) s of
                  (None, s) \<Rightarrow> Some (False, s)
                | (Some e, s) \<Rightarrow>
                    (case rpdb_route True (sl_rt_table e) 0 (mesh_ip s) (mesh_ip s) (mesh_ip s) (dev_index (cfg s)) 0 s of
                       (error, s) \<Rightarrow> Some (\<not> error < 0, s)))))"

text \<open>What \<open>init_sock\<close> reports is not looked at.\<close>

definition insert_aodv_dev :: "kernel_env \<Rightarrow> string \<Rightarrow> node \<Rightarrow> (int \<times> node) option" where
  "insert_aodv_dev k name s = do {
     (created, s) \<leftarrow> create_aodv_dev s;
     Some (if \<not> created \<or> env_sock_create k < 0 then (1, s)
           else
             let s = snd (init_sock (env_setsockopt k) (mesh_ip s) name s)
             in (0, s\<lparr>mesh_load := 0, mesh_load_seq := 1\<rparr>))
   }"

definition init_aodv_dev :: "kernel_env \<Rightarrow> string \<Rightarrow> node \<Rightarrow> (int \<times> node) option" where
  "init_aodv_dev k name s =
     (case env_device k of
        Some (Some (ifa_address, ifa_mask)) \<Rightarrow>
          if ifa_address = mesh_ip s \<and> ifa_mask = g_mesh_netmask (cfg s) then insert_aodv_dev k name s else Some (1, s)
      | _ \<Rightarrow> Some (1, s))"

section \<open>Loading the module\<close>

text \<open>\<open>inet_aton\<close> writes through its pointer only when the string is an address.\<close>

definition aton :: "string \<Rightarrow> u32 \<Rightarrow> u32" where
  "aton cp old = (case inet_aton cp of None \<Rightarrow> old | Some ip \<Rightarrow> ip)"

definition fixed_rate :: "int \<Rightarrow> u16 \<Rightarrow> u16" where
  "fixed_rate rate old =
     (let r = (if rate \<noteq> 0 \<and> get_nominalrate rate \<noteq> 0 then word_of_int rate else old)
      in if rate = 0 \<or> r = 0 then 0 else r)"

definition set_metric :: "string option \<Rightarrow> int \<Rightarrow> config \<Rightarrow> config" where
  "set_metric m rate c =
     (case m of
        None \<Rightarrow> c\<lparr>g_routing_metric := HOPS\<rparr>
      | Some m \<Rightarrow>
          if m = ''HOPS'' then c\<lparr>g_routing_metric := HOPS\<rparr>
          else if m = ''ETT'' then c\<lparr>g_routing_metric := ETT, g_fixed_rate := fixed_rate rate (g_fixed_rate c)\<rparr>
          else if m = ''WCIM'' then c\<lparr>g_routing_metric := WCIM, g_fixed_rate := fixed_rate rate (g_fixed_rate c)\<rparr>
          else c)"

text \<open>\<open>address/mask\<close>; without the slash nothing is read.\<close>

definition set_network :: "string \<Rightarrow> config \<Rightarrow> config" where
  "set_network ip c =
     (if CHR ''/'' \<in> set ip
      then c\<lparr>g_mesh_ip := aton (takeWhile (\<lambda>x. x \<noteq> CHR ''/'') ip) (g_mesh_ip c),
             g_mesh_netmask := aton (tl (dropWhile (\<lambda>x. x \<noteq> CHR ''/'') ip)) (g_mesh_netmask c)\<rparr>
      else c)"

definition configure :: "module_params \<Rightarrow> config \<Rightarrow> config" where
  "configure p c =
     (let c = c\<lparr>g_null_ip := aton ''0.0.0.0'' (g_null_ip c), dtn_hello_ip := aton ''127.127.127.127'' (dtn_hello_ip c),
               g_aodv_gateway := ucast (aodv_gateway p),
               g_broadcast_ip := aton ''255.255.255.255'' (g_broadcast_ip c)\<rparr>;
          c = set_metric (routing_metric p) (nominal_rate p) c;
          c = (case network_ip p of None \<Rightarrow> c | Some ip \<Rightarrow> set_network ip c)
      in c\<lparr>aodv_blacklist_ip := map (\<lambda>x. aton x 0) (aodv_blacklist p),
           dtn_blacklist_ip := map (\<lambda>x. aton x 0) (dtn_blacklist p)\<rparr>)"

text \<open>
  0 when the queue could not be made, which its caller, looking for a negative value, misses: the
  module then loads without a packet queue.
\<close>

definition init_packet_queue :: "kernel_env \<Rightarrow> node \<Rightarrow> int \<times> node" where
  "init_packet_queue k s = ipq_create_queue (env_queue k) s"

definition init_lists :: "node \<Rightarrow> node" where
  "init_lists s =
     init_flow_type_table (init_gw_list (init_src_list (init_aodv_neigh_list_2h (init_aodv_neigh_list
       (snd (init_timer_queue ((init_brk_list (init_aodv_route_table s))\<lparr>task_queue := []\<rparr>)))))))"

definition first_timers :: "node \<Rightarrow> node" where
  "first_timers s =
     (let s = (if is_gateway s then snd (insert_timer_simple TASK_ST HELLO_INTERVAL (mesh_ip s) s) else s);
          s = snd (insert_timer_simple TASK_HELLO HELLO_INTERVAL (mesh_ip s) s);
          s = snd (insert_timer_simple TASK_GW_CLEANUP ACTIVE_GWROUTE_TIMEOUT (mesh_ip s) s);
          s = snd (insert_timer_simple TASK_CLEANUP (HELLO_INTERVAL + HELLO_INTERVAL div 2) (mesh_ip s) s)
      in update_timer_queue s)"

text \<open>
  Unloading. \<open>cleanup_task_queue\<close> is followed pointer by pointer in \<open>Task_Queue\<close>; here it
  empties the queue. The lists that are freed keep their head pointers, but nothing reads them after.
\<close>

definition shut_down :: "node \<Rightarrow> node option" where
  "shut_down s =
     (let s = (close_sock s)\<lparr>aodv_timer := None, task_queue := []\<rparr> in do {
        s \<leftarrow> cleanup_packet_queue s;
        let s = cleanup_neigh_routes s;
        map_option (\<lambda>s. flush_flow_type_table (delete_gw_list (delete_aodv_neigh_list_2h
             (delete_aodv_neigh_list (flush_src_list s)))))
           (cleanup_aodv_route_table s)
      })"

text \<open>The last file is not looked at: the test behind it reads the pointer of another one.\<close>

definition create_proc_files :: "kernel_env \<Rightarrow> bool" where
  "create_proc_files k \<longleftrightarrow>
     env_proc_dir k \<and> list_all (\<lambda>(name, rd). name = ''tos_available'' \<or> env_proc_entry k name) proc_entries"

definition register_hooks :: "node \<Rightarrow> node" where
  "register_hooks s = emit (RegisterHook ''input'') (emit (RegisterHook ''output'') s)"

text \<open>
  \<open>g_aodv_dev\<close> has room for eight characters, the last of which is the end of the string; a
  longer name of the device is written past it. When the device could not be set up, the clean-up at
  \<open>out1\<close> starts with \<open>close_sock\<close>, which reads the null pointer \<open>g_mesh_dev\<close>.
\<close>

definition init_fbaodv_module :: "module_params \<Rightarrow> kernel_env \<Rightarrow> node \<Rightarrow> (int \<times> node) option" where
  "init_fbaodv_module p k s =
     (case mesh_dev p of
        None \<Rightarrow> Some (-1, s)
      | Some name \<Rightarrow>
          if length name \<ge> 8 then None
          else if network_ip p = None then Some (-1, s)
          else
            let s = s\<lparr>cfg := configure p (cfg s), longitude := 0, latitude := 0\<rparr> in
            (case init_packet_queue k s of
               (status, s) \<Rightarrow>
                 if status < 0 then Some (-1, s)
                 else do {
                   (error, s) \<leftarrow> init_aodv_dev k name (init_lists s);
                   if error \<noteq> 0 then None
                   else
                     let s = first_timers s in
                     if \<not> create_proc_files k then map_option (\<lambda>s. (-1, s)) (shut_down s) else Some (0, register_hooks s)
                 }))"

definition cleanup_fbaodv_module :: "node \<Rightarrow> node option" where
  "cleanup_fbaodv_module s = shut_down (emit (UnregisterHook ''output'') (emit (UnregisterHook ''input'') s))"

section \<open>What loading sets up\<close>

text \<open>Both ways down end in the clean-up of the routes, which is a fault in every state.\<close>

lemma shut_down_faults: "shut_down s = None"
  by (cases "cleanup_packet_queue ((close_sock s)\<lparr>aodv_timer := None, task_queue := []\<rparr>)")
    (simp_all add: shut_down_def cleanup_aodv_route_table_faults Let_def)

lemma cleanup_module_faults: "cleanup_fbaodv_module s = None"
  by (simp add: cleanup_fbaodv_module_def shut_down_faults)

lemma evolve_insert_flow [evolve]: "evolves a s \<Longrightarrow> evolves a (insert_flow_type i s)"
proof (cases "kmalloc s")
  case (Pair r u)
  assume "evolves a s"
  with Pair evolve_kmalloc [of a s] have u: "evolves a u" by simp
  have f: "evolves a (u\<lparr>flow_type_table := fs\<rparr>)" for fs by (rule evolvesI [OF u]) (auto simp: table_defs)
  show ?thesis using Pair u f by (cases r) (auto simp: insert_flow_type_def split: option.split)
qed

lemma insert_flow_routes: "route_table (fold insert_flow_type is s) = route_table s"
proof (induction "is" arbitrary: s)
  case (Cons i "is")
  have "route_table (insert_flow_type i s) = route_table s"
    by (cases "kmalloc s") (auto simp: insert_flow_type_def split: option.split dest: kmalloc_simps)
  with Cons show ?case by simp
qed simp

lemma init_lists_ok:
  assumes "ipq_ok s"
  shows "node_ok (init_lists s)" "route_table (init_lists s) = []" "cfg (init_lists s) = cfg s"
    "ipq (init_lists s) = None \<longleftrightarrow> ipq s = None"
proof -
  let ?t = "(init_gw_list (init_src_list (init_aodv_neigh_list_2h (init_aodv_neigh_list
       (snd (init_timer_queue ((init_brk_list (init_aodv_route_table s))\<lparr>task_queue := []\<rparr>)))))))\<lparr>flow_type_table := []\<rparr>"
  have t: "node_ok ?t" "route_table ?t = []" "cfg ?t = cfg s" "ipq ?t = ipq s"
    using assms by (simp_all add: node_ok_def table_defs src_tables_ok_def init_gw_list_def init_src_list_def init_aodv_neigh_list_2h_def
        init_aodv_neigh_list_def init_timer_queue_def init_brk_list_def init_aodv_route_table_def)
  have "evolves ?t (fold insert_flow_type is ?t)" for "is"
    by (rule evo.fold) (auto intro: evolve)
  then show "node_ok (init_lists s)" "cfg (init_lists s) = cfg s" "ipq (init_lists s) = None \<longleftrightarrow> ipq s = None"
    using t node_ok_evolves [of ?t] by (auto simp: init_lists_def init_flow_type_table_def evolves_def)
  show "route_table (init_lists s) = []" using t by (simp add: init_lists_def init_flow_type_table_def insert_flow_routes)
qed

text \<open>The local route, as the table has it.\<close>

definition local_route_set :: "node \<Rightarrow> bool" where
  "local_route_set s \<longleftrightarrow>
     (\<exists>r. route_table s = [r] \<and> rt_addr r = local_route s \<and> rt_self_route r \<and> rt_state r = ACTIVE \<and> rt_tos r = 0
        \<and> rt_src_ip r = mesh_ip s \<and> rt_dst_ip r = mesh_ip s \<and> rt_next_hop r = mesh_ip s)"

lemma local_route_set_cong:
  "route_table t = route_table s \<Longrightarrow> local_route t = local_route s \<Longrightarrow> cfg t = cfg s \<Longrightarrow> local_route_set t = local_route_set s"
  by (simp add: local_route_set_def)

lemma local_route_set_ok: "local_route_set s \<Longrightarrow> local_ok s"
  by (auto simp: local_route_set_def local_ok_def)

lemma create_aodv_dev_sets:
  assumes "node_ok s" and "route_table s = []" and "create_aodv_dev s = Some (True, s')"
  shows "node_ok s' \<and> local_route_set s' \<and> cfg s' = cfg s \<and> (ipq s' = None \<longleftrightarrow> ipq s = None)"
proof -
  define r where "r = new_route (Suc (Suc (allocs s))) (mesh_ip s) (mesh_ip s) NO_TOS 1 (s\<lparr>allocs := Suc (Suc (allocs s))\<rparr>)"
  define u where "u = s\<lparr>allocs := Suc (Suc (allocs s)), local_route := Suc (Suc (allocs s)), route_table := [local_route_write s r]\<rparr>"
  have c: "create_aodv_dev s = (case insert_src_list_entry (mesh_ip s) u of
         (None, s) \<Rightarrow> Some (False, s)
       | (Some e, s) \<Rightarrow>
           (case rpdb_route True (sl_rt_table e) 0 (mesh_ip s) (mesh_ip s) (mesh_ip s) (dev_index (cfg s)) 0 s of
              (error, s) \<Rightarrow> Some (\<not> error < 0, s)))"
    if "alloc_ok (cfg s) (allocs s)" "alloc_ok (cfg s) (Suc (allocs s))"
    using that assms(2)
    by (simp add: create_aodv_dev_def kmalloc_def create_aodv_route_eq set_route_def u_def r_def new_route_def local_route_write_def)
  have al: "alloc_ok (cfg s) (allocs s)" "alloc_ok (cfg s) (Suc (allocs s))"
    using assms(3) by (auto simp: create_aodv_dev_def kmalloc_def create_aodv_route_eq split: if_splits)
  have u: "node_ok u" "local_route_set u" "cfg u = cfg s" "ipq u = ipq s"
    using assms(1,2) by (auto simp: u_def r_def node_ok_def table_defs local_route_set_def local_route_write_def new_route_def
        intro: le_SucI)
  obtain e v w rc where v: "insert_src_list_entry (mesh_ip s) u = (Some e, v)"
    and w: "rpdb_route True (sl_rt_table e) 0 (mesh_ip v) (mesh_ip v) (mesh_ip v) (dev_index (cfg v)) 0 v = (rc, w)" "s' = w"
    using assms(3) c [OF al] by (auto split: prod.splits option.splits)
  have "evolves u w" using evolve_rpdb_route [OF evolve_insert_src [OF evolves_refl, of u "mesh_ip s"]] v w(1)
    by (metis snd_conv)
  moreover have "route_table w = route_table u"
    using insert_src_list_entry_D [OF v] rpdb_route_D [OF w(1)] by simp
  ultimately show ?thesis using u w(2) node_ok_evolves [of u w] local_route_set_cong [of w u] by (simp add: evolves_def)
qed

lemma evolve_first_timers: "evolves s (first_timers s)"
  unfolding first_timers_def Let_def by (intro evolve evolve_vcg evolves_refl)

lemma first_timers_routes: "route_table (first_timers s) = route_table s"
  by (simp add: first_timers_def Let_def)

lemma init_packet_queue_D:
  assumes "init_packet_queue k s = (st, u)"
  shows "ipq_ok u \<and> cfg u = cfg s \<and> (ipq u \<noteq> None \<longleftrightarrow> env_queue k \<and> alloc_ok (cfg s) (allocs s))"
  using assms
  by (auto simp: init_packet_queue_def ipq_create_queue_def kmalloc_def ipq_ok_def Let_def split: if_splits)

lemma loaded_reaches:
  assumes "init_fbaodv_module p k s = Some (0, s')"
  shows "local_route_set s'" "cfg s' = configure p (cfg s)"
    and "ipq s' \<noteq> None \<longleftrightarrow> env_queue k \<and> alloc_ok (configure p (cfg s)) (allocs s)"
    and "step\<^sup>*\<^sup>* s' t \<Longrightarrow> node_ok t \<and> cfg t = configure p (cfg s) \<and> local_ok t"
proof -
  let ?s = "s\<lparr>cfg := configure p (cfg s), longitude := 0, latitude := 0\<rparr>"
  obtain st u where u: "init_packet_queue k ?s = (st, u)" by fastforce
  have uok: "ipq_ok u" "cfg u = configure p (cfg s)"
    "ipq u \<noteq> None \<longleftrightarrow> env_queue k \<and> alloc_ok (configure p (cfg s)) (allocs s)"
    using init_packet_queue_D [OF u] by simp_all
  from assms u obtain v name where v: "init_aodv_dev k name (init_lists u) = Some (0, v)" and s': "s' = register_hooks (first_timers v)"
    by (auto simp: init_fbaodv_module_def Let_def shut_down_faults split: option.splits if_splits bind_splits)
  then obtain w where w: "create_aodv_dev (init_lists u) = Some (True, w)" 
    and vw: "\<exists>o'. v = w\<lparr>out := out w @ o', mesh_load := 0, mesh_load_seq := 1\<rparr>"
    by (auto simp: init_aodv_dev_def insert_aodv_dev_def init_sock_def emit_def Let_def
        split: option.splits if_splits bind_splits prod.splits)
  note l = init_lists_ok [OF uok(1)]
  from create_aodv_dev_sets [OF l(1,2) w] have wok: "node_ok w" "local_route_set w" "cfg w = configure p (cfg s)"
    "ipq w = None \<longleftrightarrow> ipq u = None"
    using l(3,4) uok(2) by simp_all
  have vok: "node_ok v" "local_route_set v" "cfg v = configure p (cfg s)" "ipq v = ipq w"
    using wok vw by (auto simp: node_ok_def table_defs local_route_set_def)
  have e: "evolves v s'" unfolding s' register_hooks_def by (intro evolve evolve_first_timers)
  from e have f: "cfg s' = cfg v" "local_route s' = local_route v" "ipq s' = None \<longleftrightarrow> ipq v = None" by (simp_all add: evolves_def)
  show l: "local_route_set s'"
    using vok(2) local_route_set_cong [OF _ f(2,1)] first_timers_routes [of v] by (simp add: s' register_hooks_def emit_def)
  show c: "cfg s' = configure p (cfg s)" using f(1) vok(3) by (rule trans)
  show "ipq s' \<noteq> None \<longleftrightarrow> env_queue k \<and> alloc_ok (configure p (cfg s)) (allocs s)"
    unfolding f(3) vok(4) wok(4) uok(3) ..
  have n: "node_ok s'" by (rule node_ok_evolves [OF e vok(1)])
  show "step\<^sup>*\<^sup>* s' t \<Longrightarrow> node_ok t \<and> cfg t = configure p (cfg s) \<and> local_ok t"
    using steps_ok [OF n] steps_local [OF n local_route_set_ok [OF l]] c by auto
qed

text \<open>
  C2: a module that loads is in a sound state, whatever state it was loaded in: the invariant of the node
  holds, the configuration is that of the parameters, and the one route of the table is the active
  local route of the mesh address, which every sequence number is drawn from. It has a packet queue
  exactly when there was memory for one and the kernel took its handler: without, it loads all the same.
  Every state the module reaches from there is sound, has that route still and the packet queue
  or none, so that a discovery can be started and repeated there without a fault; giving one up
  is a fault exactly when there is no packet queue.
\<close>

theorem init_module_establishes:
  assumes "init_fbaodv_module p k s = Some (0, s')"
  shows "local_route_set s' \<and> cfg s' = configure p (cfg s)
     \<and> (ipq s' \<noteq> None \<longleftrightarrow> env_queue k \<and> alloc_ok (configure p (cfg s)) (allocs s))
     \<and> (\<forall>t. step\<^sup>*\<^sup>* s' t \<longrightarrow> node_ok t \<and> cfg t = configure p (cfg s) \<and> local_ok t \<and> (ipq t = None \<longleftrightarrow> ipq s' = None)
         \<and> (\<forall>src_ip dst_ip tos. gen_rreq src_ip dst_ip tos t \<noteq> None)
         \<and> (\<forall>task. resend_rreq task t = None \<longleftrightarrow> tk_retries task = 0 \<and> ipq t = None))"
  using loaded_reaches [OF assms] discovery_no_fault steps_queue by blast

text \<open>
  C28: the file of the routes cannot be read, in any state of a loaded module: the local route has
  no traffic class, and the text that is printed for that, with the end of the string, is one byte
  longer than its array.
\<close>

theorem routes_file_faults:
  assumes "init_fbaodv_module p k s = Some (0, s')" and "step\<^sup>*\<^sup>* s' t"
  shows "read_route_table_proc offset buffer_length t = None"
proof -
  from loaded_reaches(4) [OF assms] obtain r where r: "r \<in> set (route_table t)" "rt_tos r = 0"
    by (auto simp: local_ok_def)
  then have "\<not> route_printable r" by (simp add: route_printable_def tos_class_def)
  from route_page_unprintable [OF r(1) this] show ?thesis by (simp add: read_route_table_proc_def)
qed

text \<open>
  C3: in a loaded module with hop counts as its metric, with memory and a kernel that grants what
  it is asked, a task is no fault as long as no broken link has outlived its time, but for these:
  an RRDP at the source of its route, whose packet is freed twice; the clean-up of the gateways when
  one has expired; the end of the measurement of a neighbour that is gone; a measurement that
  a neighbour reports; a packet that is not what its task says; a reply, received or to be sent, when
  the module loaded without a packet queue or a packet without a socket waits; and giving up a
  discovery when it loaded without a packet queue.
\<close>

theorem loaded_faults:
  assumes "init_fbaodv_module p k s = Some (0, s')" and "step\<^sup>*\<^sup>* s' t"
    and "g_routing_metric (configure p (cfg s)) = HOPS" and "kernel_grants (configure p (cfg s))"
    and "\<forall>n. alloc_ok (configure p (cfg s)) n" and "links_fresh t" and "handle_task task t = None"
  shows "mislabelled task \<or> freed_twice task t \<or> reports_delay task t
    \<or> tk_type task = TASK_GW_CLEANUP \<and> (\<exists>e\<in>set (gw_list t). time_after (currtime t) (gw_lifetime e))
    \<or> tk_type task = TASK_ETT_CLEANUP \<and> find_aodv_neigh (tk_src_ip task) t = None
    \<or> tk_type task \<in> {TASK_RECV_RREP, TASK_SEND_RREP} \<and> (\<not> env_queue k \<or> (\<exists>e\<in>set (waiting t). \<not> skb_sk e))
    \<or> tk_type task = TASK_RESEND_RREQ \<and> tk_retries task = 0 \<and> \<not> env_queue k"
proof -
  have "serviceable t" using loaded_reaches(4) [OF assms(1,2)] assms(3-5) by (simp add: serviceable_def)
  moreover have "ipq t = None \<longleftrightarrow> \<not> env_queue k"
    using loaded_reaches(3) [OF assms(1)] steps_queue [OF assms(2)] assms(5) by auto
  ultimately show ?thesis
    using faults_with_hop_counts [OF _ assms(6,7)] by (auto simp: releases_def cannot_release_def gives_up_def)
qed

section \<open>Examples\<close>

definition sample_params :: module_params where
  "sample_params = \<lparr>mesh_dev = Some ''wlan0'', network_ip = Some '''', aodv_gateway = 0, routing_metric = None,
     nominal_rate = 0, aodv_blacklist = [], dtn_blacklist = []\<rparr>"

definition sample_env :: kernel_env where
  "sample_env = \<lparr>env_device = Some (Some (1, 0xFFFFFF00)), env_sock_create = 0, env_setsockopt = 0, env_queue = True,
     env_proc_dir = True, env_proc_entry = (\<lambda>name. True)\<rparr>"

lemma insert_first_source:
  assumes "kernel_grants (cfg s)" and "\<And>n. alloc_ok (cfg s) n" and "src_list s = []"
  shows "\<exists>e t. insert_src_list_entry ip s = (Some e, t) \<and> cfg t = cfg s"
proof -
  have f: "find_first_rttable [] = 1"
    by (simp add: find_first_rttable_def rttable_from.simps [of 1] find_empty_rttable_def)
  have g: "\<not> nl_sock_rc (cfg s) n < 0" "\<not> nl_send_rc (cfg s) n < 0" for n
    using assms(1) by (simp_all add: kernel_grants_def not_less)
  obtain rc u where r: "rpdb_rule True 1 ip (null_ip s) (s\<lparr>allocs := Suc (allocs s)\<rparr>) = (rc, u)" by fastforce
  then have "\<not> rc < 0" "cfg u = cfg s" using g rpdb_rule_D [OF r] by (auto simp: rpdb_rule_def Let_def split: if_splits)
  with r assms(2,3) f show ?thesis by (simp add: insert_src_list_entry_def kmalloc_def Let_def)
qed

lemma create_first_dev:
  assumes "kernel_grants (cfg s)" and "\<And>n. alloc_ok (cfg s) n" and "src_list s = []"
  shows "\<exists>s'. create_aodv_dev s = Some (True, s')"
proof -
  obtain r u where u: "create_aodv_route (mesh_ip s) (mesh_ip s) NO_TOS 1 (s\<lparr>allocs := Suc (allocs s)\<rparr>) = (Some r, u)"
    "cfg u = cfg s" "src_list u = []"
    using assms(2,3) by (simp add: create_aodv_route_eq)
  let ?v = "set_route (rt_addr r) (local_route_write u) (u\<lparr>local_route := rt_addr r\<rparr>)"
  obtain e t where t: "insert_src_list_entry (mesh_ip s) ?v = (Some e, t)" "cfg t = cfg s"
    using insert_first_source [of ?v "mesh_ip s"] assms(1,2) u(2,3) by (auto simp: set_route_def)
  obtain rc w where w: "rpdb_route True (sl_rt_table e) 0 (mesh_ip t) (mesh_ip t) (mesh_ip t) (dev_index (cfg t)) 0 t = (rc, w)"
    by fastforce
  have "\<not> rc < 0" using rpdb_route_grants [of t True "sl_rt_table e" 0 "mesh_ip t" "mesh_ip t" "mesh_ip t" "dev_index (cfg t)" 0]
      t(2) assms(1) w by simp
  with t u(1,2) w assms(2) show ?thesis by (simp add: create_aodv_dev_def kmalloc_def Let_def)
qed

lemma init_lists_sources: "src_list (init_lists s) = []"
proof -
  have "src_list (insert_flow_type i t) = src_list t" for i t
    by (cases "kmalloc t") (auto simp: insert_flow_type_def split: option.split dest: kmalloc_simps)
  then have "src_list (fold insert_flow_type is t) = src_list t" for "is" t by (induction "is" arbitrary: t) simp_all
  then show ?thesis by (simp add: init_lists_def init_flow_type_table_def init_gw_list_def init_src_list_def)
qed

lemma sample_configure:
  "g_mesh_ip (configure sample_params sample_cfg) = 1" "g_mesh_netmask (configure sample_params sample_cfg) = 0xFFFFFF00"
  "alloc_ok (configure sample_params sample_cfg) n" "kernel_grants (configure sample_params sample_cfg)"
  by (simp_all add: configure_def sample_params_def set_metric_def set_network_def kernel_grants_def Let_def)
    (simp_all add: sample_cfg_def)

text \<open>It loads with the packet queue and without.\<close>

lemma sample_loads_any: "\<exists>s'. init_fbaodv_module sample_params (sample_env\<lparr>env_queue := b\<rparr>) sample_node = Some (0, s')"
proof -
  let ?s = "sample_node\<lparr>cfg := configure sample_params (cfg sample_node), longitude := 0, latitude := 0\<rparr>"
  let ?k = "sample_env\<lparr>env_queue := b\<rparr>"
  obtain st u where u: "init_packet_queue ?k ?s = (st, u)" by fastforce
  then have st: "\<not> st < 0" by (auto simp: init_packet_queue_def ipq_create_queue_def Let_def split: option.splits prod.splits if_splits)
  have uok: "ipq_ok u" "cfg u = configure sample_params sample_cfg" using init_packet_queue_D [OF u] by (simp_all add: sample_simps)
  note l = init_lists_ok [OF uok(1), unfolded uok(2)]
  obtain w where w: "create_aodv_dev (init_lists u) = Some (True, w)"
    using create_first_dev [of "init_lists u"] l(3) init_lists_sources sample_configure(3,4) by auto
  then obtain v where v: "init_aodv_dev ?k ''wlan0'' (init_lists u) = Some (0, v)"
    by (simp add: init_aodv_dev_def insert_aodv_dev_def sample_env_def l(3) sample_configure Let_def)
  have "create_proc_files ?k" by (simp add: create_proc_files_def proc_entries_def sample_env_def)
  with u st v show ?thesis by (simp add: init_fbaodv_module_def sample_params_def Let_def)
qed

lemma sample_loads: "\<exists>s'. init_fbaodv_module sample_params sample_env sample_node = Some (0, s')"
proof -
  have "sample_env\<lparr>env_queue := True\<rparr> = sample_env" by (simp add: sample_env_def)
  with sample_loads_any [of True] show ?thesis by simp
qed

lemma init_module_establishes_witness:
  "\<exists>s'. init_fbaodv_module sample_params sample_env sample_node = Some (0, s') \<and> local_route_set s' \<and> node_ok s' \<and> ipq s' \<noteq> None"
proof -
  obtain s' where s': "init_fbaodv_module sample_params sample_env sample_node = Some (0, s')" using sample_loads by blast
  have q: "env_queue sample_env" "alloc_ok (configure sample_params (cfg sample_node)) (allocs sample_node)"
    by (simp_all add: sample_env_def sample_configure sample_simps)
  from init_module_establishes [OF s'] s' q show ?thesis by blast
qed

lemma routes_file_faults_witness:
  "\<exists>s'. init_fbaodv_module sample_params sample_env sample_node = Some (0, s')
     \<and> read_route_table_proc 0 1000 (timer_queue_signal s') = None"
proof -
  obtain s' where s': "init_fbaodv_module sample_params sample_env sample_node = Some (0, s')" using sample_loads by blast
  have "step\<^sup>*\<^sup>* s' (timer_queue_signal s')" using step_event [OF event_timer] by blast
  from routes_file_faults [OF s' this] s' show ?thesis by blast
qed

text \<open>No link is broken yet.\<close>

lemma loaded_links:
  assumes "init_fbaodv_module p k s = Some (0, s')"
  shows "brk_list s' = []"
proof -
  have f: "brk_list (fold insert_flow_type is t) = brk_list t" for "is" t
  proof (induction "is" arbitrary: t)
    case (Cons i "is")
    have "brk_list (insert_flow_type i t) = brk_list t"
      by (cases "kmalloc t") (auto simp: insert_flow_type_def split: option.split dest: kmalloc_simps)
    with Cons show ?case by simp
  qed simp
  have i: "brk_list (init_lists t) = []" for t
    by (simp add: init_lists_def init_flow_type_table_def f init_gw_list_def init_src_list_def init_aodv_neigh_list_2h_def
        init_aodv_neigh_list_def init_timer_queue_def init_brk_list_def init_aodv_route_table_def)
  have d: "create_aodv_dev t = Some (b, u) \<Longrightarrow> brk_list u = brk_list t" for t b u
    by (auto simp: create_aodv_dev_def kmalloc_def create_aodv_route_eq set_route_def insert_src_list_entry_def rpdb_rule_def
        rpdb_route_def emit_def Let_def split: option.splits prod.splits if_splits)
  have "init_aodv_dev k name t = Some (0, u) \<Longrightarrow> brk_list u = brk_list t" for name t u
    by (auto simp: init_aodv_dev_def insert_aodv_dev_def init_sock_def emit_def Let_def dest!: d split: option.splits prod.splits if_splits bind_splits)
  moreover have "brk_list (first_timers t) = brk_list t" for t by (simp add: first_timers_def Let_def)
  ultimately show ?thesis
    using assms i by (fastforce simp: init_fbaodv_module_def register_hooks_def emit_def Let_def shut_down_faults split: option.splits if_splits bind_splits prod.splits)
qed

text \<open>The module that loaded without a packet queue gives up a discovery.\<close>

lemma loaded_faults_witness:
  "\<exists>s' t. init_fbaodv_module sample_params (sample_env\<lparr>env_queue := False\<rparr>) sample_node = Some (0, s')
     \<and> handle_task t s' = None \<and> tk_type t = TASK_RESEND_RREQ \<and> tk_retries t = 0"
proof -
  let ?k = "sample_env\<lparr>env_queue := False\<rparr>"
  obtain s' where s': "init_fbaodv_module sample_params ?k sample_node = Some (0, s')" using sample_loads_any by blast
  let ?t = "(sample_task TASK_RESEND_RREQ 5)\<lparr>tk_retries := 0\<rparr>"
  have t: "tk_type ?t = TASK_RESEND_RREQ" "tk_retries ?t = 0" by (simp_all add: sample_task_def)
  have c: "g_routing_metric (configure sample_params (cfg sample_node)) = HOPS"
    by (simp add: configure_def sample_params_def set_metric_def set_network_def Let_def)
  have "ipq s' = None" using loaded_reaches(3) [OF s'] by simp
  then have h: "handle_task ?t s' = None"
    by (simp add: handle_task_def recv_tasks_def t resend_rreq_def ipq_drop_ip_None)
  moreover have "links_fresh s'" by (simp add: links_fresh_def loaded_links [OF s'])
  ultimately have "mislabelled ?t \<or> freed_twice ?t s' \<or> reports_delay ?t s'
    \<or> tk_type ?t = TASK_GW_CLEANUP \<and> (\<exists>e\<in>set (gw_list s'). time_after (currtime s') (gw_lifetime e))
    \<or> tk_type ?t = TASK_ETT_CLEANUP \<and> find_aodv_neigh (tk_src_ip ?t) s' = None
    \<or> tk_type ?t \<in> {TASK_RECV_RREP, TASK_SEND_RREP} \<and> (\<not> env_queue ?k \<or> (\<exists>e\<in>set (waiting s'). \<not> skb_sk e))
    \<or> tk_type ?t = TASK_RESEND_RREQ \<and> tk_retries ?t = 0 \<and> \<not> env_queue ?k"
    by (intro loaded_faults [OF s' rtranclp.rtrancl_refl c]) (simp_all add: sample_configure sample_simps)
  with s' h t show ?thesis by blast
qed

end
