(* ===== verification/Spec2Isabelle.thy ===== *)
theory Spec2Isabelle
  imports Module_Init
begin

text \<open>
  A verification development for \<open>fbaodv_protocol\<close>, the AODV-ST routing protocol as a Linux kernel
  module. Everything is translated from the C sources under \<open>src/\<close>.

  \<^bold>\<open>The program.\<close> A node of the mesh keeps tables (routes, traffic sources, gateways, neighbours at
  one and two hops, broken links), a queue of tasks and a queue of timers. The netfilter hooks
  (\<open>packet_in.c\<close>, \<open>packet_out.c\<close>) turn what arrives into tasks and decide on what leaves; the
  timer turns what is due into tasks; one kernel thread (\<open>aodv_thread.c\<close>) works the tasks off.
  Its handlers are the protocol: route requests and replies, hellos, route errors, the recovery
  of broken paths, the measurement of links. They change the tables, tell the kernel of rules and
  routes (\<open>rpdb.c\<close>), send datagrams (\<open>socket.c\<close>) and give the packets that waited for a route back
  to netfilter (\<open>packet_queue.c\<close>).

  \<^bold>\<open>How it is modelled.\<close> The globals of the module are one record, \<open>node\<close> (\<open>Aodv_Types\<close>), which every
  operation takes and returns. Integers have the width of the code (\<open>u8\<close> to \<open>u64\<close>) and wrap around;
  times are compared by the kernel's wrap-around comparison. A table is a list in the order of the
  code's links; entries that the code holds by pointer carry the address that \<open>kmalloc\<close> gave them,
  so a store through a pointer is an update of the entry at the address. What reaches the kernel
  (sockets, hooks, datagrams, netlink requests, packets routed or given back) is appended to \<open>out\<close>.
  What the kernel answers is a parameter in the configuration of the node: whether the n-th
  allocation succeeds (\<open>alloc_ok\<close>), what the n-th send or netlink request returns, the random
  numbers, what uninitialised memory holds (\<open>junk\<close>), and the kernel's route for a flow after so
  many requests to its tables (\<open>route_output\<close>). Within one handler the clock stands still. The
  dereference of a null or freed pointer, a write outside an array and a division by zero are the
  result \<open>None\<close>; an operation without such a path has no \<open>option\<close> in its result. The module also loads
  when its packet queue cannot be set up, and \<open>q\<close> is then null or freed: \<open>ipq\<close> is \<open>None\<close> in such a
  node, and the functions of \<open>packet_queue.c\<close> that go to the queue fault. The lock operations,
  \<open>printk\<close> and the code under \<open>DEBUG\<close> and \<open>CaiDebug\<close> are left out; the code under \<open>DTN\<close>, \<open>DTN_HELLO\<close>,
  \<open>RECOVERYPATH\<close> and \<open>BLACKLIST\<close> is in.

  \<^bold>\<open>The theories.\<close> In the order in which they build on each other:

  \<^item> \<open>Prelude\<close>: integer types, time comparison, byte order, updates and removals in lists; the locales
    \<open>ordered_table\<close> (insertion into a table kept in the order of a key) and \<open>ordered_search\<close> (the search
    that stops at the first larger key), which the tables of the module interpret.
  \<^item> \<open>Net_Utils\<close> (\<open>utils.c\<close>): clock, subnets, printing and parsing of addresses, masks, rates.
  \<^item> \<open>Aodv_Types\<close> (\<open>aodv.h\<close>): messages, entries, tasks, constants, \<open>node\<close> and its configuration.
  \<^item> \<open>Task_Queue\<close> (\<open>task_queue.c\<close>): the queue as the code links it, with a heap and four anchors, and
    the list in which control tasks overtake the others. The locale \<open>control_queue\<close> states the contract
    of one operation; its interpretation gives the refinement for any sequence of operations.
  \<^item> \<open>Timer_Queue\<close> (\<open>timer_queue.c\<close>): timers in the order of their times, the signal that moves those due.
    The locale \<open>timer_service\<close> is what the protocol relies on: cancelling and arming leaves one timer.
  \<^item> \<open>Src_List\<close> (\<open>src_list.c\<close>, \<open>rpdb.c\<close>): traffic sources, their kernel tables, the netlink requests.
  \<^item> \<open>Freshness\<close>: sequence number and cost as a linear order, and the contract that routes and gateways
    share: an entry that was offered an advertisement holds the greater of the two.
  \<^item> \<open>Gw_List\<close> (\<open>gw_list.c\<close>), \<open>Packet_Queue\<close> (\<open>packet_queue.c\<close>), \<open>Flow_Types\<close> (\<open>tos.c\<close> and
    \<open>compute_coef\<close>, \<open>compute_load\<close>).
  \<^item> \<open>Ptr_List\<close>: the doubly linked insertion and removal of \<open>aodv_route.c\<close> and \<open>brk_list.c\<close> on
    pointers; the locale \<open>linked_table\<close> refines them to lists for any sequence of operations.
  \<^item> \<open>Route_Table\<close> (\<open>aodv_route.c\<close>), \<open>Brk_List\<close> (\<open>brk_list.c\<close>), \<open>Neighbours\<close> (\<open>aodv_neigh.c\<close>,
    \<open>aodv_neigh_2h.c\<close>): the tables, each with its invariant.
  \<^item> \<open>Node_Step\<close>: the invariant \<open>node_ok\<close> of a node, the relation \<open>evolves\<close>, and the locale \<open>evolution\<close>.
  \<^item> \<open>Socket\<close> (\<open>socket.c\<close>), \<open>Rerr\<close> (\<open>rerr.c\<close>, \<open>delete_aodv_neigh\<close>), \<open>Recovery\<close> (\<open>rcvp.c\<close>), \<open>Ett\<close>
    (\<open>probe_ett.c\<close>, \<open>route_alg.c\<close>), \<open>Rreq\<close> (\<open>rreq.c\<close>, \<open>st_rreq.c\<close>), \<open>Rrep\<close> (\<open>rrep.c\<close>), \<open>Hello\<close>
    (\<open>hello.c\<close>): the handlers.
  \<^item> \<open>Packet_Hooks\<close> (\<open>packet_in.c\<close>, \<open>packet_out.c\<close>), \<open>Aodv_Thread\<close> (\<open>aodv_thread.c\<close>): the composition, with
    \<open>event\<close>, what comes from outside, and \<open>step\<close>, one move of the whole module.
  \<^item> \<open>Router_Thread\<close> (\<open>aodv_thread.c\<close>): the thread with its sleep, its wake-ups and its end, as a machine
    whose moves interleave with the events. \<open>Task_Faults\<close>: which tasks can be faults at all.
  \<^item> \<open>Proc_Text\<close>: \<open>sprintf\<close> and \<open>strcat\<close> into buffers with a size; the locale \<open>line_printer\<close> (an entry that
    prints in at most so many characters) and \<open>proc_reader\<close> (what the kernel relies on when it reads a
    file in pieces). \<open>Proc_Files\<close>: the nine readers of \<open>/proc/fbaodv\<close> (\<open>aodv_neigh.c\<close>, \<open>aodv_route.c\<close>,
    \<open>gw_list.c\<close>, \<open>src_list.c\<close>, \<open>timer_queue.c\<close>, \<open>tos.c\<close>), each an interpretation of \<open>proc_reader\<close>.
  \<^item> \<open>Module_Init\<close> (\<open>aodv_dev.c\<close>, \<open>fbaodv_protocol.c\<close>): loading and unloading.

  \<^bold>\<open>What is shown.\<close>

  \<^item> The system. \<open>evolves\<close> says of an operation that it keeps \<open>node_ok\<close> (ordered and duplicate-free
    tables, vectors of the right length, windows within them, distinct kernel tables, a packet queue
    within its bound), the configuration and the queue of tasks, and only adds to what was handed
    out; \<open>grows\<close> is the same for the hooks, which add tasks. Every operation is in them, so every
    handler and every step is, and the invariant holds in all reachable states
    (\<open>system_invariant\<close>, from a loaded module on by \<open>init_module_establishes\<close>). They also keep the
    node's own route where it is (\<open>local_ok\<close>), from which sequence numbers are drawn through a pointer.
  \<^item> The thread. It works off all tasks after a kick and sleeps over none, but for an event between its
    last look into the queue and its sleep (\<open>kick_and_kill\<close>, \<open>sleeps_on_empty_queue\<close>).
  \<^item> The handlers. What a request, a reply, a hello, an error and a recovery message do to the tables
    and what they make the node send; that a message is passed on at most once, with fewer hops to go;
    that discovery, with memory and a packet queue, ends and leaves no packet waiting for its
    destination, and that without memory it stalls; that routes never become older or costlier.
  \<^item> The components. Refinement of the linked structures, order and completeness of the tables,
    exactness of flushes and releases, agreement of the measurements behind a rate, round trips.
  \<^item> Faults. Where the code faults, the theorem says exactly when: \<open>cleanup_task_queue\<close> after a task was
    served, \<open>flush_brk_list\<close>, \<open>update_gw_lifetimes\<close>, \<open>update_neightx\<close> on a full table, \<open>compute_load\<close>
    without a class, \<open>recv_rrdp\<close> at a source, the file of the routes, the clean-up of the module, the
    end of a discovery without a packet queue, the release of a packet without a socket. And in a loaded
    module with hop counts, memory and a kernel that grants requests, no handler has
    another (\<open>loaded_faults\<close>).
  \<^item> The proc files. Read in pieces they give the page (\<open>proc_files_reassemble\<close>); up to stated sizes of the
    tables the page and the temporary buffers hold what is printed (\<open>proc_files_fit\<close>).

  \<^bold>\<open>Termination.\<close> The walks over tables recurse on lists. The loop of the thread, \<open>aodv_loop\<close>, is a
  total function: each round takes a task and no handler adds one. \<open>resends\<close> serves the resend task of
  a discovery and goes on with the timer that this armed, at any times of the clock. It has fuel, and
  out of fuel it is no result; as many rounds as the task has retries, and one, are enough when there is
  memory (\<open>discovery_gives_up\<close>). \<open>read_file\<close>, the kernel's reading of a proc file, has fuel: one call for
  every byte and one more are enough, as each call but the last brings a byte. \<open>moves\<close> makes so many moves
  of the thread; \<open>kick_and_kill\<close> states how many it takes. No other bound or fuel is used.

  \<^bold>\<open>Not modelled.\<close> The layout of netlink messages in bytes (\<open>rpdb.c\<close>) and of messages on the wire
  beyond their byte order and size. The set-up of the socket of each netlink request (\<open>init_sock\<close>) beyond
  its answer. \<open>bind_to_device\<close>, \<open>connect_to_addr\<close> and \<open>id_cmp\<close>, which nothing
  calls, and the sysctl tables, whose registration is commented out. Interleaving inside a
  handler, which the code's locks are for. The removal of the proc files. The file that the kernel
  build generates; the scripts. Kernel functions whose effect the module only causes (\<open>nf_reinject\<close>,
  \<open>icmp_send\<close>) are effects in \<open>out\<close>.
\<close>

end
